(* ===== verification/Prelude.thy ===== *)
theory Prelude
  imports Main "HOL-Library.Word" "HOL-Library.List_Lexorder" "HOL-Library.Char_ord"
begin

text \<open>
  What every component of the development shares: Rust's \<open>Result\<close> and the \<open>?\<close> operator,
  loops that stop at the first error, machine integers, byte strings with UTF-8, decimal
  printing and parsing, big-endian integers, and \<open>BTreeMap\<close> as a strictly ordered association
  list behind a map interface.

  A Rust \<open>String\<close> is its sequence of UTF-8 bytes: a HOL \<^typ>\<open>string\<close>, one \<^typ>\<open>char\<close> per
  byte, so \<^const>\<open>length\<close> is Rust's \<open>len\<close> and the lexicographic order is Rust's \<open>Ord\<close> on
  \<open>str\<close>. That the bytes are UTF-8 is an invariant of the Rust type, stated as \<open>is_utf8\<close>
  where a result depends on it. Sizes and counts (\<open>usize\<close>) are natural numbers.
\<close>

named_theorems ok_simps \<open>what it means for a fallible computation to succeed\<close>

section \<open>Results\<close>

datatype ('a, 'e) result = Ok 'a | Err 'e

text \<open>Rust's \<open>?\<close>: go on with the value, or return the error.\<close>

definition and_then :: "('a, 'e) result \<Rightarrow> ('a \<Rightarrow> ('b, 'e) result) \<Rightarrow> ('b, 'e) result" where
  "and_then m f = (case m of Ok x \<Rightarrow> f x | Err e \<Rightarrow> Err e)"

definition map_err :: "('e \<Rightarrow> 'f) \<Rightarrow> ('a, 'e) result \<Rightarrow> ('a, 'f) result" where
  "map_err f m = (case m of Ok x \<Rightarrow> Ok x | Err e \<Rightarrow> Err (f e))"

definition ok_or :: "'e \<Rightarrow> 'a option \<Rightarrow> ('a, 'e) result" where
  "ok_or e v = (case v of Some x \<Rightarrow> Ok x | None \<Rightarrow> Err e)"

definition is_ok :: "('a, 'e) result \<Rightarrow> bool" where
  "is_ok m = (case m of Ok x \<Rightarrow> True | Err e \<Rightarrow> False)"

lemma and_then_simps [simp]:
  "and_then (Ok x) f = f x"
  "and_then (Err e) f = Err e"
  by (simp_all add: and_then_def)

lemma and_then_eq_Ok [ok_simps]: "and_then m f = Ok y \<longleftrightarrow> (\<exists>x. m = Ok x \<and> f x = Ok y)"
  by (cases m) auto

lemma and_then_eq_Err: "and_then m f = Err e \<longleftrightarrow> m = Err e \<or> (\<exists>x. m = Ok x \<and> f x = Err e)"
  by (cases m) auto

lemma and_then_assoc: "and_then (and_then m f) g = and_then m (\<lambda>x. and_then (f x) g)"
  by (cases m) auto

lemma and_then_cong [fundef_cong]:
  assumes "m = m'" and "\<And>x. m' = Ok x \<Longrightarrow> f x = f' x"
  shows "and_then m f = and_then m' f'"
  using assms by (cases m') auto

lemma map_err_simps [simp]:
  "map_err f (Ok x) = Ok x"
  "map_err f (Err e) = Err (f e)"
  by (simp_all add: map_err_def)

lemma map_err_eq_Ok [ok_simps, simp]: "map_err f m = Ok x \<longleftrightarrow> m = Ok x"
  by (cases m) auto

lemma map_err_eq_Err: "map_err f m = Err e \<longleftrightarrow> (\<exists>d. m = Err d \<and> f d = e)"
  by (cases m) auto

lemma ok_or_simps [simp]:
  "ok_or e (Some x) = Ok x"
  "ok_or e None = Err e"
  by (simp_all add: ok_or_def)

lemma ok_or_eq_Ok [ok_simps, simp]: "ok_or e v = Ok x \<longleftrightarrow> v = Some x"
  by (cases v) auto

lemma is_ok_simps [simp]:
  "is_ok (Ok x)"
  "\<not> is_ok (Err e)"
  by (simp_all add: is_ok_def)

lemma is_ok_iff: "is_ok m \<longleftrightarrow> (\<exists>x. m = Ok x)"
  by (cases m) auto

lemma if_Err_eq_Ok [ok_simps]: "(if b then Err e else m) = Ok x \<longleftrightarrow> \<not> b \<and> m = Ok x"
  by simp

lemma if_Ok_eq_Ok [ok_simps]: "(if b then m else Err e) = Ok x \<longleftrightarrow> b \<and> m = Ok x"
  by simp

section \<open>Loops that stop at the first error\<close>

text \<open>
  \<open>for x in xs { f(x)?; }\<close>, with and without the index of \<open>enumerate()\<close>, and with the
  variables the body changes.
\<close>

fun for_each :: "('a \<Rightarrow> (unit, 'e) result) \<Rightarrow> 'a list \<Rightarrow> (unit, 'e) result" where
  "for_each f [] = Ok ()"
| "for_each f (x # xs) = and_then (f x) (\<lambda>_. for_each f xs)"

fun for_each_index :: "nat \<Rightarrow> (nat \<Rightarrow> 'a \<Rightarrow> (unit, 'e) result) \<Rightarrow> 'a list \<Rightarrow> (unit, 'e) result"
  where
  "for_each_index i f [] = Ok ()"
| "for_each_index i f (x # xs) = and_then (f i x) (\<lambda>_. for_each_index (Suc i) f xs)"

fun try_fold :: "('s \<Rightarrow> 'a \<Rightarrow> ('s, 'e) result) \<Rightarrow> 's \<Rightarrow> 'a list \<Rightarrow> ('s, 'e) result" where
  "try_fold f s [] = Ok s"
| "try_fold f s (x # xs) = and_then (f s x) (\<lambda>s'. try_fold f s' xs)"

fun try_fold_index ::
  "nat \<Rightarrow> (nat \<Rightarrow> 's \<Rightarrow> 'a \<Rightarrow> ('s, 'e) result) \<Rightarrow> 's \<Rightarrow> 'a list \<Rightarrow> ('s, 'e) result" where
  "try_fold_index i f s [] = Ok s"
| "try_fold_index i f s (x # xs) = and_then (f i s x) (\<lambda>s'. try_fold_index (Suc i) f s' xs)"

text \<open>\<open>for i in 0..n { body }\<close>, the body changing the loop state.\<close>

fun repeat_index :: "nat \<Rightarrow> nat \<Rightarrow> (nat \<Rightarrow> 's \<Rightarrow> ('s, 'e) result) \<Rightarrow> 's \<Rightarrow> ('s, 'e) result" where
  "repeat_index i 0 f s = Ok s"
| "repeat_index i (Suc n) f s = and_then (f i s) (\<lambda>s'. repeat_index (Suc i) n f s')"

lemma for_each_eq_Ok [ok_simps]: "for_each f xs = Ok u \<longleftrightarrow> (\<forall>x\<in>set xs. f x = Ok ())"
  by (induction xs) (auto simp: ok_simps)

lemma for_each_index_eq_Ok [ok_simps]:
  "for_each_index k f xs = Ok u \<longleftrightarrow> (\<forall>i<length xs. f (k + i) (xs ! i) = Ok ())"
proof (induction xs arbitrary: k)
  case Nil
  then show ?case by simp
next
  case (Cons x xs)
  have "(\<forall>i<length (x # xs). f (k + i) ((x # xs) ! i) = Ok ()) \<longleftrightarrow>
    f k x = Ok () \<and> (\<forall>i<length xs. f (Suc k + i) (xs ! i) = Ok ())"
    by (auto simp: nth_Cons split: nat.splits)
  with Cons.IH [of "Suc k"] show ?case by (simp add: ok_simps)
qed

lemma for_each_cong [fundef_cong]:
  assumes "xs = ys" and "\<And>x. x \<in> set ys \<Longrightarrow> f x = g x"
  shows "for_each f xs = for_each g ys"
  using assms by (induction ys arbitrary: xs) auto

lemma try_fold_append:
  "try_fold f s (xs @ ys) = and_then (try_fold f s xs) (\<lambda>s'. try_fold f s' ys)"
  by (induction xs arbitrary: s) (simp_all add: and_then_assoc)

lemma try_fold_invariant:
  assumes "try_fold f s xs = Ok s'" and "P s"
    and "\<And>s x s'. P s \<Longrightarrow> x \<in> set xs \<Longrightarrow> f s x = Ok s' \<Longrightarrow> P s'"
  shows "P s'"
  using assms
proof (induction xs arbitrary: s)
  case Nil
  then show ?case by simp
next
  case (Cons x xs)
  from Cons.prems(1) obtain t where t: "f s x = Ok t" "try_fold f t xs = Ok s'"
    by (auto simp: ok_simps)
  from Cons.prems(3) [OF Cons.prems(2) _ t(1)] have "P t" by simp
  with t(2) show ?case
    by (rule Cons.IH) (use Cons.prems(3) in auto)
qed

section \<open>Machine integers\<close>

type_synonym byte = "8 word"
type_synonym u16 = "16 word"
type_synonym u32 = "32 word"
type_synonym u64 = "64 word"
type_synonym i64 = "64 word"

definition usize_max :: nat where
  "usize_max = 2 ^ 64 - 1"

definition saturating_add :: "nat \<Rightarrow> nat \<Rightarrow> nat" where
  "saturating_add a b = min (a + b) usize_max"

definition saturating_mul :: "nat \<Rightarrow> nat \<Rightarrow> nat" where
  "saturating_mul a b = min (a * b) usize_max"

lemma saturating_add_le: "saturating_add a b \<le> a + b"
  by (simp add: saturating_add_def)

lemma saturating_add_exact: "saturating_add a b \<le> k \<Longrightarrow> k < usize_max \<Longrightarrow> saturating_add a b = a + b"
  by (simp add: saturating_add_def min_def split: if_splits)

text \<open>\<open>i64::checked_add\<close>, the value read as two's complement.\<close>

definition checked_add_i64 :: "i64 \<Rightarrow> i64 \<Rightarrow> i64 option" where
  "checked_add_i64 a b =
     (if - (2 ^ 63) \<le> sint a + sint b \<and> sint a + sint b < 2 ^ 63 then Some (a + b) else None)"

lemma checked_add_i64_sint: "checked_add_i64 a b = Some c \<Longrightarrow> sint c = sint a + sint b"
proof -
  assume "checked_add_i64 a b = Some c"
  then have c: "c = a + b" and r: "- (2 ^ 63) \<le> sint a + sint b" "sint a + sint b < 2 ^ 63"
    by (auto simp: checked_add_i64_def split: if_splits)
  have "sint (a + b) = signed_take_bit 63 (sint a + sint b)"
    by (simp add: sint_word_ariths)
  also have "\<dots> = sint a + sint b"
    using r by (intro signed_take_bit_int_eq_self) auto
  finally show ?thesis using c by simp
qed

end
