(* ===== verification/Rust_Text.thy ===== *)
theory Rust_Text
  imports Prelude
begin

text \<open>
  The parts of Rust's \<open>str\<close>, \<open>u8\<close> and \<open>char\<close> the program uses: ASCII classes, UTF-8 validity and
  iteration by characters, trimming, splitting, decimal integers, and the bytes of a string.
  A Rust \<open>char\<close> is represented by its UTF-8 bytes.
\<close>

section \<open>ASCII classes\<close>

abbreviation code :: "char \<Rightarrow> nat" where
  "code c \<equiv> of_char c"

definition is_ascii_digit :: "char \<Rightarrow> bool" where
  "is_ascii_digit c \<longleftrightarrow> 48 \<le> code c \<and> code c \<le> 57"

definition is_ascii_lowercase :: "char \<Rightarrow> bool" where
  "is_ascii_lowercase c \<longleftrightarrow> 97 \<le> code c \<and> code c \<le> 122"

definition is_ascii_uppercase :: "char \<Rightarrow> bool" where
  "is_ascii_uppercase c \<longleftrightarrow> 65 \<le> code c \<and> code c \<le> 90"

definition is_ascii_alphanumeric :: "char \<Rightarrow> bool" where
  "is_ascii_alphanumeric c \<longleftrightarrow> is_ascii_digit c \<or> is_ascii_lowercase c \<or> is_ascii_uppercase c"

definition is_ascii_whitespace :: "char \<Rightarrow> bool" where
  "is_ascii_whitespace c \<longleftrightarrow> code c \<in> {9, 10, 12, 13, 32}"

definition is_ascii_control :: "char \<Rightarrow> bool" where
  "is_ascii_control c \<longleftrightarrow> code c < 32 \<or> code c = 127"

text \<open>\<open>byte.is_ascii_digit() || matches!(byte, b'a'..=b'f')\<close>.\<close>

definition is_lower_hex :: "char \<Rightarrow> bool" where
  "is_lower_hex c \<longleftrightarrow> is_ascii_digit c \<or> (97 \<le> code c \<and> code c \<le> 102)"

lemmas ascii_defs = is_ascii_digit_def is_ascii_lowercase_def is_ascii_uppercase_def
  is_ascii_alphanumeric_def is_ascii_whitespace_def is_ascii_control_def is_lower_hex_def

definition is_ascii :: "string \<Rightarrow> bool" where
  "is_ascii s \<longleftrightarrow> (\<forall>c\<in>set s. code c < 128)"

section \<open>UTF-8\<close>

definition is_cont :: "char \<Rightarrow> bool" where
  "is_cont c \<longleftrightarrow> 128 \<le> code c \<and> code c \<le> 191"

text \<open>
  The admissible second byte after each lead byte, as in the standard library's validator (the
  shortest encodings only, no surrogates, nothing above U+10FFFF).
\<close>

definition second_ok :: "char \<Rightarrow> char \<Rightarrow> bool" where
  "second_ok a b \<longleftrightarrow>
     (if code a = 224 then 160 \<le> code b \<and> code b \<le> 191
      else if code a = 237 then 128 \<le> code b \<and> code b \<le> 159
      else if code a = 240 then 144 \<le> code b \<and> code b \<le> 191
      else if code a = 244 then 128 \<le> code b \<and> code b \<le> 143
      else is_cont b)"

text \<open>The first character of a byte string and the rest; \<open>None\<close> when no character starts there.\<close>

fun utf8_split :: "string \<Rightarrow> (string \<times> string) option" where
  "utf8_split [] = None"
| "utf8_split (a # s) =
     (if code a < 128 then Some ([a], s)
      else if 194 \<le> code a \<and> code a \<le> 223 then
        (case s of
           b # s' \<Rightarrow> if is_cont b then Some ([a, b], s') else None
         | _ \<Rightarrow> None)
      else if 224 \<le> code a \<and> code a \<le> 239 then
        (case s of
           b # c # s' \<Rightarrow> if second_ok a b \<and> is_cont c then Some ([a, b, c], s') else None
         | _ \<Rightarrow> None)
      else if 240 \<le> code a \<and> code a \<le> 244 then
        (case s of
           b # c # d # s' \<Rightarrow>
             if second_ok a b \<and> is_cont c \<and> is_cont d then Some ([a, b, c, d], s') else None
         | _ \<Rightarrow> None)
      else None)"

lemma utf8_split_append: "utf8_split s = Some (c, r) \<Longrightarrow> s = c @ r"
  by (cases s) (auto split: if_splits list.splits)

lemma utf8_split_nonempty: "utf8_split s = Some (c, r) \<Longrightarrow> c \<noteq> []"
  by (cases s) (auto split: if_splits list.splits)

lemma utf8_split_shorter: "utf8_split s = Some (c, r) \<Longrightarrow> length r < length s"
  using utf8_split_append [of s c r] utf8_split_nonempty [of s c r] by (cases c) auto

lemma utf8_split_extend: "utf8_split s = Some (c, r) \<Longrightarrow> utf8_split (s @ t) = Some (c, r @ t)"
  by (cases s) (auto split: if_splits list.splits)

lemma utf8_split_ascii [simp]: "code a < 128 \<Longrightarrow> utf8_split (a # s) = Some ([a], s)"
  by simp

declare utf8_split.simps(2) [simp del]

function is_utf8 :: "string \<Rightarrow> bool" where
  "is_utf8 s = (s = [] \<or> (case utf8_split s of None \<Rightarrow> False | Some (c, r) \<Rightarrow> is_utf8 r))"
  by pat_completeness auto
termination
  by (relation "measure length") (auto dest: utf8_split_shorter)

declare is_utf8.simps [simp del]

text \<open>\<open>str::chars\<close>.\<close>

function chars :: "string \<Rightarrow> string list" where
  "chars s = (case utf8_split s of None \<Rightarrow> [] | Some (c, r) \<Rightarrow> c # chars r)"
  by pat_completeness auto
termination
  by (relation "measure length") (auto dest: utf8_split_shorter)

declare chars.simps [simp del]

lemma is_utf8_Nil [simp]: "is_utf8 []"
  by (simp add: is_utf8.simps [of "[]"])

lemma is_utf8_step: "utf8_split s = Some (c, r) \<Longrightarrow> is_utf8 s = is_utf8 r"
  by (cases "s = []") (simp_all add: is_utf8.simps [of s])

lemma is_utf8_stuck: "utf8_split s = None \<Longrightarrow> is_utf8 s = (s = [])"
  by (simp add: is_utf8.simps [of s])

lemma is_utf8_Cons_ascii [simp]: "code a < 128 \<Longrightarrow> is_utf8 (a # s) = is_utf8 s"
  by (rule is_utf8_step) simp

lemma is_utf8_append: "is_utf8 s \<Longrightarrow> is_utf8 t \<Longrightarrow> is_utf8 (s @ t)"
proof (induction s rule: is_utf8.induct)
  case (1 s)
  show ?case
  proof (cases "utf8_split s")
    case None
    with "1.prems" show ?thesis by (simp add: is_utf8_stuck)
  next
    case (Some p)
    obtain c r where p: "p = (c, r)" by (cases p)
    with Some have s: "utf8_split s = Some (c, r)" by simp
    from s "1.prems" have "is_utf8 r" by (simp add: is_utf8_step)
    moreover from s have "s \<noteq> []" by auto
    ultimately have "is_utf8 (r @ t)"
      using "1.IH" [OF Some p [symmetric]] "1.prems"(2) by simp
    with utf8_split_extend [OF s, of t] show ?thesis by (simp add: is_utf8_step)
  qed
qed

lemma is_utf8_ascii: "is_ascii s \<Longrightarrow> is_utf8 s"
  by (induction s) (auto simp: is_ascii_def)

lemma chars_Nil [simp]: "chars [] = []"
  by (simp add: chars.simps [of "[]"])

lemma chars_Cons_ascii [simp]: "code a < 128 \<Longrightarrow> chars (a # s) = [a] # chars s"
  by (simp add: chars.simps [of "a # s"])

lemma chars_step: "utf8_split s = Some (c, r) \<Longrightarrow> chars s = c # chars r"
  by (simp add: chars.simps [of s])

lemma concat_chars: "is_utf8 s \<Longrightarrow> concat (chars s) = s"
proof (induction s rule: chars.induct)
  case (1 s)
  show ?case
  proof (cases "utf8_split s")
    case None
    with "1.prems" show ?thesis
      by (simp add: is_utf8_stuck)
  next
    case (Some p)
    obtain c r where p: "p = (c, r)" by (cases p)
    with Some have s: "utf8_split s = Some (c, r)" by simp
    with "1.prems" have "is_utf8 r" by (simp add: is_utf8_step)
    with "1.IH" [OF Some p [symmetric]] have "concat (chars r) = r" .
    then have "concat (chars s) = c @ r" by (simp add: chars_step [OF s])
    with utf8_split_append [OF s] show ?thesis by simp
  qed
qed

lemma utf8_split_char: "utf8_split s = Some (c, r) \<Longrightarrow> utf8_split (c @ t) = Some (c, t)"
  by (cases s) (auto simp: utf8_split.simps split: if_splits list.splits)

text \<open>A UTF-8 character on its own, and the string spelled by several of them.\<close>

definition is_char :: "string \<Rightarrow> bool" where
  "is_char c \<longleftrightarrow> (\<forall>t. utf8_split (c @ t) = Some (c, t))"

lemma chars_induct [case_names stuck step]:
  assumes "\<And>s. utf8_split s = None \<Longrightarrow> P s"
    and "\<And>s c r. utf8_split s = Some (c, r) \<Longrightarrow> P r \<Longrightarrow> P s"
  shows "P s"
proof (induction s rule: chars.induct)
  case (1 s)
  then show ?case using assms by (cases "utf8_split s") (auto split: prod.splits)
qed

lemma chars_stuck: "utf8_split s = None \<Longrightarrow> chars s = []"
  by (simp add: chars.simps [of s])

lemma chars_is_char: "c \<in> set (chars s) \<Longrightarrow> is_char c \<and> set c \<subseteq> set s"
proof (induction s rule: chars_induct)
  case (step s d r)
  then show ?case
    using utf8_split_char [OF step(1)] utf8_split_append [OF step(1)] chars_step [OF step(1)]
    by (auto simp: is_char_def)
qed (simp add: chars_stuck)

lemma chars_concat: "list_all is_char cs \<Longrightarrow> chars (concat cs) = cs"
  by (induction cs) (auto simp: is_char_def chars_step)

lemma length_chars: "length (chars s) \<le> length s"
proof (induction s rule: chars_induct)
  case (step s c r)
  then show ?case using utf8_split_shorter [OF step(1)] by (simp add: chars_step [OF step(1)])
qed (simp add: chars_stuck)

section \<open>Trimming\<close>

text \<open>The characters with the Unicode property White\_Space, by their UTF-8 bytes.\<close>

definition is_whitespace :: "string \<Rightarrow> bool" where
  "is_whitespace c \<longleftrightarrow>
     (case map code c of
        [a] \<Rightarrow> 9 \<le> a \<and> a \<le> 13 \<or> a = 32
      | [a, b] \<Rightarrow> a = 194 \<and> (b = 133 \<or> b = 160)
      | [a, b, d] \<Rightarrow>
          a = 225 \<and> b = 154 \<and> d = 128 \<or>
          a = 226 \<and> b = 128 \<and> (128 \<le> d \<and> d \<le> 138 \<or> d = 168 \<or> d = 169 \<or> d = 175) \<or>
          a = 226 \<and> b = 129 \<and> d = 159 \<or>
          a = 227 \<and> b = 128 \<and> d = 128
      | _ \<Rightarrow> False)"

text \<open>\<open>char::is_control\<close>: the general category Cc.\<close>

definition is_control :: "string \<Rightarrow> bool" where
  "is_control c \<longleftrightarrow>
     (case map code c of
        [a] \<Rightarrow> a < 32 \<or> a = 127
      | [a, b] \<Rightarrow> a = 194 \<and> 128 \<le> b \<and> b \<le> 159
      | _ \<Rightarrow> False)"

definition trim_chars :: "string list \<Rightarrow> string list" where
  "trim_chars cs = rev (dropWhile is_whitespace (rev (dropWhile is_whitespace cs)))"

definition trim :: "string \<Rightarrow> string" where
  "trim s = concat (trim_chars (chars s))"

section \<open>Prefixes, suffixes and splitting\<close>

fun strip_prefix :: "string \<Rightarrow> string \<Rightarrow> string option" where
  "strip_prefix [] s = Some s"
| "strip_prefix (p # ps) [] = None"
| "strip_prefix (p # ps) (c # cs) = (if p = c then strip_prefix ps cs else None)"

definition starts_with :: "string \<Rightarrow> string \<Rightarrow> bool" where
  "starts_with p s \<longleftrightarrow> strip_prefix p s \<noteq> None"

definition ends_with :: "string \<Rightarrow> string \<Rightarrow> bool" where
  "ends_with p s \<longleftrightarrow> strip_prefix (rev p) (rev s) \<noteq> None"

fun contains_str :: "string \<Rightarrow> string \<Rightarrow> bool" where
  "contains_str p [] \<longleftrightarrow> p = []"
| "contains_str p (c # s) \<longleftrightarrow> starts_with p (c # s) \<or> contains_str p s"

text \<open>\<open>split_once\<close> at the first occurrence of an ASCII character, and \<open>split\<close> at every one.\<close>

fun split_once :: "char \<Rightarrow> string \<Rightarrow> (string \<times> string) option" where
  "split_once d [] = None"
| "split_once d (c # s) =
     (if c = d then Some ([], s)
      else map_option (\<lambda>(a, b). (c # a, b)) (split_once d s))"

fun split_on :: "char \<Rightarrow> string \<Rightarrow> string list" where
  "split_on d [] = [[]]"
| "split_on d (c # s) =
     (if c = d then [] # split_on d s
      else (case split_on d s of [] \<Rightarrow> [[c]] | p # ps \<Rightarrow> (c # p) # ps))"

fun rsplit_once :: "string \<Rightarrow> string \<Rightarrow> (string \<times> string) option" where
  "rsplit_once p [] = None"
| "rsplit_once p (c # s) =
     (case rsplit_once p s of
        Some (a, b) \<Rightarrow> Some (c # a, b)
      | None \<Rightarrow> map_option (\<lambda>b. ([], b)) (strip_prefix p (c # s)))"

definition strip_suffix :: "string \<Rightarrow> string \<Rightarrow> string option" where
  "strip_suffix p s = map_option rev (strip_prefix (rev p) (rev s))"

lemma strip_prefix_eq_Some: "strip_prefix p s = Some r \<longleftrightarrow> s = p @ r"
  by (induction p s rule: strip_prefix.induct) auto

lemma strip_prefix_append [simp]: "strip_prefix p (p @ r) = Some r"
  by (simp add: strip_prefix_eq_Some)

lemma starts_with_iff: "starts_with p s \<longleftrightarrow> (\<exists>r. s = p @ r)"
  by (auto simp: starts_with_def strip_prefix_eq_Some)

lemma split_once_eq_Some: "split_once d s = Some (a, b) \<longleftrightarrow> s = a @ d # b \<and> d \<notin> set a"
proof (induction s arbitrary: a)
  case Nil
  then show ?case by simp
next
  case (Cons c s)
  then show ?case by (cases a) auto
qed

lemma split_once_eq_None: "split_once d s = None \<longleftrightarrow> d \<notin> set s"
  by (induction s) auto

lemma split_on_nonempty [simp]: "split_on d s \<noteq> []"
  by (cases s) (auto split: list.splits)

lemma split_on_no_sep: "\<forall>p\<in>set (split_on d s). d \<notin> set p"
  by (induction s) (auto split: list.splits)

text \<open>\<open>join\<close> is the inverse of \<open>split\<close> on parts without the separator.\<close>

fun join :: "string \<Rightarrow> string list \<Rightarrow> string" where
  "join d [] = []"
| "join d [p] = p"
| "join d (p # q # ps) = p @ d @ join d (q # ps)"

lemma join_Cons: "ps \<noteq> [] \<Longrightarrow> join d (p # ps) = p @ d @ join d ps"
  by (cases ps) simp_all

lemma join_split_on [simp]: "join [d] (split_on d s) = s"
proof (induction s)
  case (Cons c s)
  then show ?case
    by (cases "split_on d s" rule: list.exhaust; cases "tl (split_on d s)") (auto simp: join_Cons)
qed simp

lemma split_on_part: "d \<notin> set p \<Longrightarrow> split_on d p = [p]"
  by (induction p) auto

lemma split_on_append: "d \<notin> set p \<Longrightarrow> split_on d (p @ d # s) = p # split_on d s"
  by (induction p) auto

lemma split_on_join: "ps \<noteq> [] \<Longrightarrow> \<forall>p\<in>set ps. d \<notin> set p \<Longrightarrow> split_on d (join [d] ps) = ps"
  by (induction "[d]" ps rule: join.induct) (auto simp: split_on_part split_on_append)

lemma set_join: "set (join d ps) \<subseteq> set d \<union> (\<Union>p\<in>set ps. set p)"
  by (induction d ps rule: join.induct) auto

lemma ends_with_iff: "ends_with p s \<longleftrightarrow> (\<exists>r. s = r @ p)"
proof
  assume "ends_with p s"
  then obtain r where "rev s = rev p @ r" by (auto simp: ends_with_def strip_prefix_eq_Some)
  then have "s = rev r @ p" by (metis rev_append rev_rev_ident)
  then show "\<exists>r. s = r @ p" ..
qed (auto simp: ends_with_def)

section \<open>Decimal integers\<close>

definition digit_char :: "nat \<Rightarrow> char" where
  "digit_char d = char_of (48 + d)"

fun show_nat :: "nat \<Rightarrow> string" where
  "show_nat n = (if n < 10 then [digit_char n] else show_nat (n div 10) @ [digit_char (n mod 10)])"

declare show_nat.simps [simp del]

definition show_int :: "int \<Rightarrow> string" where
  "show_int k = (if k < 0 then CHR ''-'' # show_nat (nat (- k)) else show_nat (nat k))"

definition digit_value :: "char \<Rightarrow> nat" where
  "digit_value c = code c - 48"

definition read_digits :: "string \<Rightarrow> nat" where
  "read_digits s = foldl (\<lambda>n c. 10 * n + digit_value c) 0 s"

text \<open>
  \<open>str::parse::<i64>()\<close>: an optional sign, then at least one digit and only digits, and a value
  in range.
\<close>

definition parse_int :: "int \<Rightarrow> int \<Rightarrow> string \<Rightarrow> int option" where
  "parse_int lo hi s =
     (let (neg, digits) =
        (case s of
           c # r \<Rightarrow> if c = CHR ''-'' then (True, r) else if c = CHR ''+'' then (False, r) else (False, s)
         | [] \<Rightarrow> (False, s))
      in if digits = [] \<or> (\<exists>c\<in>set digits. \<not> is_ascii_digit c) then None
         else let v = (if neg then - int (read_digits digits) else int (read_digits digits))
              in if lo \<le> v \<and> v \<le> hi then Some v else None)"

definition parse_i64 :: "string \<Rightarrow> i64 option" where
  "parse_i64 s = map_option word_of_int (parse_int (- (2 ^ 63)) (2 ^ 63 - 1) s)"

lemma code_digit_char: "d < 10 \<Longrightarrow> code (digit_char d) = 48 + d"
  by (simp add: digit_char_def of_char_of)

lemma digit_char_digit: "d < 10 \<Longrightarrow> is_ascii_digit (digit_char d)"
  by (simp add: code_digit_char is_ascii_digit_def)

lemma digit_value_digit_char [simp]: "d < 10 \<Longrightarrow> digit_value (digit_char d) = d"
  by (simp add: digit_value_def code_digit_char)

lemma show_nat_nonempty [simp]: "show_nat n \<noteq> []"
  by (subst show_nat.simps) simp

lemma show_nat_digits: "c \<in> set (show_nat n) \<Longrightarrow> is_ascii_digit c"
proof (induction n rule: show_nat.induct)
  case (1 n)
  show ?case
  proof (cases "n < 10")
    case True
    with "1.prems" show ?thesis by (simp add: show_nat.simps [of n] digit_char_digit)
  next
    case False
    with "1.prems" have "c \<in> set (show_nat (n div 10)) \<or> c = digit_char (n mod 10)"
      by (auto simp: show_nat.simps [of n])
    with "1.IH" [OF False] show ?thesis by (auto intro: digit_char_digit)
  qed
qed

lemma read_digits_show_nat [simp]: "read_digits (show_nat n) = n"
proof (induction n rule: show_nat.induct)
  case (1 n)
  show ?case
  proof (cases "n < 10")
    case True
    then show ?thesis by (simp add: show_nat.simps [of n] read_digits_def)
  next
    case False
    with "1.IH" show ?thesis by (simp add: show_nat.simps [of n] read_digits_def)
  qed
qed

lemma show_nat_inject [simp]: "show_nat m = show_nat n \<longleftrightarrow> m = n"
  by (metis read_digits_show_nat)

lemma not_digit_sign: "\<not> is_ascii_digit (CHR ''-'')" "\<not> is_ascii_digit (CHR ''+'')"
  by (simp_all add: is_ascii_digit_def)

lemma parse_int_digits:
  assumes "\<forall>c\<in>set ds. is_ascii_digit c" and "ds \<noteq> []"
  shows "parse_int lo hi ds =
      (if lo \<le> int (read_digits ds) \<and> int (read_digits ds) \<le> hi then Some (int (read_digits ds)) else None)"
    and "parse_int lo hi (CHR ''-'' # ds) =
      (if lo \<le> - int (read_digits ds) \<and> - int (read_digits ds) \<le> hi
       then Some (- int (read_digits ds)) else None)"
proof -
  obtain c r where cr: "ds = c # r"
    using assms(2) by (cases ds) auto
  with assms(1) have "c \<noteq> CHR ''-''" "c \<noteq> CHR ''+''"
    using not_digit_sign by auto
  with assms cr show "parse_int lo hi ds =
      (if lo \<le> int (read_digits ds) \<and> int (read_digits ds) \<le> hi then Some (int (read_digits ds)) else None)"
    by (simp add: parse_int_def Let_def)
  from assms show "parse_int lo hi (CHR ''-'' # ds) =
      (if lo \<le> - int (read_digits ds) \<and> - int (read_digits ds) \<le> hi
       then Some (- int (read_digits ds)) else None)"
    by (simp add: parse_int_def Let_def)
qed

lemma parse_int_show_int:
  assumes "lo \<le> k" and "k \<le> hi"
  shows "parse_int lo hi (show_int k) = Some k"
proof -
  have "\<forall>c\<in>set (show_nat n). is_ascii_digit c" for n
    by (auto dest: show_nat_digits)
  with assms show ?thesis
    by (cases "k < 0") (simp_all add: show_int_def parse_int_digits)
qed

lemma parse_i64_show_int: "parse_i64 (show_int (sint w)) = Some (w :: i64)"
proof -
  have "- (2 ^ 63) \<le> sint w" "sint w \<le> 2 ^ 63 - 1"
    using sint_greater_eq [of w] sint_less [of w] by simp_all
  then have "parse_int (- (2 ^ 63)) (2 ^ 63 - 1) (show_int (sint w)) = Some (sint w)"
    by (rule parse_int_show_int)
  then show ?thesis by (simp add: parse_i64_def)
qed

section \<open>Bytes of a string\<close>

definition byte_of_char :: "char \<Rightarrow> byte" where
  "byte_of_char c = word_of_nat (code c)"

definition char_of_byte :: "byte \<Rightarrow> char" where
  "char_of_byte b = char_of (unat b)"

definition as_bytes :: "string \<Rightarrow> byte list" where
  "as_bytes s = map byte_of_char s"

text \<open>\<open>std::str::from_utf8\<close>.\<close>

definition from_utf8 :: "byte list \<Rightarrow> string option" where
  "from_utf8 bs = (let s = map char_of_byte bs in if is_utf8 s then Some s else None)"

lemma unat_byte_of_char [simp]: "unat (byte_of_char c) = code c"
  by (simp add: byte_of_char_def unat_of_nat)

lemma char_of_byte_of_char [simp]: "char_of_byte (byte_of_char c) = c"
  by (simp add: char_of_byte_def)

lemma length_as_bytes [simp]: "length (as_bytes s) = length s"
  by (simp add: as_bytes_def)

lemma as_bytes_append [simp]: "as_bytes (s @ t) = as_bytes s @ as_bytes t"
  by (simp add: as_bytes_def)

lemma map_char_of_byte_as_bytes [simp]: "map char_of_byte (as_bytes s) = s"
  by (simp add: as_bytes_def comp_def)

lemma as_bytes_inject [simp]: "as_bytes s = as_bytes t \<longleftrightarrow> s = t"
  by (metis map_char_of_byte_as_bytes)

lemma from_utf8_as_bytes [simp]: "is_utf8 s \<Longrightarrow> from_utf8 (as_bytes s) = Some s"
  by (simp add: from_utf8_def)

section \<open>Debug formatting\<close>

text \<open>
  \<open>{:?}\<close> of a string: quoted, with the escapes of the standard library for the ASCII range. A
  character outside ASCII is copied (Rust escapes the unprintable ones among them); the text only
  ever reaches a message.
\<close>

definition debug_char :: "char \<Rightarrow> string" where
  "debug_char c =
     (if c = CHR 0x22 then [CHR 0x5C, CHR 0x22]
      else if c = CHR 0x5C then [CHR 0x5C, CHR 0x5C]
      else if code c = 10 then [CHR 0x5C, CHR ''n'']
      else if code c = 13 then [CHR 0x5C, CHR ''r'']
      else if code c = 9 then [CHR 0x5C, CHR ''t'']
      else if code c = 0 then [CHR 0x5C, CHR ''0'']
      else [c])"

definition debug_str :: "string \<Rightarrow> string" where
  "debug_str s = [CHR 0x22] @ concat (map debug_char s) @ [CHR 0x22]"

end
