(* ===== verification/Ordered_Map.thy ===== *)
theory Ordered_Map
  imports Rust_Text
begin

text \<open>
  \<open>BTreeMap<String, V>\<close>. The map is the list of its entries in the order iteration visits them:
  strictly ascending keys. The operations the program calls (\<open>get\<close>, \<open>insert\<close>, \<open>remove\<close>,
  \<open>contains_key\<close>, collecting an iterator) are the contract of the locale \<open>ordered_map\<close>; its
  clients reason from the contract, and the interpretation at the end discharges it for the
  list of entries.
\<close>

section \<open>The interface\<close>

locale ordered_map =
  fixes empty :: 'm
    and get :: "'m \<Rightarrow> 'k::linorder \<Rightarrow> 'v option"
    and insert :: "'m \<Rightarrow> 'k \<Rightarrow> 'v \<Rightarrow> 'm"
    and remove :: "'m \<Rightarrow> 'k \<Rightarrow> 'm"
    and entries :: "'m \<Rightarrow> ('k \<times> 'v) list"
    and invar :: "'m \<Rightarrow> bool"
  assumes invar_empty: "invar empty"
    and invar_insert: "invar m \<Longrightarrow> invar (insert m k v)"
    and invar_remove: "invar m \<Longrightarrow> invar (remove m k)"
    and entries_empty: "entries empty = []"
    and get_insert: "invar m \<Longrightarrow> get (insert m k v) = (get m)(k \<mapsto> v)"
    and get_remove: "invar m \<Longrightarrow> get (remove m k) = (get m)(k := None)"
    and get_entries: "invar m \<Longrightarrow> get m = map_of (entries m)"
    and entries_sorted: "invar m \<Longrightarrow> sorted_wrt (<) (map fst (entries m))"
begin

lemma get_empty: "get empty k = None"
  by (simp add: get_entries invar_empty entries_empty)

lemma get_iff_entry: "invar m \<Longrightarrow> get m k = Some v \<longleftrightarrow> (k, v) \<in> set (entries m)"
  using entries_sorted [of m]
  by (simp add: get_entries strict_sorted_iff)

lemma contains_iff_key: "invar m \<Longrightarrow> get m k \<noteq> None \<longleftrightarrow> k \<in> fst ` set (entries m)"
  by (simp add: get_entries map_of_eq_None_iff)

lemma invar_insert_all: "invar m \<Longrightarrow> invar (foldl (\<lambda>m (k, v). insert m k v) m kvs)"
  by (induction kvs arbitrary: m) (auto intro: invar_insert)

text \<open>Collecting pairs: the last value of a key wins.\<close>

lemma get_insert_all:
  "invar m \<Longrightarrow> get (foldl (\<lambda>m (k, v). insert m k v) m kvs) = get m ++ map_of (rev kvs)"
proof (induction kvs arbitrary: m)
  case Nil
  then show ?case by simp
next
  case (Cons kv kvs)
  obtain k v where kv: "kv = (k, v)" by (cases kv)
  from Cons.IH [OF invar_insert [OF Cons.prems, of k v]] kv
  show ?case by (simp add: get_insert [OF Cons.prems] map_add_def fun_eq_iff split: option.splits)
qed

end

section \<open>The list of entries\<close>

type_synonym 'v btree_map = "(string \<times> 'v) list"

definition btree_wf :: "'v btree_map \<Rightarrow> bool" where
  "btree_wf m \<longleftrightarrow> sorted_wrt (<) (map fst m)"

definition btree_get :: "'v btree_map \<Rightarrow> string \<Rightarrow> 'v option" where
  "btree_get m k = map_of m k"

definition btree_contains :: "'v btree_map \<Rightarrow> string \<Rightarrow> bool" where
  "btree_contains m k \<longleftrightarrow> btree_get m k \<noteq> None"

fun btree_insert :: "'v btree_map \<Rightarrow> string \<Rightarrow> 'v \<Rightarrow> 'v btree_map" where
  "btree_insert [] k v = [(k, v)]"
| "btree_insert ((a, b) # m) k v =
     (if k < a then (k, v) # (a, b) # m
      else if k = a then (k, v) # m
      else (a, b) # btree_insert m k v)"

fun btree_remove :: "'v btree_map \<Rightarrow> string \<Rightarrow> 'v btree_map" where
  "btree_remove [] k = []"
| "btree_remove ((a, b) # m) k = (if k = a then m else (a, b) # btree_remove m k)"

text \<open>\<open>iter.collect::<BTreeMap<_, _>>()\<close>.\<close>

definition btree_insert_all :: "'v btree_map \<Rightarrow> (string \<times> 'v) list \<Rightarrow> 'v btree_map" where
  "btree_insert_all m kvs = foldl (\<lambda>m (k, v). btree_insert m k v) m kvs"

lemma set_btree_insert: "fst ` set (btree_insert m k v) = insert k (fst ` set m)"
  by (induction m k v rule: btree_insert.induct) auto

lemma set_btree_remove: "set (btree_remove m k) \<subseteq> set m"
  by (induction m k rule: btree_remove.induct) auto

lemma btree_wf_Nil [simp]: "btree_wf []"
  by (simp add: btree_wf_def)

lemma btree_wf_Cons: "btree_wf ((a, b) # m) \<longleftrightarrow> (\<forall>k\<in>fst ` set m. a < k) \<and> btree_wf m"
  by (auto simp: btree_wf_def)

lemma btree_wf_insert: "btree_wf m \<Longrightarrow> btree_wf (btree_insert m k v)"
proof (induction m k v rule: btree_insert.induct)
  case (1 k v)
  then show ?case by (simp add: btree_wf_def)
next
  case (2 a b m k v)
  then have m: "btree_wf m" "\<forall>j\<in>fst ` set m. a < j" by (simp_all add: btree_wf_Cons)
  consider "k < a" | "k = a" | "a < k" by force
  then show ?case
  proof cases
    case 1
    with m show ?thesis by (auto simp: btree_wf_Cons)
  next
    case 2
    with m show ?thesis by (auto simp: btree_wf_Cons)
  next
    case 3
    with "2.IH" m have "btree_wf (btree_insert m k v)" by auto
    with 3 m show ?thesis by (auto simp: btree_wf_Cons set_btree_insert)
  qed
qed

lemma btree_wf_remove: "btree_wf m \<Longrightarrow> btree_wf (btree_remove m k)"
proof (induction m k rule: btree_remove.induct)
  case (1 k)
  then show ?case by simp
next
  case (2 a b m k)
  then show ?case
    using set_btree_remove [of m k] by (auto simp: btree_wf_Cons)
qed

lemma map_of_btree_insert: "map_of (btree_insert m k v) = (map_of m)(k \<mapsto> v)"
  by (induction m k v rule: btree_insert.induct) auto

lemma map_of_btree_remove: "btree_wf m \<Longrightarrow> map_of (btree_remove m k) = (map_of m)(k := None)"
proof (induction m k rule: btree_remove.induct)
  case (1 k)
  then show ?case by simp
next
  case (2 a b m k)
  show ?case
  proof (cases "k = a")
    case True
    with "2.prems" have "map_of m a = None"
      by (auto simp: btree_wf_Cons map_of_eq_None_iff)
    with True show ?thesis by (auto simp: fun_eq_iff)
  next
    case False
    with 2 show ?thesis by (auto simp: btree_wf_Cons fun_eq_iff)
  qed
qed

interpretation bt: ordered_map "[]" btree_get btree_insert btree_remove "\<lambda>m. m" btree_wf
  by unfold_locales
    (simp_all add: btree_wf_insert btree_wf_remove btree_get_def map_of_btree_insert
      map_of_btree_remove fun_eq_iff, simp add: btree_wf_def)

lemma btree_get_insert_all:
  "btree_wf m \<Longrightarrow> btree_get (btree_insert_all m kvs) = btree_get m ++ map_of (rev kvs)"
  unfolding btree_insert_all_def by (rule bt.get_insert_all)

lemma btree_wf_insert_all: "btree_wf m \<Longrightarrow> btree_wf (btree_insert_all m kvs)"
  unfolding btree_insert_all_def by (rule bt.invar_insert_all)

lemma btree_insert_all_Nil [simp]: "btree_insert_all m [] = m"
  by (simp add: btree_insert_all_def)

lemma btree_insert_all_append:
  "btree_insert_all m (xs @ ys) = btree_insert_all (btree_insert_all m xs) ys"
  by (simp add: btree_insert_all_def)

lemma btree_insert_all_Cons [simp]:
  "btree_insert_all m ((k, v) # kvs) = btree_insert_all (btree_insert m k v) kvs"
  by (simp add: btree_insert_all_def)

text \<open>Appending above the last key is insertion: how a map grows when its entries come in order.\<close>

lemma btree_insert_last:
  "\<forall>j\<in>fst ` set m. j < k \<Longrightarrow> btree_insert m k v = m @ [(k, v)]"
  by (induction m k v rule: btree_insert.induct) auto

end
