(* ===== verification/Expression.thy ===== *)
theory Expression
  imports Ordered_Map
begin

text \<open>
  The bounded expression language of the Pipeline IR
  (\<^verbatim>\<open>crates/pipeline-ir/src/expression.rs\<close>): values, the expression tree, its structural
  validation and its evaluator with secret taint. The lexer and the parser follow in
  \<open>Expression_Parser\<close>.
\<close>

section \<open>Values, trees, limits, errors\<close>

datatype parameter_value =
    PV_Bool bool
  | PV_Integer i64
  | PV_String string

fun type_name :: "parameter_value \<Rightarrow> string" where
  "type_name (PV_Bool _) = ''boolean''"
| "type_name (PV_Integer _) = ''integer''"
| "type_name (PV_String _) = ''string''"

datatype expression =
    E_Literal parameter_value
  | E_Parameter string
  | E_Not expression
  | E_Equal expression expression
  | E_NotEqual expression expression
  | E_And expression expression
  | E_Or expression expression
  | E_Add expression expression

record expression_limits =
  max_source_bytes :: nat
  max_nodes :: nat
  max_depth :: nat
  max_string_bytes :: nat
  max_operations :: nat

definition default_expression_limits :: expression_limits where
  "default_expression_limits =
     \<lparr>max_source_bytes = 16 * 1024, max_nodes = 128, max_depth = 16,
      max_string_bytes = 4 * 1024, max_operations = 128\<rparr>"

datatype expression_error_code =
    SourceLimit | Syntax | UnknownContext | NodeLimit | DepthLimit | StringLimit
  | OperationLimit | MissingParameter | TypeMismatch | IntegerOverflow

record expression_error =
  error_code :: expression_error_code
  error_offset :: nat
  error_message :: string

definition expression_error :: "expression_error_code \<Rightarrow> nat \<Rightarrow> string \<Rightarrow> expression_error" where
  "expression_error c offset message =
     \<lparr>error_code = c, error_offset = offset, error_message = message\<rparr>"

lemma error_code_expression_error [simp]: "error_code (expression_error c n m) = c"
  by (simp add: expression_error_def)

record evaluated_value =
  ev_value :: parameter_value
  ev_secret :: bool

section \<open>Structural validation\<close>

definition is_parameter_byte :: "char \<Rightarrow> bool" where
  "is_parameter_byte c \<longleftrightarrow> is_ascii_alphanumeric c \<or> c = CHR ''_'' \<or> c = CHR ''-''"

definition validate_parameter_name :: "string \<Rightarrow> (unit, expression_error) result" where
  "validate_parameter_name name =
     (if name = [] \<or> \<not> list_all is_parameter_byte name
      then Err (expression_error Syntax 0
        ''parameter name must contain only ASCII letters, digits, underscore, or hyphen'')
      else Ok ())"

definition depth_limit_error :: "expression_limits \<Rightarrow> nat \<Rightarrow> expression_error" where
  "depth_limit_error lim offset =
     expression_error DepthLimit offset (''expression depth exceeds '' @ show_nat (max_depth lim))"

definition node_limit_error :: "expression_limits \<Rightarrow> nat \<Rightarrow> expression_error" where
  "node_limit_error lim offset =
     expression_error NodeLimit offset (''expression node count exceeds '' @ show_nat (max_nodes lim))"

definition string_limit_error :: "expression_limits \<Rightarrow> nat \<Rightarrow> expression_error" where
  "string_limit_error lim offset =
     expression_error StringLimit offset
       (''expression string exceeds '' @ show_nat (max_string_bytes lim) @ '' bytes'')"

definition operation_limit_error :: "expression_limits \<Rightarrow> nat \<Rightarrow> expression_error" where
  "operation_limit_error lim offset =
     expression_error OperationLimit offset
       (''expression operation count exceeds '' @ show_nat (max_operations lim))"

text \<open>
  \<open>walk\<close> threads the two counters. \<open>walk_enter\<close> is what it does before it looks at the node,
  \<open>walk_leave\<close> what it does after.
\<close>

definition walk_enter :: "expression_limits \<Rightarrow> nat \<Rightarrow> nat \<Rightarrow> (nat, expression_error) result" where
  "walk_enter lim depth nodes =
     (if depth > max_depth lim then Err (depth_limit_error lim 0)
      else if saturating_add nodes 1 > max_nodes lim then Err (node_limit_error lim 0)
      else Ok (saturating_add nodes 1))"

definition walk_leave :: "expression_limits \<Rightarrow> nat \<times> nat \<Rightarrow> (nat \<times> nat, expression_error) result"
  where
  "walk_leave lim s =
     (if snd s > max_operations lim then Err (operation_limit_error lim 0) else Ok s)"

fun walk ::
  "expression_limits \<Rightarrow> nat \<Rightarrow> expression \<Rightarrow> nat \<times> nat \<Rightarrow> (nat \<times> nat, expression_error) result"
  where
  "walk lim depth (E_Literal v) (nodes, ops) =
     and_then (walk_enter lim depth nodes) (\<lambda>nodes.
     and_then (case v of
         PV_String s \<Rightarrow> if length s > max_string_bytes lim then Err (string_limit_error lim 0)
                        else Ok (nodes, ops)
       | _ \<Rightarrow> Ok (nodes, ops))
     (walk_leave lim))"
| "walk lim depth (E_Parameter name) (nodes, ops) =
     and_then (walk_enter lim depth nodes) (\<lambda>nodes.
     and_then (validate_parameter_name name) (\<lambda>_. walk_leave lim (nodes, ops)))"
| "walk lim depth (E_Not v) (nodes, ops) =
     and_then (walk_enter lim depth nodes) (\<lambda>nodes.
     and_then (walk lim (depth + 1) v (nodes, saturating_add ops 1)) (walk_leave lim))"
| "walk lim depth (E_Equal l r) (nodes, ops) =
     and_then (walk_enter lim depth nodes) (\<lambda>nodes.
     and_then (walk lim (depth + 1) l (nodes, saturating_add ops 1)) (\<lambda>s.
     and_then (walk lim (depth + 1) r s) (walk_leave lim)))"
| "walk lim depth (E_NotEqual l r) (nodes, ops) =
     and_then (walk_enter lim depth nodes) (\<lambda>nodes.
     and_then (walk lim (depth + 1) l (nodes, saturating_add ops 1)) (\<lambda>s.
     and_then (walk lim (depth + 1) r s) (walk_leave lim)))"
| "walk lim depth (E_And l r) (nodes, ops) =
     and_then (walk_enter lim depth nodes) (\<lambda>nodes.
     and_then (walk lim (depth + 1) l (nodes, saturating_add ops 1)) (\<lambda>s.
     and_then (walk lim (depth + 1) r s) (walk_leave lim)))"
| "walk lim depth (E_Or l r) (nodes, ops) =
     and_then (walk_enter lim depth nodes) (\<lambda>nodes.
     and_then (walk lim (depth + 1) l (nodes, saturating_add ops 1)) (\<lambda>s.
     and_then (walk lim (depth + 1) r s) (walk_leave lim)))"
| "walk lim depth (E_Add l r) (nodes, ops) =
     and_then (walk_enter lim depth nodes) (\<lambda>nodes.
     and_then (walk lim (depth + 1) l (nodes, saturating_add ops 1)) (\<lambda>s.
     and_then (walk lim (depth + 1) r s) (walk_leave lim)))"

definition validate_expression ::
  "expression \<Rightarrow> expression_limits \<Rightarrow> (unit, expression_error) result" where
  "validate_expression e lim = and_then (walk lim 0 e (0, 0)) (\<lambda>_. Ok ())"

section \<open>Evaluation\<close>

definition type_mismatch :: "string \<Rightarrow> string \<Rightarrow> string \<Rightarrow> expression_error" where
  "type_mismatch operator expected actual =
     expression_error TypeMismatch 0
       (operator @ '' expected '' @ expected @ '', found '' @ actual)"

text \<open>\<open>Evaluator::operation\<close>: count one operation.\<close>

definition evaluator_operation :: "expression_limits \<Rightarrow> nat \<Rightarrow> (nat, expression_error) result" where
  "evaluator_operation lim ops =
     (if saturating_add ops 1 > max_operations lim then Err (operation_limit_error lim 0)
      else Ok (saturating_add ops 1))"

definition evaluate_parameter ::
  "evaluated_value btree_map \<Rightarrow> expression_limits \<Rightarrow> string
     \<Rightarrow> (evaluated_value, expression_error) result" where
  "evaluate_parameter params lim name =
     (case btree_get params name of
        None \<Rightarrow> Err (expression_error MissingParameter 0
          (''parameter '' @ debug_str name @ '' is not defined''))
      | Some v \<Rightarrow>
          (case ev_value v of
             PV_String s \<Rightarrow> if length s > max_string_bytes lim
                            then Err (string_limit_error lim 0) else Ok v
           | _ \<Rightarrow> Ok v))"

definition apply_not :: "evaluated_value \<Rightarrow> (evaluated_value, expression_error) result" where
  "apply_not v =
     (case ev_value v of
        PV_Bool b \<Rightarrow> Ok \<lparr>ev_value = PV_Bool (\<not> b), ev_secret = ev_secret v\<rparr>
      | other \<Rightarrow> Err (type_mismatch ''!'' ''boolean'' (type_name other)))"

definition apply_equality ::
  "bool \<Rightarrow> evaluated_value \<Rightarrow> evaluated_value \<Rightarrow> (evaluated_value, expression_error) result" where
  "apply_equality is_equal l r =
     (if type_name (ev_value l) \<noteq> type_name (ev_value r)
      then Err (type_mismatch ''equality'' (type_name (ev_value l)) (type_name (ev_value r)))
      else let equal = (ev_value l = ev_value r) in
        Ok \<lparr>ev_value = PV_Bool (if is_equal then equal else \<not> equal),
            ev_secret = (ev_secret l \<or> ev_secret r)\<rparr>)"

definition apply_boolean ::
  "bool \<Rightarrow> evaluated_value \<Rightarrow> evaluated_value \<Rightarrow> (evaluated_value, expression_error) result" where
  "apply_boolean is_and l r =
     (case (ev_value l, ev_value r) of
        (PV_Bool a, PV_Bool b) \<Rightarrow>
          Ok \<lparr>ev_value = PV_Bool (if is_and then a \<and> b else a \<or> b),
              ev_secret = (ev_secret l \<or> ev_secret r)\<rparr>
      | (a, b) \<Rightarrow>
          Err (type_mismatch ''boolean operator'' ''boolean''
            (case a of PV_Bool _ \<Rightarrow> type_name b | _ \<Rightarrow> type_name a)))"

definition apply_add ::
  "expression_limits \<Rightarrow> evaluated_value \<Rightarrow> evaluated_value \<Rightarrow> (evaluated_value, expression_error) result"
  where
  "apply_add lim l r =
     and_then (case (ev_value l, ev_value r) of
         (PV_Integer a, PV_Integer b) \<Rightarrow>
           (case checked_add_i64 a b of
              None \<Rightarrow> Err (expression_error IntegerOverflow 0
                ''integer addition overflowed signed 64-bit range'')
            | Some c \<Rightarrow> Ok (PV_Integer c))
       | (PV_String a, PV_String b) \<Rightarrow>
           (if length a + length b > usize_max
            then Err (expression_error StringLimit 0 ''expression string length overflow'')
            else if length a + length b > max_string_bytes lim
            then Err (string_limit_error lim 0)
            else Ok (PV_String (a @ b)))
       | (a, b) \<Rightarrow> Err (type_mismatch ''+'' (type_name a) (type_name b)))
     (\<lambda>v. Ok \<lparr>ev_value = v, ev_secret = (ev_secret l \<or> ev_secret r)\<rparr>)"

text \<open>
  \<open>Evaluator::evaluate\<close>, the operation counter threaded. Both operands are always evaluated, the
  left one first.
\<close>

definition evaluate_binary ::
  "expression_limits \<Rightarrow> (nat \<Rightarrow> (evaluated_value \<times> nat, expression_error) result)
     \<Rightarrow> (nat \<Rightarrow> (evaluated_value \<times> nat, expression_error) result)
     \<Rightarrow> (evaluated_value \<Rightarrow> evaluated_value \<Rightarrow> (evaluated_value, expression_error) result)
     \<Rightarrow> nat \<Rightarrow> (evaluated_value \<times> nat, expression_error) result" where
  "evaluate_binary lim left right apply ops =
     and_then (evaluator_operation lim ops) (\<lambda>ops.
     and_then (left ops) (\<lambda>(l, ops).
     and_then (right ops) (\<lambda>(r, ops).
     and_then (apply l r) (\<lambda>v. Ok (v, ops)))))"

primrec evaluate ::
  "evaluated_value btree_map \<Rightarrow> expression_limits \<Rightarrow> expression \<Rightarrow> nat \<Rightarrow> nat
     \<Rightarrow> (evaluated_value \<times> nat, expression_error) result" where
  "evaluate params lim (E_Literal v) depth ops =
     (if depth > max_depth lim then Err (depth_limit_error lim 0)
      else Ok (\<lparr>ev_value = v, ev_secret = False\<rparr>, ops))"
| "evaluate params lim (E_Parameter name) depth ops =
     (if depth > max_depth lim then Err (depth_limit_error lim 0)
      else and_then (evaluate_parameter params lim name) (\<lambda>v. Ok (v, ops)))"
| "evaluate params lim (E_Not e) depth ops =
     (if depth > max_depth lim then Err (depth_limit_error lim 0)
      else and_then (evaluator_operation lim ops) (\<lambda>ops.
           and_then (evaluate params lim e (depth + 1) ops) (\<lambda>(v, ops).
           and_then (apply_not v) (\<lambda>v. Ok (v, ops)))))"
| "evaluate params lim (E_Equal l r) depth ops =
     (if depth > max_depth lim then Err (depth_limit_error lim 0)
      else evaluate_binary lim (evaluate params lim l (depth + 1))
        (evaluate params lim r (depth + 1)) (apply_equality True) ops)"
| "evaluate params lim (E_NotEqual l r) depth ops =
     (if depth > max_depth lim then Err (depth_limit_error lim 0)
      else evaluate_binary lim (evaluate params lim l (depth + 1))
        (evaluate params lim r (depth + 1)) (apply_equality False) ops)"
| "evaluate params lim (E_And l r) depth ops =
     (if depth > max_depth lim then Err (depth_limit_error lim 0)
      else evaluate_binary lim (evaluate params lim l (depth + 1))
        (evaluate params lim r (depth + 1)) (apply_boolean True) ops)"
| "evaluate params lim (E_Or l r) depth ops =
     (if depth > max_depth lim then Err (depth_limit_error lim 0)
      else evaluate_binary lim (evaluate params lim l (depth + 1))
        (evaluate params lim r (depth + 1)) (apply_boolean False) ops)"
| "evaluate params lim (E_Add l r) depth ops =
     (if depth > max_depth lim then Err (depth_limit_error lim 0)
      else evaluate_binary lim (evaluate params lim l (depth + 1))
        (evaluate params lim r (depth + 1)) (apply_add lim) ops)"

definition evaluate_expression ::
  "expression \<Rightarrow> evaluated_value btree_map \<Rightarrow> expression_limits
     \<Rightarrow> (evaluated_value, expression_error) result" where
  "evaluate_expression e params lim =
     and_then (validate_expression e lim) (\<lambda>_.
     and_then (evaluate params lim e 0 0) (\<lambda>(v, _). Ok v))"

section \<open>What validation accepts\<close>

text \<open>The measures of a tree that the limits bound.\<close>

primrec expr_nodes :: "expression \<Rightarrow> nat" where
  "expr_nodes (E_Literal v) = 1"
| "expr_nodes (E_Parameter n) = 1"
| "expr_nodes (E_Not e) = Suc (expr_nodes e)"
| "expr_nodes (E_Equal l r) = Suc (expr_nodes l + expr_nodes r)"
| "expr_nodes (E_NotEqual l r) = Suc (expr_nodes l + expr_nodes r)"
| "expr_nodes (E_And l r) = Suc (expr_nodes l + expr_nodes r)"
| "expr_nodes (E_Or l r) = Suc (expr_nodes l + expr_nodes r)"
| "expr_nodes (E_Add l r) = Suc (expr_nodes l + expr_nodes r)"

primrec expr_ops :: "expression \<Rightarrow> nat" where
  "expr_ops (E_Literal v) = 0"
| "expr_ops (E_Parameter n) = 0"
| "expr_ops (E_Not e) = Suc (expr_ops e)"
| "expr_ops (E_Equal l r) = Suc (expr_ops l + expr_ops r)"
| "expr_ops (E_NotEqual l r) = Suc (expr_ops l + expr_ops r)"
| "expr_ops (E_And l r) = Suc (expr_ops l + expr_ops r)"
| "expr_ops (E_Or l r) = Suc (expr_ops l + expr_ops r)"
| "expr_ops (E_Add l r) = Suc (expr_ops l + expr_ops r)"

primrec expr_height :: "expression \<Rightarrow> nat" where
  "expr_height (E_Literal v) = 0"
| "expr_height (E_Parameter n) = 0"
| "expr_height (E_Not e) = Suc (expr_height e)"
| "expr_height (E_Equal l r) = Suc (max (expr_height l) (expr_height r))"
| "expr_height (E_NotEqual l r) = Suc (max (expr_height l) (expr_height r))"
| "expr_height (E_And l r) = Suc (max (expr_height l) (expr_height r))"
| "expr_height (E_Or l r) = Suc (max (expr_height l) (expr_height r))"
| "expr_height (E_Add l r) = Suc (max (expr_height l) (expr_height r))"

definition is_parameter_name :: "string \<Rightarrow> bool" where
  "is_parameter_name name \<longleftrightarrow> name \<noteq> [] \<and> list_all is_parameter_byte name"

primrec expr_leaves_ok :: "expression_limits \<Rightarrow> expression \<Rightarrow> bool" where
  "expr_leaves_ok lim (E_Literal v) \<longleftrightarrow>
     (case v of PV_String s \<Rightarrow> length s \<le> max_string_bytes lim | _ \<Rightarrow> True)"
| "expr_leaves_ok lim (E_Parameter n) \<longleftrightarrow> is_parameter_name n"
| "expr_leaves_ok lim (E_Not e) \<longleftrightarrow> expr_leaves_ok lim e"
| "expr_leaves_ok lim (E_Equal l r) \<longleftrightarrow> expr_leaves_ok lim l \<and> expr_leaves_ok lim r"
| "expr_leaves_ok lim (E_NotEqual l r) \<longleftrightarrow> expr_leaves_ok lim l \<and> expr_leaves_ok lim r"
| "expr_leaves_ok lim (E_And l r) \<longleftrightarrow> expr_leaves_ok lim l \<and> expr_leaves_ok lim r"
| "expr_leaves_ok lim (E_Or l r) \<longleftrightarrow> expr_leaves_ok lim l \<and> expr_leaves_ok lim r"
| "expr_leaves_ok lim (E_Add l r) \<longleftrightarrow> expr_leaves_ok lim l \<and> expr_leaves_ok lim r"

text \<open>The specification of \<open>validate_expression\<close>.\<close>

definition valid_expr :: "expression_limits \<Rightarrow> expression \<Rightarrow> bool" where
  "valid_expr lim e \<longleftrightarrow>
     expr_height e \<le> max_depth lim \<and> saturating_add 0 (expr_nodes e) \<le> max_nodes lim \<and>
     saturating_add 0 (expr_ops e) \<le> max_operations lim \<and> expr_leaves_ok lim e"

lemma saturating_add_assoc [simp]:
  "saturating_add (saturating_add a b) c = saturating_add a (b + c)"
  by (simp add: saturating_add_def min_def)

lemma saturating_add_mono: "b \<le> c \<Longrightarrow> saturating_add a b \<le> saturating_add a c"
  by (auto simp: saturating_add_def)

lemma saturating_add_le_trans:
  "saturating_add a (b + c) \<le> k \<Longrightarrow> saturating_add a b \<le> k"
  by (meson saturating_add_mono le_add1 le_trans)

lemma validate_parameter_name_eq_Ok [ok_simps]:
  "validate_parameter_name name = Ok u \<longleftrightarrow> is_parameter_name name"
  by (simp add: validate_parameter_name_def is_parameter_name_def)

lemma walk_enter_eq_Ok [ok_simps]:
  "walk_enter lim depth nodes = Ok n \<longleftrightarrow>
     depth \<le> max_depth lim \<and> saturating_add nodes 1 \<le> max_nodes lim \<and> n = saturating_add nodes 1"
  by (auto simp: walk_enter_def)

lemma walk_leave_eq_Ok [ok_simps]:
  "walk_leave lim s = Ok t \<longleftrightarrow> snd s \<le> max_operations lim \<and> t = s"
  by (auto simp: walk_leave_def)

definition walk_spec :: "expression_limits \<Rightarrow> nat \<Rightarrow> expression \<Rightarrow> nat \<times> nat \<Rightarrow> nat \<times> nat \<Rightarrow> bool"
  where
  "walk_spec lim depth e s t \<longleftrightarrow>
     depth + expr_height e \<le> max_depth lim \<and>
     saturating_add (fst s) (expr_nodes e) \<le> max_nodes lim \<and>
     saturating_add (snd s) (expr_ops e) \<le> max_operations lim \<and> expr_leaves_ok lim e \<and>
     t = (saturating_add (fst s) (expr_nodes e), saturating_add (snd s) (expr_ops e))"

lemma sat_le_drop:
  "saturating_add a (Suc (b + c)) \<le> k \<Longrightarrow> saturating_add a (Suc b) \<le> k"
  "saturating_add a (Suc (b + c)) \<le> k \<Longrightarrow> saturating_add a (Suc 0) \<le> k"
  "saturating_add a (Suc b) \<le> k \<Longrightarrow> saturating_add a (Suc 0) \<le> k"
  by (auto simp: saturating_add_def min_def split: if_splits)

lemma saturating_add_0 [simp]: "a \<le> usize_max \<Longrightarrow> saturating_add a 0 = a"
  by (simp add: saturating_add_def)

lemma saturating_add_le_max [simp]: "saturating_add a b \<le> usize_max"
  by (simp add: saturating_add_def)

lemma walk_eq_Ok:
  "p \<le> usize_max \<Longrightarrow> walk lim depth e (n, p) = Ok t \<longleftrightarrow> walk_spec lim depth e (n, p) t"
  by (induction e arbitrary: depth n p t)
    (auto simp: ok_simps walk_spec_def split: parameter_value.splits dest: sat_le_drop)

lemma validate_expression_eq_Ok:
  "validate_expression e lim = Ok u \<longleftrightarrow> valid_expr lim e"
  by (auto simp: validate_expression_def ok_simps walk_eq_Ok walk_spec_def valid_expr_def)


section \<open>The meaning of an expression\<close>

text \<open>
  The reference semantics: no depth, no counters. The evaluator agrees with it on every valid
  tree, errors included, so its own limit checks never fire after validation.
\<close>

primrec sem ::
  "evaluated_value btree_map \<Rightarrow> expression_limits \<Rightarrow> expression
     \<Rightarrow> (evaluated_value, expression_error) result" where
  "sem params lim (E_Literal v) = Ok \<lparr>ev_value = v, ev_secret = False\<rparr>"
| "sem params lim (E_Parameter name) = evaluate_parameter params lim name"
| "sem params lim (E_Not e) = and_then (sem params lim e) apply_not"
| "sem params lim (E_Equal l r) =
     and_then (sem params lim l) (\<lambda>v. and_then (sem params lim r) (apply_equality True v))"
| "sem params lim (E_NotEqual l r) =
     and_then (sem params lim l) (\<lambda>v. and_then (sem params lim r) (apply_equality False v))"
| "sem params lim (E_And l r) =
     and_then (sem params lim l) (\<lambda>v. and_then (sem params lim r) (apply_boolean True v))"
| "sem params lim (E_Or l r) =
     and_then (sem params lim l) (\<lambda>v. and_then (sem params lim r) (apply_boolean False v))"
| "sem params lim (E_Add l r) =
     and_then (sem params lim l) (\<lambda>v. and_then (sem params lim r) (apply_add lim v))"

lemma evaluator_operation_Ok:
  "saturating_add ops (Suc n) \<le> max_operations lim \<Longrightarrow>
    evaluator_operation lim ops = Ok (saturating_add ops 1)"
  using sat_le_drop(3) [of ops n "max_operations lim"] by (simp add: evaluator_operation_def)

definition counted ::
  "('a, 'e) result \<Rightarrow> nat \<Rightarrow> ('a \<times> nat, 'e) result" where
  "counted m n = and_then m (\<lambda>v. Ok (v, n))"

lemma evaluate_binary_counted:
  assumes "\<And>ops. saturating_add ops m \<le> max_operations lim \<Longrightarrow> ops \<le> usize_max \<Longrightarrow>
      left ops = counted vl (saturating_add ops m)"
    and "\<And>ops. saturating_add ops n \<le> max_operations lim \<Longrightarrow> ops \<le> usize_max \<Longrightarrow>
      right ops = counted vr (saturating_add ops n)"
    and "saturating_add ops (Suc (m + n)) \<le> max_operations lim"
  shows "evaluate_binary lim left right f ops =
    counted (and_then vl (\<lambda>v. and_then vr (f v))) (saturating_add ops (Suc (m + n)))"
proof -
  have l: "left (saturating_add ops 1) = counted vl (saturating_add ops (Suc m))"
    using assms(1) [of "saturating_add ops 1"] sat_le_drop(1) [OF assms(3)] by simp
  have r: "right (saturating_add ops (Suc m)) = counted vr (saturating_add ops (Suc (m + n)))"
    using assms(2) [of "saturating_add ops (Suc m)"] assms(3) by simp
  show ?thesis
    using l r
    by (cases vl; cases vr)
      (simp_all add: evaluate_binary_def evaluator_operation_Ok [OF assms(3)] counted_def)
qed

lemma evaluate_eq_sem:
  "depth + expr_height e \<le> max_depth lim \<Longrightarrow>
    saturating_add ops (expr_ops e) \<le> max_operations lim \<Longrightarrow> ops \<le> usize_max \<Longrightarrow>
    evaluate params lim e depth ops = counted (sem params lim e) (saturating_add ops (expr_ops e))"
proof (induction e arbitrary: depth ops)
  case (E_Not e)
  then have "evaluate params lim e (depth + 1) (saturating_add ops 1) =
      counted (sem params lim e) (saturating_add ops (Suc (expr_ops e)))"
    using E_Not.IH [of "depth + 1" "saturating_add ops 1"] by simp
  with E_Not.prems show ?case
    by (cases "sem params lim e")
      (simp_all add: evaluator_operation_Ok [where n = "expr_ops e"] counted_def)
qed (simp_all add: counted_def [of "Ok _"] counted_def [of "evaluate_parameter _ _ _"]
      evaluate_binary_counted)

lemma evaluate_expression_eq_sem:
  "valid_expr lim e \<Longrightarrow> evaluate_expression e params lim = sem params lim e"
proof -
  assume v: "valid_expr lim e"
  then have "validate_expression e lim = Ok ()" by (simp add: validate_expression_eq_Ok)
  moreover have "evaluate params lim e 0 0 = counted (sem params lim e) (saturating_add 0 (expr_ops e))"
    using v by (intro evaluate_eq_sem) (simp_all add: valid_expr_def)
  ultimately show ?thesis
    by (cases "sem params lim e") (simp_all add: evaluate_expression_def counted_def)
qed

lemma evaluate_expression_Ok:
  "evaluate_expression e params lim = Ok v \<longleftrightarrow> valid_expr lim e \<and> sem params lim e = Ok v"
proof (cases "valid_expr lim e")
  case True
  then show ?thesis by (simp add: evaluate_expression_eq_sem)
next
  case False
  then show ?thesis
    by (auto simp: evaluate_expression_def ok_simps validate_expression_eq_Ok)
qed

section \<open>Secret taint\<close>

text \<open>Two parameter contexts an observer without access to secrets cannot tell apart.\<close>

definition public_eq :: "evaluated_value btree_map \<Rightarrow> evaluated_value btree_map \<Rightarrow> bool" where
  "public_eq p q \<longleftrightarrow>
     (\<forall>k v. btree_get p k = Some v \<longrightarrow> \<not> ev_secret v \<longrightarrow> btree_get q k = Some v)"

lemma apply_secret:
  "apply_not v = Ok w \<Longrightarrow> ev_secret w = ev_secret v"
  "apply_equality b v1 v2 = Ok w \<Longrightarrow> ev_secret w = (ev_secret v1 \<or> ev_secret v2)"
  "apply_boolean b v1 v2 = Ok w \<Longrightarrow> ev_secret w = (ev_secret v1 \<or> ev_secret v2)"
  "apply_add lim v1 v2 = Ok w \<Longrightarrow> ev_secret w = (ev_secret v1 \<or> ev_secret v2)"
  by (auto simp: apply_not_def apply_equality_def apply_boolean_def apply_add_def Let_def ok_simps
      split: parameter_value.splits if_splits)

lemma evaluate_parameter_Ok:
  "evaluate_parameter params lim name = Ok v \<longleftrightarrow>
     btree_get params name = Some v \<and>
     (case ev_value v of PV_String s \<Rightarrow> length s \<le> max_string_bytes lim | _ \<Rightarrow> True)"
  by (auto simp: evaluate_parameter_def split: option.splits parameter_value.splits if_splits)

text \<open>One binary operator: its operands are public when its result is.\<close>

lemma public_binary:
  assumes "and_then ml (\<lambda>x. and_then mr (f x)) = Ok v" and "\<not> ev_secret v"
    and "\<And>x y v. f x y = Ok v \<Longrightarrow> ev_secret v = (ev_secret x \<or> ev_secret y)"
    and "\<And>x. ml = Ok x \<Longrightarrow> \<not> ev_secret x \<Longrightarrow> nl = Ok x"
    and "\<And>y. mr = Ok y \<Longrightarrow> \<not> ev_secret y \<Longrightarrow> nr = Ok y"
  shows "and_then nl (\<lambda>x. and_then nr (f x)) = Ok v"
proof -
  from assms(1) obtain x y where xy: "ml = Ok x" "mr = Ok y" "f x y = Ok v"
    by (auto simp: ok_simps)
  with assms(2,3) have "\<not> ev_secret x" "\<not> ev_secret y" by auto
  with xy assms(4,5) show ?thesis by simp
qed

lemma sem_public:
  "public_eq p q \<Longrightarrow> sem p lim e = Ok v \<Longrightarrow> \<not> ev_secret v \<Longrightarrow> sem q lim e = Ok v"
proof (induction e arbitrary: v)
  case (E_Parameter name)
  then show ?case by (auto simp: evaluate_parameter_Ok public_eq_def)
next
  case (E_Not e)
  then obtain x where x: "sem p lim e = Ok x" "apply_not x = Ok v" by (auto simp: ok_simps)
  with E_Not apply_secret(1) show ?case by force
qed (simp_all, (erule (1) public_binary; blast dest: apply_secret)+)

section \<open>Bounds of the result\<close>

definition bounded_value :: "expression_limits \<Rightarrow> parameter_value \<Rightarrow> bool" where
  "bounded_value lim v \<longleftrightarrow>
     (case v of PV_String s \<Rightarrow> length s \<le> max_string_bytes lim | _ \<Rightarrow> True)"

lemma apply_bounded:
  "apply_not v = Ok w \<Longrightarrow> bounded_value lim (ev_value w)"
  "apply_equality b v1 v2 = Ok w \<Longrightarrow> bounded_value lim (ev_value w)"
  "apply_boolean b v1 v2 = Ok w \<Longrightarrow> bounded_value lim (ev_value w)"
  "apply_add lim v1 v2 = Ok w \<Longrightarrow> bounded_value lim (ev_value w)"
  by (auto simp: apply_not_def apply_equality_def apply_boolean_def apply_add_def Let_def ok_simps
      bounded_value_def split: parameter_value.splits if_splits option.splits)

lemma sem_bounded:
  "expr_leaves_ok lim e \<Longrightarrow> sem params lim e = Ok v \<Longrightarrow> bounded_value lim (ev_value v)"
  by (cases e)
    (auto simp: ok_simps evaluate_parameter_Ok bounded_value_def intro: apply_bounded [unfolded bounded_value_def])

section \<open>Properties\<close>

text \<open>
  C11. What validation accepts: \<open>validate_expression\<close> succeeds exactly on the trees whose height is at
  most the depth limit, whose node and operation counts, saturated at the largest \<open>usize\<close>, are at
  most their limits, whose string literals fit and whose parameter names are well formed.
\<close>

theorem validate_expression_accepts:
  "validate_expression e lim = Ok () \<longleftrightarrow>
     expr_height e \<le> max_depth lim \<and> min usize_max (expr_nodes e) \<le> max_nodes lim \<and>
     min usize_max (expr_ops e) \<le> max_operations lim \<and> expr_leaves_ok lim e"
  by (simp add: validate_expression_eq_Ok valid_expr_def saturating_add_def min.commute)

text \<open>
  C12. The evaluator is the reference semantics: on a tree that validation accepts, the evaluator,
  with its depth checks and its running operation count, returns what the counter-free semantics
  \<open>sem\<close> returns, errors included, so its own limits never fire.
\<close>

theorem evaluate_expression_reference:
  assumes "validate_expression e lim = Ok ()"
  shows "evaluate_expression e params lim = sem params lim e"
  using assms by (simp add: evaluate_expression_eq_sem validate_expression_eq_Ok)

theorem evaluate_expression_reference_witness:
  "evaluate_expression (E_Add (E_Literal (PV_Integer 2)) (E_Parameter ''n''))
     [(''n'', \<lparr>ev_value = PV_Integer 3, ev_secret = True\<rparr>)] default_expression_limits =
   Ok \<lparr>ev_value = PV_Integer 5, ev_secret = True\<rparr>"
  by (subst evaluate_expression_reference)
    (simp_all add: validate_expression_eq_Ok valid_expr_def default_expression_limits_def
      saturating_add_def usize_max_def is_parameter_name_def is_parameter_byte_def ascii_defs
      evaluate_parameter_def btree_get_def apply_add_def checked_add_i64_def)

text \<open>
  C8. Secrets do not leak into public results: when an evaluation succeeds with a result that is not
  marked secret, then replacing the secret parameters by any others, or removing them, gives the
  same result.
\<close>

theorem evaluate_expression_noninterference:
  assumes "evaluate_expression e p lim = Ok v" and "\<not> ev_secret v"
    and "\<And>name w. btree_get p name = Some w \<Longrightarrow> \<not> ev_secret w \<Longrightarrow> btree_get q name = Some w"
  shows "evaluate_expression e q lim = Ok v"
proof -
  from assms(3) have "public_eq p q" by (simp add: public_eq_def)
  with sem_public assms(1,2) show ?thesis by (auto simp: evaluate_expression_Ok)
qed

theorem evaluate_expression_noninterference_witness:
  "evaluate_expression (E_Not (E_Parameter ''a'')) [(''a'', \<lparr>ev_value = PV_Bool False, ev_secret = False\<rparr>)]
     default_expression_limits = Ok \<lparr>ev_value = PV_Bool True, ev_secret = False\<rparr>"
proof (rule evaluate_expression_noninterference [where p =
      "[(''a'', \<lparr>ev_value = PV_Bool False, ev_secret = False\<rparr>), (''b'', \<lparr>ev_value = PV_Integer 7, ev_secret = True\<rparr>)]"])
  show "evaluate_expression (E_Not (E_Parameter ''a''))
      [(''a'', \<lparr>ev_value = PV_Bool False, ev_secret = False\<rparr>), (''b'', \<lparr>ev_value = PV_Integer 7, ev_secret = True\<rparr>)]
      default_expression_limits = Ok \<lparr>ev_value = PV_Bool True, ev_secret = False\<rparr>"
    by (simp add: evaluate_expression_Ok valid_expr_def default_expression_limits_def
        saturating_add_def usize_max_def is_parameter_name_def is_parameter_byte_def ascii_defs
        evaluate_parameter_def btree_get_def apply_not_def)
qed (auto simp: btree_get_def split: if_splits)

text \<open>
  C13. Strings stay bounded: a string that an evaluation returns is at most \<open>max_string_bytes\<close> long,
  although concatenation may be nested.
\<close>

theorem evaluate_expression_bounded:
  assumes "evaluate_expression e params lim = Ok v" and "ev_value v = PV_String s"
  shows "length s \<le> max_string_bytes lim"
  using sem_bounded [of lim e params v] assms
  by (simp add: evaluate_expression_Ok valid_expr_def bounded_value_def)

theorem evaluate_expression_bounded_witness:
  "length ''ab'' \<le> max_string_bytes default_expression_limits"
proof (rule evaluate_expression_bounded)
  show "evaluate_expression (E_Add (E_Literal (PV_String ''a'')) (E_Literal (PV_String ''b''))) []
      default_expression_limits = Ok \<lparr>ev_value = PV_String ''ab'', ev_secret = False\<rparr>"
    by (simp add: evaluate_expression_Ok valid_expr_def default_expression_limits_def
        saturating_add_def usize_max_def apply_add_def)
qed simp

end
