(* ===== verification/Expression_Parser.thy ===== *)
theory Expression_Parser
  imports Expression
begin

text \<open>
  The lexer and the recursive-descent parser of \<^verbatim>\<open>crates/pipeline-ir/src/expression.rs\<close>. A lexer
  position is the byte offset together with the rest of the source from there on; the parser's
  token cursor is the list of tokens from the current index on. Reading a token past the end of the
  vector panics in Rust and is \<open>Panicked\<close> here. The parser recurses on fuel; running out is
  \<open>Out_of_fuel\<close>. Neither happens: \<open>parse_expression\<close> gives one unit of fuel per token, which is
  shown to be enough, and the lexer always ends the tokens with \<open>T_End\<close>, which no rule of the
  parser steps over before it fails.
\<close>

section \<open>Tokens\<close>

datatype token_kind =
    T_Bool bool
  | T_Integer i64
  | T_String string
  | T_Parameter string
  | T_Not | T_Equal | T_NotEqual | T_And | T_Or | T_Add | T_LeftParen | T_RightParen | T_End

record token =
  token_kind :: token_kind
  token_offset :: nat

section \<open>The lexer\<close>

definition skip_whitespace :: "nat \<times> string \<Rightarrow> nat \<times> string" where
  "skip_whitespace pos =
     (let (offset, rest) = pos; skipped = takeWhile is_ascii_whitespace rest
      in (offset + length skipped, dropWhile is_ascii_whitespace rest))"

text \<open>\<open>Lexer::integer\<close>.\<close>

definition lex_integer ::
  "nat \<times> string \<Rightarrow> (i64 \<times> nat \<times> string, expression_error) result" where
  "lex_integer pos =
     (let (start, rest) = pos;
          sign = (case rest of c # _ \<Rightarrow> if c = CHR ''-'' then [c] else [] | [] \<Rightarrow> []);
          digits = takeWhile is_ascii_digit (drop (length sign) rest);
          after = dropWhile is_ascii_digit (drop (length sign) rest);
          end_offset = start + length sign + length digits
      in if digits = [] then Err (expression_error Syntax start ''minus must be followed by an integer'')
         else case parse_i64 (sign @ digits) of
           None \<Rightarrow> Err (expression_error IntegerOverflow start
             ''integer literal is outside signed 64-bit range'')
         | Some v \<Rightarrow> Ok (v, end_offset, after))"

text \<open>\<open>Lexer::string\<close>: the escapes, then the loop after the opening quote.\<close>

definition unescape :: "string \<Rightarrow> string option" where
  "unescape c =
     (if c = [CHR 0x22] then Some [CHR 0x22]
      else if c = [CHR 0x5C] then Some [CHR 0x5C]
      else if c = ''n'' then Some [CHR 0x0A]
      else if c = ''r'' then Some [CHR 0x0D]
      else if c = ''t'' then Some [CHR 0x09]
      else None)"

function lex_string_loop ::
  "expression_limits \<Rightarrow> nat \<Rightarrow> string \<Rightarrow> nat \<times> string
     \<Rightarrow> (string \<times> nat \<times> string, expression_error) result" where
  "lex_string_loop lim start val (offset, rest) =
     (case utf8_split rest of
        None \<Rightarrow> Err (expression_error Syntax start ''unterminated string literal'')
      | Some (ch, rest1) \<Rightarrow>
          if ch = [CHR 0x22] then Ok (val, offset + length ch, rest1)
          else if ch = [CHR 0x5C] then
            (case utf8_split rest1 of
               None \<Rightarrow> Err (expression_error Syntax (offset + length ch) ''unterminated string escape'')
             | Some (escaped, rest2) \<Rightarrow>
                 (case unescape escaped of
                    None \<Rightarrow> Err (expression_error Syntax (offset + length ch) ''unsupported string escape'')
                  | Some c \<Rightarrow>
                      if length (val @ c) > max_string_bytes lim then Err (string_limit_error lim start)
                      else lex_string_loop lim start (val @ c)
                        (offset + length ch + length escaped, rest2)))
          else if ch = [CHR 0x0A] \<or> ch = [CHR 0x0D] then
            Err (expression_error Syntax offset ''literal newline is not allowed in expression strings'')
          else if length (val @ ch) > max_string_bytes lim then Err (string_limit_error lim start)
          else lex_string_loop lim start (val @ ch) (offset + length ch, rest1))"
  by pat_completeness auto
termination
  by (relation "measure (\<lambda>(lim, start, val, offset, rest). length rest)")
    (auto dest: utf8_split_shorter, meson less_trans utf8_split_shorter)

declare lex_string_loop.simps [simp del]

definition lex_string ::
  "expression_limits \<Rightarrow> nat \<times> string \<Rightarrow> (string \<times> nat \<times> string, expression_error) result" where
  "lex_string lim pos = (let (start, rest) = pos in lex_string_loop lim start [] (start + 1, drop 1 rest))"

text \<open>\<open>Lexer::identifier\<close>.\<close>

definition is_identifier_byte :: "char \<Rightarrow> bool" where
  "is_identifier_byte c \<longleftrightarrow> is_ascii_alphanumeric c \<or> c = CHR ''_'' \<or> c = CHR ''-'' \<or> c = CHR ''.''"

definition lex_identifier ::
  "nat \<times> string \<Rightarrow> (token_kind \<times> nat \<times> string, expression_error) result" where
  "lex_identifier pos =
     (let (start, rest) = pos;
          identifier = takeWhile is_identifier_byte rest;
          after = (start + length identifier, dropWhile is_identifier_byte rest)
      in if identifier = ''true'' then Ok (T_Bool True, after)
         else if identifier = ''false'' then Ok (T_Bool False, after)
         else case strip_prefix ''parameters.'' identifier of
             None \<Rightarrow> Err (expression_error UnknownContext start
               ''only the parameters.<name> context is available'')
           | Some name \<Rightarrow>
               and_then (map_err (\<lambda>e. e\<lparr>error_offset := start\<rparr>) (validate_parameter_name name))
                 (\<lambda>_. Ok (T_Parameter name, after)))"

text \<open>The \<open>match\<close> on the current byte in \<open>Lexer::tokenize\<close>.\<close>

definition next_token ::
  "expression_limits \<Rightarrow> nat \<times> string \<Rightarrow> (token_kind \<times> nat \<times> string, expression_error) result" where
  "next_token lim pos =
     (let (offset, rest) = pos; b = hd rest
      in if b = CHR ''('' then Ok (T_LeftParen, offset + 1, drop 1 rest)
         else if b = CHR '')'' then Ok (T_RightParen, offset + 1, drop 1 rest)
         else if b = CHR ''+'' then Ok (T_Add, offset + 1, drop 1 rest)
         else if b = CHR ''!'' \<and> starts_with ''!='' rest then Ok (T_NotEqual, offset + 2, drop 2 rest)
         else if b = CHR ''!'' then Ok (T_Not, offset + 1, drop 1 rest)
         else if b = CHR ''='' \<and> starts_with ''=='' rest then Ok (T_Equal, offset + 2, drop 2 rest)
         else if b = CHR ''&'' \<and> starts_with ''&&'' rest then Ok (T_And, offset + 2, drop 2 rest)
         else if b = CHR ''|'' \<and> starts_with ''||'' rest then Ok (T_Or, offset + 2, drop 2 rest)
         else if b = CHR 0x22 then
           and_then (lex_string lim pos) (\<lambda>(v, after). Ok (T_String v, after))
         else if b = CHR ''-'' \<or> is_ascii_digit b then
           and_then (lex_integer pos) (\<lambda>(v, after). Ok (T_Integer v, after))
         else if is_ascii_lowercase b \<or> is_ascii_uppercase b \<or> b = CHR ''_'' then lex_identifier pos
         else Err (expression_error Syntax offset ''unexpected expression token''))"

lemma length_dropWhile_less: "P c \<Longrightarrow> length (dropWhile P (c # s)) < length (c # s)"
  using length_dropWhile_le [of P s] by (simp add: le_imp_less_Suc)

lemma lex_string_loop_shorter:
  "lex_string_loop lim start val (offset, rest) = Ok (v, o', r') \<Longrightarrow> length r' < length rest"
proof (induction lim start val "(offset, rest)" arbitrary: offset rest rule: lex_string_loop.induct)
  case (1 lim start val offset rest)
  from "1.prems" obtain ch rest1 where s1: "utf8_split rest = Some (ch, rest1)"
    by (auto simp: lex_string_loop.simps [of lim start val offset rest] split: option.splits)
  note shorter = utf8_split_shorter [OF s1]
  consider "ch = [CHR 0x22]" | "ch = [CHR 0x5C]" | "ch \<noteq> [CHR 0x22]" "ch \<noteq> [CHR 0x5C]" by blast
  then show ?case
  proof cases
    case 1
    with "1.prems" s1 shorter show ?thesis
      by (auto simp: lex_string_loop.simps [of lim start val offset rest])
  next
    case 2
    with "1.prems" s1 obtain escaped rest2 c where s2: "utf8_split rest1 = Some (escaped, rest2)"
      and c: "unescape escaped = Some c" "\<not> length (val @ c) > max_string_bytes lim"
      and loop: "lex_string_loop lim start (val @ c) (offset + length ch + length escaped, rest2) = Ok (v, o', r')"
      by (auto simp: lex_string_loop.simps [of lim start val offset rest]
          split: option.splits if_splits)
    from 2 c have "length r' < length rest2"
      by (intro "1.hyps"(1) [OF s1 refl _ 2 s2 refl c(1) c(2) loop]) simp_all
    with utf8_split_shorter [OF s2] shorter show ?thesis by linarith
  next
    case 3
    with "1.prems" s1 have c: "\<not> (ch = [CHR 0x0A] \<or> ch = [CHR 0x0D])"
        "\<not> length (val @ ch) > max_string_bytes lim"
      and loop: "lex_string_loop lim start (val @ ch) (offset + length ch, rest1) = Ok (v, o', r')"
      by (auto simp: lex_string_loop.simps [of lim start val offset rest] split: if_splits)
    from 3 c have "length r' < length rest1"
      by (intro "1.hyps"(2) [OF s1 refl 3 c(1) c(2) loop])
    with shorter show ?thesis by linarith
  qed
qed

lemma next_token_cases:
  assumes "next_token lim (offset, c # rest) = Ok (k, o', r')"
  shows "length r' \<le> length rest
   \<or> (\<exists>v. lex_string lim (offset, c # rest) = Ok (v, o', r'))
   \<or> (\<exists>v. lex_integer (offset, c # rest) = Ok (v, o', r'))
   \<or> (is_identifier_byte c \<and> lex_identifier (offset, c # rest) = Ok (k, o', r'))"
  using assms unfolding next_token_def Let_def prod.case list.sel
  by (simp only: and_then_eq_Ok split: if_split_asm;
      simp add: is_identifier_byte_def is_ascii_alphanumeric_def;
      (blast | (elim conjE, hypsubst, simp)))

lemma next_token_shorter:
  assumes "next_token lim (offset, c # rest) = Ok (k, o', r')"
  shows "length r' < length (c # rest)"
proof -
  have intl: "lex_integer (offset, c # rest) = Ok (v, o'', r'') \<Longrightarrow> length r'' < length (c # rest)" for v o'' r''
  proof -
    assume a: "lex_integer (offset, c # rest) = Ok (v, o'', r'')"
    then obtain t where t: "t = (if c = CHR ''-'' then rest else c # rest)"
      and r: "r'' = dropWhile is_ascii_digit t" and d: "takeWhile is_ascii_digit t \<noteq> []"
      by (auto simp: lex_integer_def Let_def split: option.splits if_splits)
    have "length t = length (takeWhile is_ascii_digit t) + length r''"
      unfolding r by (metis length_append takeWhile_dropWhile_id)
    with d have "length r'' < length t" by (cases "takeWhile is_ascii_digit t") auto
    with t show ?thesis by (auto split: if_splits)
  qed
  have identl: "lex_identifier (offset, c # rest) = Ok (k, o'', r'') \<Longrightarrow>
      is_identifier_byte c \<Longrightarrow> length r'' < length (c # rest)" for k o'' r''
    by (auto simp: lex_identifier_def Let_def ok_simps le_imp_less_Suc length_dropWhile_le
        split: option.splits if_splits)
  have strl: "lex_string lim (offset, c # rest) = Ok (v, o'', r'') \<Longrightarrow> length r'' < length (c # rest)" for v o'' r''
    by (auto simp: lex_string_def dest!: lex_string_loop_shorter)
  from next_token_cases [OF assms] show ?thesis
    using intl identl strl by (elim disjE exE conjE) simp_all
qed

text \<open>\<open>Lexer::tokenize\<close>: the tokens read so far are the loop's state.\<close>

function tokenize_loop ::
  "expression_limits \<Rightarrow> token list \<Rightarrow> nat \<times> string \<Rightarrow> (token list, expression_error) result" where
  "tokenize_loop lim tokens pos =
     (let (offset, rest) = skip_whitespace pos in
      if rest = [] then Ok (tokens @ [\<lparr>token_kind = T_End, token_offset = offset\<rparr>])
      else and_then (next_token lim (offset, rest)) (\<lambda>(kind, after).
        if length tokens + 1 > saturating_add (saturating_mul (max_nodes lim) 3) 1
        then Err (expression_error NodeLimit offset
          ''expression token count exceeds bounded parser capacity'')
        else tokenize_loop lim (tokens @ [\<lparr>token_kind = kind, token_offset = offset\<rparr>]) after))"
  by pat_completeness auto
termination
proof (relation "measure (\<lambda>(lim, tokens, pos). length (snd pos))", goal_cases)
  case 1
  show ?case by simp
next
  case (2 lim tokens pos p offset rest q kind after)
  then have rest: "rest = dropWhile is_ascii_whitespace (snd pos)" "rest \<noteq> []"
    by (auto simp: skip_whitespace_def Let_def split: prod.splits)
  from rest(2) obtain c s where cs: "rest = c # s" by (cases rest) simp_all
  from 2 cs have "next_token lim (offset, c # s) = Ok (kind, fst after, snd after)" by simp
  then have "length (snd after) < length rest"
    unfolding cs by (rule next_token_shorter)
  also have "length rest \<le> length (snd pos)"
    using rest(1) length_dropWhile_le by blast
  finally show ?case using 2 by simp
qed

declare tokenize_loop.simps [simp del]

definition tokenize ::
  "expression_limits \<Rightarrow> string \<Rightarrow> (token list, expression_error) result" where
  "tokenize lim source = tokenize_loop lim [] (0, source)"

section \<open>The parser\<close>

datatype parse_failure = Failed expression_error | Panicked | Out_of_fuel

record parser =
  ps_tokens :: "token list"
  ps_nodes :: nat
  ps_operations :: nat

definition current :: "parser \<Rightarrow> (token, parse_failure) result" where
  "current ps = (case ps_tokens ps of [] \<Rightarrow> Err Panicked | t # _ \<Rightarrow> Ok t)"

definition advance :: "parser \<Rightarrow> (token \<times> parser, parse_failure) result" where
  "advance ps =
     (case ps_tokens ps of [] \<Rightarrow> Err Panicked | t # ts \<Rightarrow> Ok (t, ps\<lparr>ps_tokens := ts\<rparr>))"

text \<open>The error of a limit, at the offset of the current token.\<close>

definition fail_here :: "(nat \<Rightarrow> expression_error) \<Rightarrow> parser \<Rightarrow> ('a, parse_failure) result" where
  "fail_here e ps = and_then (current ps) (\<lambda>t. Err (Failed (e (token_offset t))))"

definition node ::
  "expression_limits \<Rightarrow> nat \<Rightarrow> expression \<Rightarrow> parser \<Rightarrow> (expression \<times> parser, parse_failure) result"
  where
  "node lim depth e ps =
     (if depth > max_depth lim then fail_here (depth_limit_error lim) ps
      else let ps = ps\<lparr>ps_nodes := saturating_add (ps_nodes ps) 1\<rparr> in
        if ps_nodes ps > max_nodes lim then fail_here (node_limit_error lim) ps
        else Ok (e, ps))"

definition operation :: "expression_limits \<Rightarrow> parser \<Rightarrow> (parser, parse_failure) result" where
  "operation lim ps =
     (let ps = ps\<lparr>ps_operations := saturating_add (ps_operations ps) 1\<rparr> in
      if ps_operations ps > max_operations lim then fail_here (operation_limit_error lim) ps
      else Ok ps)"

definition ensure_depth :: "expression_limits \<Rightarrow> nat \<Rightarrow> parser \<Rightarrow> (unit, parse_failure) result" where
  "ensure_depth lim depth ps =
     (if depth > max_depth lim then fail_here (depth_limit_error lim) ps else Ok ())"

text \<open>
  The loop shared by the four binary levels: while the current token is an operator of this level,
  step over it, count the operation, parse the right operand at the level below and build the node.
\<close>

primrec binary_loop ::
  "nat \<Rightarrow> (token_kind \<Rightarrow> (expression \<Rightarrow> expression \<Rightarrow> expression) option)
     \<Rightarrow> (parser \<Rightarrow> (expression \<times> parser, parse_failure) result)
     \<Rightarrow> expression_limits \<Rightarrow> nat \<Rightarrow> expression \<Rightarrow> parser
     \<Rightarrow> (expression \<times> parser, parse_failure) result" where
  "binary_loop 0 operator sub lim depth e ps = Err Out_of_fuel"
| "binary_loop (Suc fuel) operator sub lim depth e ps =
     and_then (current ps) (\<lambda>t.
       case operator (token_kind t) of
         None \<Rightarrow> Ok (e, ps)
       | Some constructor \<Rightarrow>
           and_then (advance ps) (\<lambda>(_, ps).
           and_then (operation lim ps) (\<lambda>ps.
           and_then (sub ps) (\<lambda>(right, ps).
           and_then (node lim depth (constructor e right) ps) (\<lambda>(e, ps).
             binary_loop fuel operator sub lim depth e ps)))))"

definition binary_level ::
  "nat \<Rightarrow> (token_kind \<Rightarrow> (expression \<Rightarrow> expression \<Rightarrow> expression) option)
     \<Rightarrow> (parser \<Rightarrow> (expression \<times> parser, parse_failure) result)
     \<Rightarrow> expression_limits \<Rightarrow> nat \<Rightarrow> parser \<Rightarrow> (expression \<times> parser, parse_failure) result" where
  "binary_level fuel operator sub lim depth ps =
     and_then (sub ps) (\<lambda>(e, ps). binary_loop fuel operator sub lim depth e ps)"

definition add_operator :: "token_kind \<Rightarrow> (expression \<Rightarrow> expression \<Rightarrow> expression) option" where
  "add_operator k = (if k = T_Add then Some E_Add else None)"

definition equality_operator :: "token_kind \<Rightarrow> (expression \<Rightarrow> expression \<Rightarrow> expression) option" where
  "equality_operator k =
     (if k = T_Equal then Some E_Equal else if k = T_NotEqual then Some E_NotEqual else None)"

definition and_operator :: "token_kind \<Rightarrow> (expression \<Rightarrow> expression \<Rightarrow> expression) option" where
  "and_operator k = (if k = T_And then Some E_And else None)"

definition or_operator :: "token_kind \<Rightarrow> (expression \<Rightarrow> expression \<Rightarrow> expression) option" where
  "or_operator k = (if k = T_Or then Some E_Or else None)"

text \<open>
  The levels above \<open>parse_unary\<close>, which they get as an argument: the recursion of the six methods
  passes through it alone.
\<close>

definition parse_add where
  "parse_add fuel unary lim depth = binary_level fuel add_operator (unary depth) lim depth"

definition parse_equality where
  "parse_equality fuel unary lim depth =
     binary_level fuel equality_operator (parse_add fuel unary lim depth) lim depth"

definition parse_and where
  "parse_and fuel unary lim depth =
     binary_level fuel and_operator (parse_equality fuel unary lim depth) lim depth"

definition parse_or where
  "parse_or fuel unary lim depth =
     binary_level fuel or_operator (parse_and fuel unary lim depth) lim depth"

text \<open>The parenthesised operand of \<open>parse_primary\<close>, after the opening parenthesis.\<close>

definition parse_group ::
  "nat \<Rightarrow> (nat \<Rightarrow> parser \<Rightarrow> (expression \<times> parser, parse_failure) result)
     \<Rightarrow> expression_limits \<Rightarrow> nat \<Rightarrow> parser \<Rightarrow> (expression \<times> parser, parse_failure) result" where
  "parse_group fuel unary lim depth ps =
     and_then (parse_or fuel unary lim depth ps) (\<lambda>(v, ps).
     and_then (current ps) (\<lambda>t.
       if token_kind t \<noteq> T_RightParen
       then fail_here (\<lambda>offset. expression_error Syntax offset ''expected closing parenthesis'') ps
       else and_then (advance ps) (\<lambda>(_, ps). Ok (v, ps))))"

definition parse_primary ::
  "nat \<Rightarrow> (nat \<Rightarrow> parser \<Rightarrow> (expression \<times> parser, parse_failure) result)
     \<Rightarrow> expression_limits \<Rightarrow> nat \<Rightarrow> parser \<Rightarrow> (expression \<times> parser, parse_failure) result" where
  "parse_primary fuel unary lim depth ps =
     and_then (ensure_depth lim depth ps) (\<lambda>_.
     and_then (advance ps) (\<lambda>(t, ps).
       case token_kind t of
         T_Bool v \<Rightarrow> node lim depth (E_Literal (PV_Bool v)) ps
       | T_Integer v \<Rightarrow> node lim depth (E_Literal (PV_Integer v)) ps
       | T_String v \<Rightarrow> node lim depth (E_Literal (PV_String v)) ps
       | T_Parameter name \<Rightarrow> node lim depth (E_Parameter name) ps
       | T_LeftParen \<Rightarrow> parse_group fuel unary lim depth ps
       | _ \<Rightarrow> Err (Failed (expression_error Syntax (token_offset t) ''expected expression value''))))"

primrec parse_unary ::
  "nat \<Rightarrow> expression_limits \<Rightarrow> nat \<Rightarrow> parser \<Rightarrow> (expression \<times> parser, parse_failure) result" where
  "parse_unary 0 lim depth ps = Err Out_of_fuel"
| "parse_unary (Suc fuel) lim depth ps =
     and_then (ensure_depth lim depth ps) (\<lambda>_.
     and_then (current ps) (\<lambda>t.
       if token_kind t = T_Not then
         and_then (advance ps) (\<lambda>(_, ps).
         and_then (operation lim ps) (\<lambda>ps.
         and_then (parse_unary fuel lim (depth + 1) ps) (\<lambda>(v, ps).
           node lim depth (E_Not v) ps)))
       else parse_primary fuel (parse_unary fuel lim) lim depth ps))"

text \<open>\<open>Parser::parse\<close> and the entry point.\<close>

definition parse_tokens ::
  "token list \<Rightarrow> expression_limits \<Rightarrow> (expression, parse_failure) result" where
  "parse_tokens tokens lim =
     (let fuel = length tokens + 1 in
      and_then (parse_or fuel (parse_unary fuel lim) lim 0
        \<lparr>ps_tokens = tokens, ps_nodes = 0, ps_operations = 0\<rparr>) (\<lambda>(e, ps).
      and_then (current ps) (\<lambda>t.
        if token_kind t \<noteq> T_End
        then fail_here (\<lambda>offset. expression_error Syntax offset ''unexpected trailing expression token'') ps
        else and_then (map_err Failed (validate_expression e lim)) (\<lambda>_. Ok e))))"

definition parse_expression ::
  "string \<Rightarrow> expression_limits \<Rightarrow> (expression, parse_failure) result" where
  "parse_expression source lim =
     (if length source > max_source_bytes lim
      then Err (Failed (expression_error SourceLimit (max_source_bytes lim)
        (''expression source exceeds '' @ show_nat (max_source_bytes lim) @ '' bytes'')))
      else and_then (map_err Failed (tokenize lim source)) (\<lambda>tokens. parse_tokens tokens lim))"

section \<open>The parser neither panics nor runs out of fuel\<close>

text \<open>The token list of a well-formed parser state ends in \<open>T_End\<close>, the only one.\<close>

definition ended :: "token list \<Rightarrow> bool" where
  "ended ts \<longleftrightarrow> ts \<noteq> [] \<and> token_kind (last ts) = T_End \<and> (\<forall>t\<in>set (butlast ts). token_kind t \<noteq> T_End)"

lemma ended_Cons: "ended (t # ts) \<longleftrightarrow> (if token_kind t = T_End then ts = [] else ended ts)"
  by (cases ts) (auto simp: ended_def)

lemma not_ended_Nil [simp]: "\<not> ended []"
  by (simp add: ended_def)

text \<open>
  What every level of the grammar promises on states with at most \<open>n\<close> tokens: it fails with a
  proper error, or it consumes at least one token and stays on well-formed states.
\<close>

definition consumes :: "nat \<Rightarrow> (expression \<times> parser, parse_failure) result \<Rightarrow> bool" where
  "consumes m r \<longleftrightarrow>
     (case r of
        Ok (e, ps) \<Rightarrow> ended (ps_tokens ps) \<and> length (ps_tokens ps) < m
      | Err f \<Rightarrow> (\<exists>e. f = Failed e))"

definition progresses :: "nat \<Rightarrow> (parser \<Rightarrow> (expression \<times> parser, parse_failure) result) \<Rightarrow> bool" where
  "progresses n p \<longleftrightarrow>
     (\<forall>ps. ended (ps_tokens ps) \<longrightarrow> length (ps_tokens ps) \<le> n \<longrightarrow> consumes (length (ps_tokens ps)) (p ps))"

lemma consumes_simps [simp]:
  "consumes m (Ok (e, ps)) \<longleftrightarrow> ended (ps_tokens ps) \<and> length (ps_tokens ps) < m"
  "consumes m (Err f) \<longleftrightarrow> (\<exists>e. f = Failed e)"
  by (simp_all add: consumes_def)

lemma consumes_mono: "consumes m r \<Longrightarrow> m \<le> n \<Longrightarrow> consumes n r"
  by (auto simp: consumes_def split: result.splits)

lemma progressesD:
  "progresses n p \<Longrightarrow> ended (ps_tokens ps) \<Longrightarrow> length (ps_tokens ps) \<le> n \<Longrightarrow> consumes (length (ps_tokens ps)) (p ps)"
  by (simp add: progresses_def)

text \<open>Sequencing: what a parser is followed by sees a smaller well-formed state.\<close>

lemma consumes_and_then:
  assumes "consumes m r"
    and "\<And>e ps. r = Ok (e, ps) \<Longrightarrow> ended (ps_tokens ps) \<Longrightarrow> length (ps_tokens ps) < m \<Longrightarrow> consumes n (f (e, ps))"
  shows "consumes n (and_then r f)"
  using assms by (cases r) auto

lemma current_ended: "ended (ps_tokens ps) \<Longrightarrow> \<exists>t ts. ps_tokens ps = t # ts \<and> current ps = Ok t"
  by (cases "ps_tokens ps") (auto simp: current_def)

lemma advance_ended:
  assumes "ended (ps_tokens ps)"
  shows "\<exists>t ts. ps_tokens ps = t # ts \<and> current ps = Ok t \<and> advance ps = Ok (t, ps\<lparr>ps_tokens := ts\<rparr>) \<and>
     (token_kind t \<noteq> T_End \<longrightarrow> ended ts)"
  using assms by (cases "ps_tokens ps") (auto simp: advance_def current_def ended_Cons split: if_splits)

lemma fail_here_consumes [simp]: "ended (ps_tokens ps) \<Longrightarrow> consumes m (fail_here e ps)"
  using current_ended [of ps] by (auto simp: fail_here_def)

lemma node_consumes:
  "ended (ps_tokens ps) \<Longrightarrow> length (ps_tokens ps) < m \<Longrightarrow> consumes m (node lim depth e ps)"
  by (simp add: node_def Let_def)

lemma operation_cases:
  assumes "ended (ps_tokens ps)"
  obtains (failed) e where "operation lim ps = Err (Failed e)"
  | (counted) ps' where "operation lim ps = Ok ps'" and "ps_tokens ps' = ps_tokens ps"
proof (cases "max_operations lim < saturating_add (ps_operations ps) 1")
  case True
  from current_ended [OF assms] obtain t where "current ps = Ok t" by blast
  with True show ?thesis
    by (intro failed [of "operation_limit_error lim (token_offset t)"])
      (simp add: operation_def fail_here_def current_def)
next
  case False
  then show ?thesis
    by (intro counted [of "ps\<lparr>ps_operations := saturating_add (ps_operations ps) 1\<rparr>"])
      (simp_all add: operation_def)
qed

lemma ensure_depth_cases:
  assumes "ended (ps_tokens ps)"
  obtains (failed) e where "ensure_depth lim depth ps = Err (Failed e)"
  | (passed) "ensure_depth lim depth ps = Ok ()"
proof (cases "max_depth lim < depth")
  case True
  from current_ended [OF assms] obtain t where "current ps = Ok t" by blast
  with True show ?thesis
    by (intro failed [of "depth_limit_error lim (token_offset t)"]) (simp add: ensure_depth_def fail_here_def)
next
  case False
  then show ?thesis by (intro passed) (simp add: ensure_depth_def)
qed

lemma binary_loop_consumes:
  assumes sub: "progresses n sub" and op: "operator T_End = None"
  shows "ended (ps_tokens ps) \<Longrightarrow> length (ps_tokens ps) \<le> n \<Longrightarrow> length (ps_tokens ps) \<le> fuel \<Longrightarrow>
    consumes (Suc (length (ps_tokens ps))) (binary_loop fuel operator sub lim depth e ps)"
proof (induction fuel arbitrary: e ps)
  case 0
  then show ?case by simp
next
  case (Suc fuel)
  from advance_ended [OF Suc.prems(1)] obtain t ts where ts: "ps_tokens ps = t # ts" "current ps = Ok t"
    "advance ps = Ok (t, ps\<lparr>ps_tokens := ts\<rparr>)" "token_kind t \<noteq> T_End \<Longrightarrow> ended ts"
    by blast
  show ?case
  proof (cases "operator (token_kind t)")
    case None
    with ts Suc.prems show ?thesis by simp
  next
    case (Some c)
    with op have "token_kind t \<noteq> T_End" by fastforce
    with ts(4) have "ended (ps_tokens (ps\<lparr>ps_tokens := ts\<rparr>))" by simp
    then show ?thesis
    proof (cases rule: operation_cases [where lim = lim])
      case (counted ps1)
      then have p1: "ended (ps_tokens ps1)" "length (ps_tokens ps1) < length (ps_tokens ps)"
        using ts \<open>token_kind t \<noteq> T_End\<close> by simp_all
      have "consumes (Suc (length (ps_tokens ps)))
        (and_then (sub ps1) (\<lambda>(right, ps). and_then (node lim depth (c e right) ps)
          (\<lambda>(e, ps). binary_loop fuel operator sub lim depth e ps)))"
      proof (intro consumes_and_then [OF progressesD [OF sub p1(1)]], goal_cases)
        case 1
        with p1 Suc.prems show ?case by simp
      next
        case (2 r ps2)
        show ?case unfolding prod.case
        proof (intro consumes_and_then [OF node_consumes [OF 2(2,3)]], goal_cases)
          case (1 e3 ps3)
          with Suc.IH [of ps3 e3] p1 Suc.prems show ?case by (auto elim: consumes_mono)
        qed
      qed
      with ts Some counted show ?thesis by simp
    qed (use ts Some in simp)
  qed
qed

lemma binary_level_progresses:
  assumes sub: "progresses fuel sub" and op: "operator T_End = None"
  shows "progresses fuel (binary_level fuel operator sub lim depth)"
  unfolding progresses_def binary_level_def
proof (intro allI impI consumes_and_then [OF progressesD [OF sub]], goal_cases)
  case (3 ps e ps1)
  with binary_loop_consumes [where n = fuel and operator = operator, OF sub op, of ps1 fuel lim depth e]
  show ?case by (auto elim: consumes_mono)
qed

lemma parse_or_progresses:
  "progresses fuel (unary depth) \<Longrightarrow> progresses fuel (parse_or fuel unary lim depth)"
  unfolding parse_or_def parse_and_def parse_equality_def parse_add_def
  by (intro binary_level_progresses)
    (simp_all add: or_operator_def and_operator_def equality_operator_def add_operator_def)

lemma parse_group_consumes:
  assumes "progresses fuel (unary depth)" and "ended (ps_tokens ps)" and "length (ps_tokens ps) \<le> fuel"
  shows "consumes (length (ps_tokens ps)) (parse_group fuel unary lim depth ps)"
  unfolding parse_group_def
proof (rule consumes_and_then [OF progressesD [OF parse_or_progresses [of fuel unary depth lim, OF assms(1)] assms(2,3)]])
  fix e and ps1 :: parser
  assume p1: "ended (ps_tokens ps1)" "length (ps_tokens ps1) < length (ps_tokens ps)"
  from advance_ended [OF p1(1)] show "consumes (length (ps_tokens ps)) (case (e, ps1) of (v, ps) \<Rightarrow>
     and_then (current ps) (\<lambda>t.
       if token_kind t \<noteq> T_RightParen
       then fail_here (\<lambda>offset. expression_error Syntax offset ''expected closing parenthesis'') ps
       else and_then (advance ps) (\<lambda>(_, ps). Ok (v, ps))))"
    using p1 by auto
qed

lemma parse_primary_consumes:
  assumes "progresses fuel (unary depth)" and ps: "ended (ps_tokens ps)" "length (ps_tokens ps) \<le> Suc fuel"
  shows "consumes (length (ps_tokens ps)) (parse_primary fuel unary lim depth ps)"
proof -
  from advance_ended [OF ps(1)] obtain t ts where ts: "ps_tokens ps = t # ts"
    "advance ps = Ok (t, ps\<lparr>ps_tokens := ts\<rparr>)" "token_kind t \<noteq> T_End \<Longrightarrow> ended ts"
    by blast
  define ps1 where "ps1 = ps\<lparr>ps_tokens := ts\<rparr>"
  then have p1: "ps_tokens ps1 = ts" by simp
  have leaf: "token_kind t \<noteq> T_End \<Longrightarrow> consumes (length (ps_tokens ps)) (node lim depth v ps1)" for v
    using ts p1 by (intro node_consumes) simp_all
  have group: "token_kind t \<noteq> T_End \<Longrightarrow> consumes (length (ps_tokens ps)) (parse_group fuel unary lim depth ps1)"
    using ts p1 ps
    by (intro consumes_mono [OF parse_group_consumes [of fuel unary depth ps1, OF assms(1)]]) simp_all
  from ps(1) show ?thesis
  proof (cases rule: ensure_depth_cases [where lim = lim and depth = depth])
    case passed
    then show ?thesis unfolding parse_primary_def using leaf group
      by (cases "token_kind t") (simp_all add: ts(2) flip: ps1_def)
  qed (simp add: parse_primary_def)
qed

lemma parse_unary_progresses: "progresses fuel (parse_unary fuel lim depth)"
proof (induction fuel arbitrary: depth)
  case 0
  show ?case by (auto simp: progresses_def)
next
  case (Suc fuel)
  show ?case unfolding progresses_def
  proof (intro allI impI)
    fix ps :: parser assume ps: "ended (ps_tokens ps)" "length (ps_tokens ps) \<le> Suc fuel"
    from advance_ended [OF ps(1)] obtain t ts where ts: "ps_tokens ps = t # ts" "current ps = Ok t"
      "advance ps = Ok (t, ps\<lparr>ps_tokens := ts\<rparr>)" "token_kind t \<noteq> T_End \<Longrightarrow> ended ts"
      by blast
    have primary: "consumes (length (ps_tokens ps)) (parse_primary fuel (parse_unary fuel lim) lim depth ps)"
      by (rule parse_primary_consumes [where unary = "parse_unary fuel lim", OF Suc.IH ps])
    have negated: "consumes (length (ps_tokens ps)) (and_then (operation lim (ps\<lparr>ps_tokens := ts\<rparr>)) (\<lambda>ps.
         and_then (parse_unary fuel lim (depth + 1) ps) (\<lambda>(v, ps). node lim depth (E_Not v) ps)))"
      if "token_kind t = T_Not"
    proof -
      from that ts have "ended (ps_tokens (ps\<lparr>ps_tokens := ts\<rparr>))" by simp
      then show ?thesis
      proof (cases rule: operation_cases [where lim = lim])
        case (counted ps1)
        have "consumes (length (ps_tokens ps1)) (parse_unary fuel lim (depth + 1) ps1)"
          using counted ts that ps by (intro progressesD [OF Suc.IH]) simp_all
        from consumes_and_then [OF this, of "length (ps_tokens ps)" "\<lambda>(v, ps). node lim depth (E_Not v) ps"]
        show ?thesis using counted ts by (simp add: node_consumes)
      qed simp
    qed
    from ps(1) show "consumes (length (ps_tokens ps)) (parse_unary (Suc fuel) lim depth ps)"
    proof (cases rule: ensure_depth_cases [where lim = lim and depth = depth])
      case passed
      with primary negated show ?thesis
        by (simp only: parse_unary.simps and_then_simps ts(2,3) prod.case split: if_split) simp
    qed simp
  qed
qed

lemma lex_identifier_not_End: "lex_identifier pos = Ok (k, after) \<Longrightarrow> k \<noteq> T_End"
  by (auto simp: lex_identifier_def Let_def ok_simps split: option.splits if_splits prod.splits)

lemma next_token_not_End: "next_token lim pos = Ok (k, after) \<Longrightarrow> k \<noteq> T_End"
  unfolding next_token_def Let_def
  by (simp only: and_then_eq_Ok lex_identifier_not_End result.distinct result.inject prod.inject
      split: if_split_asm prod.splits; clarify?; simp)

lemma tokenize_loop_ended:
  "(\<forall>t\<in>set tokens. token_kind t \<noteq> T_End) \<Longrightarrow> tokenize_loop lim tokens pos = Ok ts \<Longrightarrow> ended ts"
proof (induction lim tokens pos rule: tokenize_loop.induct)
  case (1 lim tokens pos)
  obtain offset rest where sk: "skip_whitespace pos = (offset, rest)" by force
  show ?case
  proof (cases "rest = []")
    case True
    with 1 sk show ?thesis by (auto simp: tokenize_loop.simps [of lim tokens pos] ended_def)
  next
    case False
    with "1.prems" sk obtain k after where nt: "next_token lim (offset, rest) = Ok (k, after)"
      and c: "\<not> saturating_add (saturating_mul (max_nodes lim) 3) 1 < length tokens + 1"
      and loop: "tokenize_loop lim (tokens @ [\<lparr>token_kind = k, token_offset = offset\<rparr>]) after = Ok ts"
      by (auto simp: tokenize_loop.simps [of lim tokens pos] and_then_eq_Ok split: if_splits)
    show ?thesis
      by (rule "1.IH" [OF sk [symmetric] refl False nt refl c])
        (use loop next_token_not_End [OF nt] "1.prems"(1) in auto)
  qed
qed

lemma parse_expression_failure:
  assumes "parse_expression source lim = Err f"
  shows "\<exists>e. f = Failed e"
proof (cases "length source > max_source_bytes lim \<or> (\<exists>e. tokenize lim source = Err e)")
  case True
  with assms show ?thesis by (auto simp: parse_expression_def split: if_splits)
next
  case False
  then obtain ts where ts: "tokenize lim source = Ok ts" by (cases "tokenize lim source") auto
  then have ended: "ended ts"
    by (intro tokenize_loop_ended [of "[]" lim "(0, source)"]) (simp_all add: tokenize_def)
  let ?ps = "\<lparr>ps_tokens = ts, ps_nodes = 0, ps_operations = 0\<rparr>"
  let ?fuel = "length ts + 1"
  have parsed: "consumes (length ts) (parse_or ?fuel (parse_unary ?fuel lim) lim 0 ?ps)"
    using progressesD [OF parse_or_progresses [where unary = "parse_unary ?fuel lim" and lim = lim,
        OF parse_unary_progresses [of ?fuel lim 0]], of ?ps] ended by simp
  show ?thesis
  proof (cases "parse_or ?fuel (parse_unary ?fuel lim) lim 0 ?ps")
    case (Err e)
    with parsed False ts assms show ?thesis by (simp add: parse_expression_def parse_tokens_def)
  next
    case (Ok x)
    obtain v ps where x: "x = (v, ps)" by force
    with parsed Ok have "ended (ps_tokens ps)" by simp
    from current_ended [OF this] show ?thesis using assms False ts Ok x
      by (cases "validate_expression v lim")
        (auto simp: parse_expression_def parse_tokens_def fail_here_def split: if_splits)
  qed
qed

section \<open>Properties\<close>

text \<open>
  C9. The parser is total and sound for its limits: on every source text it either returns a tree
  that \<open>validate_expression\<close> accepts or reports a proper error. It never indexes past its tokens,
  and the fuel of the model, one more than the number of tokens, is never used up.
\<close>

theorem parse_expression_total:
  "(\<exists>e. parse_expression source lim = Ok e \<and> validate_expression e lim = Ok ()) \<or>
   (\<exists>err. parse_expression source lim = Err (Failed err))"
proof (cases "parse_expression source lim")
  case (Ok e)
  then show ?thesis
    by (auto simp: parse_expression_def parse_tokens_def Let_def ok_simps fail_here_def split: if_splits)
next
  case (Err f)
  with parse_expression_failure [OF Err] show ?thesis by simp
qed

end
