(* ===== verification/Expression_Roundtrip.thy ===== *)
theory Expression_Roundtrip
  imports Expression_Parser
begin

text \<open>
  A canonical printer for expression trees and the proof that the lexer and the parser of
  \<open>Expression_Parser\<close> invert it: every valid tree is the parse of its printed form. The printer is
  specification only; it puts every binary node in parentheses, so the precedence levels are
  passed through at each operator.
\<close>

section \<open>Tokens of a tree, and the parser on them\<close>

primrec expr_tokens :: "expression \<Rightarrow> token_kind list" where
  "expr_tokens (E_Literal v) =
     [case v of PV_Bool b \<Rightarrow> T_Bool b | PV_Integer i \<Rightarrow> T_Integer i | PV_String s \<Rightarrow> T_String s]"
| "expr_tokens (E_Parameter n) = [T_Parameter n]"
| "expr_tokens (E_Not e) = T_Not # expr_tokens e"
| "expr_tokens (E_Equal l r) = T_LeftParen # expr_tokens l @ T_Equal # expr_tokens r @ [T_RightParen]"
| "expr_tokens (E_NotEqual l r) = T_LeftParen # expr_tokens l @ T_NotEqual # expr_tokens r @ [T_RightParen]"
| "expr_tokens (E_And l r) = T_LeftParen # expr_tokens l @ T_And # expr_tokens r @ [T_RightParen]"
| "expr_tokens (E_Or l r) = T_LeftParen # expr_tokens l @ T_Or # expr_tokens r @ [T_RightParen]"
| "expr_tokens (E_Add l r) = T_LeftParen # expr_tokens l @ T_Add # expr_tokens r @ [T_RightParen]"

lemma length_expr_tokens: "length (expr_tokens e) \<le> 3 * expr_nodes e"
  by (induction e) simp_all

text \<open>
  \<open>parses lim p ks e stop\<close>: on every state whose tokens are of the kinds \<open>ks\<close>, followed by a token
  whose kind satisfies \<open>stop\<close>, \<open>p\<close> returns \<open>e\<close>, leaves the rest, and adds the nodes and
  operations of \<open>e\<close> to its counters.
\<close>

definition state :: "token list \<Rightarrow> nat \<Rightarrow> nat \<Rightarrow> parser" where
  "state ts n k = \<lparr>ps_tokens = ts, ps_nodes = n, ps_operations = k\<rparr>"

definition room :: "expression_limits \<Rightarrow> expression \<Rightarrow> nat \<Rightarrow> nat \<Rightarrow> bool" where
  "room lim e n k \<longleftrightarrow>
     saturating_add n (expr_nodes e) \<le> max_nodes lim \<and> saturating_add k (expr_ops e) \<le> max_operations lim
     \<and> k \<le> usize_max"

definition parses ::
  "expression_limits \<Rightarrow> (parser \<Rightarrow> (expression \<times> parser, parse_failure) result) \<Rightarrow> token_kind list
     \<Rightarrow> expression \<Rightarrow> (token_kind \<Rightarrow> bool) \<Rightarrow> bool" where
  "parses lim p ks e stop \<longleftrightarrow>
     (\<forall>ts t rest n k. map token_kind ts = ks \<longrightarrow> stop (token_kind t) \<longrightarrow> room lim e n k \<longrightarrow>
        p (state (ts @ t # rest) n k) =
          Ok (e, state (t # rest) (saturating_add n (expr_nodes e)) (saturating_add k (expr_ops e))))"

lemma parsesD:
  "parses lim p ks e stop \<Longrightarrow> map token_kind ts = ks \<Longrightarrow> stop (token_kind t) \<Longrightarrow> room lim e n k \<Longrightarrow>
   p (state (ts @ t # rest) n k) =
     Ok (e, state (t # rest) (saturating_add n (expr_nodes e)) (saturating_add k (expr_ops e)))"
  by (simp add: parses_def)

lemma state_simps [simp]:
  "ps_tokens (state ts n k) = ts" "ps_nodes (state ts n k) = n" "ps_operations (state ts n k) = k"
  "ps_tokens_update (\<lambda>_. ts') (state ts n k) = state ts' n k"
  "ps_nodes_update (\<lambda>_. n') (state ts n k) = state ts n' k"
  "ps_operations_update (\<lambda>_. k') (state ts n k) = state ts n k'"
  by (simp_all add: state_def)

lemma current_state [simp]: "current (state (t # ts) n k) = Ok t"
  by (simp add: current_def)

lemma advance_state [simp]: "advance (state (t # ts) n k) = Ok (t, state ts n k)"
  by (simp add: advance_def)

lemma node_state [simp]:
  "depth \<le> max_depth lim \<Longrightarrow> saturating_add n 1 \<le> max_nodes lim \<Longrightarrow>
   node lim depth e (state ts n k) = Ok (e, state ts (saturating_add n 1) k)"
  by (simp add: node_def)

lemma operation_state [simp]:
  "saturating_add k 1 \<le> max_operations lim \<Longrightarrow>
   operation lim (state ts n k) = Ok (state ts n (saturating_add k 1))"
  by (simp add: operation_def)

text \<open>A level that sees no operator of its own after its operand returns the operand.\<close>

lemma parses_pass:
  assumes "parses lim sub ks e stop" and "0 < fuel" and "\<And>k. stop k \<Longrightarrow> operator k = None"
  shows "parses lim (binary_level fuel operator sub lim depth) ks e stop"
  using assms by (cases fuel) (auto simp: parses_def binary_level_def)

lemma parses_stop: "parses lim p ks e stop \<Longrightarrow> (\<And>k. stop' k \<Longrightarrow> stop k) \<Longrightarrow> parses lim p ks e stop'"
  by (auto simp: parses_def)

text \<open>The constructor of a binary node, as the counters see it.\<close>

definition binary_con :: "(expression \<Rightarrow> expression \<Rightarrow> expression) \<Rightarrow> bool" where
  "binary_con con \<longleftrightarrow> (\<forall>l r. expr_nodes (con l r) = Suc (expr_nodes l + expr_nodes r) \<and>
     expr_ops (con l r) = Suc (expr_ops l + expr_ops r))"

lemma binary_cons [simp]:
  "binary_con E_Equal" "binary_con E_NotEqual" "binary_con E_And" "binary_con E_Or" "binary_con E_Add"
  by (simp_all add: binary_con_def)

text \<open>One operator at its own level, closed by a token that is no operator of the level.\<close>

lemma parses_operator:
  assumes con: "binary_con con" "depth \<le> max_depth lim"
    and l: "parses lim sub ls l stop" and r: "parses lim sub rs r stop"
    and op: "operator op = Some con" "stop op" and fuel: "2 \<le> fuel"
    and stop': "\<And>k. stop' k \<Longrightarrow> stop k \<and> operator k = None"
  shows "parses lim (binary_level fuel operator sub lim depth) (ls @ op # rs) (con l r) stop'"
  unfolding parses_def
proof (intro allI impI)
  fix ts rest :: "token list" and t :: token and n k
  assume kinds: "map token_kind ts = ls @ op # rs" and t: "stop' (token_kind t)" and room: "room lim (con l r) n k"
  from kinds obtain ts1 opt ts2 where ts: "ts = ts1 @ opt # ts2" "map token_kind ts1 = ls"
    "token_kind opt = op" "map token_kind ts2 = rs"
    by (auto simp: map_eq_append_conv)
  from fuel obtain f where f: "fuel = Suc (Suc f)" by (metis add_2_eq_Suc le_Suc_ex)
  from con room have sizes: "expr_nodes (con l r) = Suc (expr_nodes l + expr_nodes r)"
    "expr_ops (con l r) = Suc (expr_ops l + expr_ops r)"
    by (auto simp: binary_con_def)
  have rl: "room lim l n k" and
    rr: "room lim r (saturating_add n (expr_nodes l)) (saturating_add k (Suc (expr_ops l)))" and
    ops: "saturating_add k (Suc (expr_ops l)) \<le> max_operations lim" and
    nodes: "saturating_add n (Suc (expr_nodes l + expr_nodes r)) \<le> max_nodes lim"
    using room unfolding room_def sizes by (auto simp: saturating_add_def)
  have "stop (token_kind opt)" "stop (token_kind t)" using op ts t stop' by auto
  note pl = parsesD [OF l ts(2) this(1) rl] and pr = parsesD [OF r ts(4) this(2) rr]
  show "binary_level fuel operator sub lim depth (state (ts @ t # rest) n k) =
    Ok (con l r, state (t # rest) (saturating_add n (expr_nodes (con l r))) (saturating_add k (expr_ops (con l r))))"
    unfolding binary_level_def f using ops nodes op sizes ts stop' [OF t] con
    by (simp add: pl pr)
qed

text \<open>The operands pass through the levels below each operator, the node through those above.\<close>

lemmas level_defs = parse_or_def parse_and_def parse_equality_def parse_add_def
lemmas operator_defs = or_operator_def and_operator_def equality_operator_def add_operator_def

lemma parses_binary:
  assumes l: "parses lim (unary depth) ls l (\<lambda>_. True)" and r: "parses lim (unary depth) rs r (\<lambda>_. True)"
    and "2 \<le> fuel" and "depth \<le> max_depth lim"
  shows "parses lim (parse_or fuel unary lim depth) (ls @ T_Add # rs) (E_Add l r) (\<lambda>k. k = T_RightParen)"
    and "parses lim (parse_or fuel unary lim depth) (ls @ T_Equal # rs) (E_Equal l r) (\<lambda>k. k = T_RightParen)"
    and "parses lim (parse_or fuel unary lim depth) (ls @ T_NotEqual # rs) (E_NotEqual l r) (\<lambda>k. k = T_RightParen)"
    and "parses lim (parse_or fuel unary lim depth) (ls @ T_And # rs) (E_And l r) (\<lambda>k. k = T_RightParen)"
    and "parses lim (parse_or fuel unary lim depth) (ls @ T_Or # rs) (E_Or l r) (\<lambda>k. k = T_RightParen)"
proof -
  let ?low = "\<lambda>k. k \<noteq> T_Add" and ?mid = "\<lambda>k. k \<notin> {T_Add, T_Equal, T_NotEqual}"
    and ?high = "\<lambda>k. k \<notin> {T_Add, T_Equal, T_NotEqual, T_And}"
  have add: "parses lim (parse_add fuel unary lim depth) ks e ?low"
    if "parses lim (unary depth) ks e (\<lambda>_. True)" for ks e
    unfolding level_defs using assms(3)
    by (intro parses_pass parses_stop [OF that]) (simp_all add: operator_defs)
  have equality: "parses lim (parse_equality fuel unary lim depth) ks e ?mid"
    if "parses lim (unary depth) ks e (\<lambda>_. True)" for ks e
    unfolding parse_equality_def using assms(3)
    by (intro parses_pass parses_stop [OF add [OF that]]) (simp_all add: operator_defs)
  have "and": "parses lim (parse_and fuel unary lim depth) ks e ?high"
    if "parses lim (unary depth) ks e (\<lambda>_. True)" for ks e
    unfolding parse_and_def using assms(3)
    by (intro parses_pass parses_stop [OF equality [OF that]]) (simp_all add: operator_defs)
  note pass = parses_pass [of _ _ _ _ "\<lambda>k. k = T_RightParen"]
  note op_add = parses_operator [OF _ assms(4) l r, of _ add_operator]
    and op_equality = parses_operator [OF _ assms(4) add [OF l] add [OF r], of _ equality_operator]
    and op_and = parses_operator [OF _ assms(4) equality [OF l] equality [OF r], of _ and_operator]
    and op_or = parses_operator [OF _ assms(4) "and" [OF l] "and" [OF r], of _ or_operator]
  from assms(3) have f: "0 < fuel" by simp
  show "parses lim (parse_or fuel unary lim depth) (ls @ T_Add # rs) (E_Add l r) (\<lambda>k. k = T_RightParen)"
    unfolding level_defs using assms(3) f by (intro pass op_add) (simp_all add: operator_defs)
  show "parses lim (parse_or fuel unary lim depth) (ls @ T_Equal # rs) (E_Equal l r) (\<lambda>k. k = T_RightParen)"
    unfolding parse_or_def parse_and_def parse_equality_def using assms(3) f
    by (intro pass op_equality) (simp_all add: operator_defs)
  show "parses lim (parse_or fuel unary lim depth) (ls @ T_NotEqual # rs) (E_NotEqual l r) (\<lambda>k. k = T_RightParen)"
    unfolding parse_or_def parse_and_def parse_equality_def using assms(3) f
    by (intro pass op_equality) (simp_all add: operator_defs)
  show "parses lim (parse_or fuel unary lim depth) (ls @ T_And # rs) (E_And l r) (\<lambda>k. k = T_RightParen)"
    unfolding parse_or_def parse_and_def using assms(3) f by (intro pass op_and) (simp_all add: operator_defs)
  show "parses lim (parse_or fuel unary lim depth) (ls @ T_Or # rs) (E_Or l r) (\<lambda>k. k = T_RightParen)"
    unfolding parse_or_def using assms(3) f by (intro op_or) (simp_all add: operator_defs)
qed

lemma parses_group:
  assumes "parses lim (parse_or fuel (parse_unary fuel lim) lim depth) ks e (\<lambda>k. k = T_RightParen)"
    and "depth \<le> max_depth lim"
  shows "parses lim (parse_unary (Suc fuel) lim depth) (T_LeftParen # ks @ [T_RightParen]) e (\<lambda>_. True)"
  unfolding parses_def
proof (intro allI impI)
  fix ts rest :: "token list" and t :: token and n k
  assume kinds: "map token_kind ts = T_LeftParen # ks @ [T_RightParen]" and room: "room lim e n k"
  from kinds obtain t1 ts1 t2 where ts: "ts = t1 # ts1 @ [t2]" "token_kind t1 = T_LeftParen"
    "map token_kind ts1 = ks" "token_kind t2 = T_RightParen"
    by (auto simp: map_eq_append_conv map_eq_Cons_conv)
  from parsesD [OF assms(1) ts(3) ts(4) room] assms(2) ts
  show "parse_unary (Suc fuel) lim depth (state (ts @ t # rest) n k) =
    Ok (e, state (t # rest) (saturating_add n (expr_nodes e)) (saturating_add k (expr_ops e)))"
    by (simp add: ensure_depth_def parse_primary_def parse_group_def)
qed

lemma parses_grouped:
  assumes "1 < fuel"
    and "parses lim (parse_or (fuel - 1) (parse_unary (fuel - 1) lim) lim depth) (ls @ k # rs) e (\<lambda>k. k = T_RightParen)"
    and "depth \<le> max_depth lim"
  shows "parses lim (parse_unary fuel lim depth) (T_LeftParen # ls @ k # rs @ [T_RightParen]) e (\<lambda>_. True)"
  using parses_group [OF assms(2,3)] assms(1) by simp

lemma parse_unary_parses:
  "depth + expr_height e \<le> max_depth lim \<Longrightarrow> length (expr_tokens e) < fuel \<Longrightarrow>
   parses lim (parse_unary fuel lim depth) (expr_tokens e) e (\<lambda>_. True)"
proof (induction e arbitrary: fuel depth)
  case (E_Literal v)
  then show ?case
    by (cases fuel; cases v)
      (auto simp: parses_def room_def map_eq_Cons_conv ensure_depth_def parse_primary_def)
next
  case (E_Parameter name)
  then show ?case
    by (cases fuel) (auto simp: parses_def room_def map_eq_Cons_conv ensure_depth_def parse_primary_def)
next
  case (E_Not e)
  then obtain f where f: "fuel = Suc f" by (cases fuel) simp_all
  have sub: "parses lim (parse_unary f lim (Suc depth)) (expr_tokens e) e (\<lambda>_. True)"
    using E_Not.prems f by (intro E_Not.IH) simp_all
  show ?case unfolding parses_def f
  proof (intro allI impI)
    fix ts rest :: "token list" and t :: token and n k
    assume kinds: "map token_kind ts = expr_tokens (E_Not e)" and room: "room lim (E_Not e) n k"
    from kinds obtain t1 ts1 where ts: "ts = t1 # ts1" "token_kind t1 = T_Not" "map token_kind ts1 = expr_tokens e"
      by auto
    from room have r: "room lim e n (saturating_add k 1)" "saturating_add k 1 \<le> max_operations lim"
      "saturating_add n (Suc (expr_nodes e)) \<le> max_nodes lim"
      by (auto simp: room_def saturating_add_def)
    from parsesD [OF sub ts(3) TrueI r(1), of t rest] r ts E_Not.prems
    show "parse_unary (Suc f) lim depth (state (ts @ t # rest) n k) =
      Ok (E_Not e, state (t # rest) (saturating_add n (expr_nodes (E_Not e))) (saturating_add k (expr_ops (E_Not e))))"
      by (simp add: ensure_depth_def)
  qed
next
  case (E_Equal l r)
  from E_Equal.prems show ?case unfolding expr_tokens.simps
    by (intro parses_grouped parses_binary E_Equal.IH) simp_all
next
  case (E_NotEqual l r)
  from E_NotEqual.prems show ?case unfolding expr_tokens.simps
    by (intro parses_grouped parses_binary E_NotEqual.IH) simp_all
next
  case (E_And l r)
  from E_And.prems show ?case unfolding expr_tokens.simps
    by (intro parses_grouped parses_binary E_And.IH) simp_all
next
  case (E_Or l r)
  from E_Or.prems show ?case unfolding expr_tokens.simps
    by (intro parses_grouped parses_binary E_Or.IH) simp_all
next
  case (E_Add l r)
  from E_Add.prems show ?case unfolding expr_tokens.simps
    by (intro parses_grouped parses_binary E_Add.IH) simp_all
qed

lemma parse_tokens_expr:
  assumes "valid_expr lim e" and "map token_kind ts = expr_tokens e" and "token_kind t = T_End"
  shows "parse_tokens (ts @ [t]) lim = Ok e"
proof -
  let ?fuel = "length (ts @ [t]) + 1"
  have len: "length ts = length (expr_tokens e)" using assms(2) by (metis length_map)
  have unary: "parses lim (parse_unary ?fuel lim 0) (expr_tokens e) e (\<lambda>_. True)"
    using assms(1) len by (intro parse_unary_parses) (simp_all add: valid_expr_def)
  have parsed: "parses lim (parse_or ?fuel (parse_unary ?fuel lim) lim 0) (expr_tokens e) e (\<lambda>k. k = T_End)"
    unfolding level_defs by (intro parses_pass parses_stop [OF unary]) (simp_all add: operator_defs)
  have room: "room lim e 0 0" using assms(1) by (simp add: room_def valid_expr_def)
  have "parse_or ?fuel (parse_unary ?fuel lim) lim 0 (state (ts @ t # []) 0 0) =
      Ok (e, state [t] (saturating_add 0 (expr_nodes e)) (saturating_add 0 (expr_ops e)))"
    by (rule parsesD [OF parsed assms(2,3) room])
  moreover have "validate_expression e lim = Ok ()" using assms(1) by (simp add: validate_expression_eq_Ok)
  ultimately show ?thesis using assms(3) by (simp add: parse_tokens_def state_def current_def)
qed

section \<open>The printed form, and the lexer on it\<close>

definition escape :: "string \<Rightarrow> string" where
  "escape c =
     (if c = [CHR 0x22] then [CHR 0x5C, CHR 0x22]
      else if c = [CHR 0x5C] then [CHR 0x5C, CHR 0x5C]
      else if c = [CHR 0x0A] then [CHR 0x5C, CHR ''n'']
      else if c = [CHR 0x0D] then [CHR 0x5C, CHR ''r'']
      else c)"

definition print_string :: "string \<Rightarrow> string" where
  "print_string s = CHR 0x22 # concat (map escape (chars s)) @ [CHR 0x22]"

primrec print_expr :: "expression \<Rightarrow> string" where
  "print_expr (E_Literal v) =
     (case v of
        PV_Bool b \<Rightarrow> if b then ''true'' else ''false''
      | PV_Integer i \<Rightarrow> show_int (sint i)
      | PV_String s \<Rightarrow> print_string s)"
| "print_expr (E_Parameter n) = ''parameters.'' @ n"
| "print_expr (E_Not e) = ''!'' @ print_expr e"
| "print_expr (E_Equal l r) = ''('' @ print_expr l @ ''=='' @ print_expr r @ '')''"
| "print_expr (E_NotEqual l r) = ''('' @ print_expr l @ ''!='' @ print_expr r @ '')''"
| "print_expr (E_And l r) = ''('' @ print_expr l @ ''&&'' @ print_expr r @ '')''"
| "print_expr (E_Or l r) = ''('' @ print_expr l @ ''||'' @ print_expr r @ '')''"
| "print_expr (E_Add l r) = ''('' @ print_expr l @ ''+'' @ print_expr r @ '')''"

text \<open>The string literals of a tree are Rust strings.\<close>

primrec expr_utf8 :: "expression \<Rightarrow> bool" where
  "expr_utf8 (E_Literal v) \<longleftrightarrow> (case v of PV_String s \<Rightarrow> is_utf8 s | _ \<Rightarrow> True)"
| "expr_utf8 (E_Parameter n) \<longleftrightarrow> True"
| "expr_utf8 (E_Not e) \<longleftrightarrow> expr_utf8 e"
| "expr_utf8 (E_Equal l r) \<longleftrightarrow> expr_utf8 l \<and> expr_utf8 r"
| "expr_utf8 (E_NotEqual l r) \<longleftrightarrow> expr_utf8 l \<and> expr_utf8 r"
| "expr_utf8 (E_And l r) \<longleftrightarrow> expr_utf8 l \<and> expr_utf8 r"
| "expr_utf8 (E_Or l r) \<longleftrightarrow> expr_utf8 l \<and> expr_utf8 r"
| "expr_utf8 (E_Add l r) \<longleftrightarrow> expr_utf8 l \<and> expr_utf8 r"

text \<open>One character of a string literal, escaped, is one round of the lexer's loop.\<close>

lemma lex_string_loop_escape:
  assumes "utf8_split s = Some (c, r)" and "length (val @ c) \<le> max_string_bytes lim"
  shows "lex_string_loop lim start val (offset, escape c @ rest) =
     lex_string_loop lim start (val @ c) (offset + length (escape c), rest)"
proof -
  have plain: "utf8_split (c @ rest) = Some (c, rest)" by (rule utf8_split_char [OF assms(1)])
  consider "c = [CHR 0x22]" | "c = [CHR 0x5C]" | "c = [CHR 0x0A]" | "c = [CHR 0x0D]"
    | "c \<noteq> [CHR 0x22]" "c \<noteq> [CHR 0x5C]" "c \<noteq> [CHR 0x0A]" "c \<noteq> [CHR 0x0D]"
    by blast
  then show ?thesis
    using assms(2) plain
    by cases (simp_all add: lex_string_loop.simps [of lim start val] escape_def unescape_def not_less)
qed

lemma lex_string_loop_print:
  "is_utf8 s \<Longrightarrow> length (val @ s) \<le> max_string_bytes lim \<Longrightarrow>
   lex_string_loop lim start val (offset, concat (map escape (chars s)) @ CHR 0x22 # rest) =
     Ok (val @ s, offset + length (concat (map escape (chars s))) + 1, rest)"
proof (induction s arbitrary: val offset rule: chars.induct)
  case (1 s)
  show ?case
  proof (cases "utf8_split s")
    case None
    with "1.prems" have "s = []" by (simp add: is_utf8_stuck)
    then show ?thesis by (simp add: lex_string_loop.simps [of lim start val])
  next
    case (Some p)
    obtain c r where p: "p = (c, r)" by (cases p)
    with Some have s: "utf8_split s = Some (c, r)" by simp
    note app = utf8_split_append [OF s]
    from "1.prems" app have len: "length (val @ c) \<le> max_string_bytes lim" by simp
    from "1.prems" s have "is_utf8 r" by (simp add: is_utf8_step)
    with "1.IH" [OF Some p [symmetric], of "val @ c" "offset + length (escape c)"] "1.prems" app
      lex_string_loop_escape [OF s len, of start offset]
    show ?thesis using chars_step [OF s] by (simp add: app)
  qed
qed

text \<open>\<open>reads lim x ks stop\<close>: before a rest satisfying \<open>stop\<close>, the text \<open>x\<close> is lexed into the kinds \<open>ks\<close>.\<close>

definition token_capacity :: "expression_limits \<Rightarrow> nat" where
  "token_capacity lim = saturating_add (saturating_mul (max_nodes lim) 3) 1"

definition reads :: "expression_limits \<Rightarrow> string \<Rightarrow> token_kind list \<Rightarrow> (string \<Rightarrow> bool) \<Rightarrow> bool" where
  "reads lim x ks stop \<longleftrightarrow>
     (\<forall>tokens offset rest. stop rest \<longrightarrow> length tokens + length ks \<le> token_capacity lim \<longrightarrow>
       (\<exists>ts. map token_kind ts = ks \<and>
         tokenize_loop lim tokens (offset, x @ rest) = tokenize_loop lim (tokens @ ts) (offset + length x, rest)))"

lemma readsE:
  assumes "reads lim x ks stop" and "stop rest" and "length tokens + length ks \<le> token_capacity lim"
  obtains ts where "map token_kind ts = ks" and "length ts = length ks"
    and "tokenize_loop lim tokens (offset, x @ rest) = tokenize_loop lim (tokens @ ts) (offset + length x, rest)"
  using assms unfolding reads_def by (metis length_map)

lemma reads_append:
  assumes x: "reads lim x ks stop" and y: "reads lim y ls stop'" and stop: "\<And>rest. stop' rest \<Longrightarrow> stop (y @ rest)"
  shows "reads lim (x @ y) (ks @ ls) stop'"
  unfolding reads_def
proof (intro allI impI)
  fix tokens :: "token list" and offset rest
  assume rest: "stop' rest" and len: "length tokens + length (ks @ ls) \<le> token_capacity lim"
  from len have "length tokens + length ks \<le> token_capacity lim" by simp
  from readsE [OF x stop [OF rest] this, of offset] obtain ts where ts: "map token_kind ts = ks"
    "length ts = length ks"
    "tokenize_loop lim tokens (offset, x @ y @ rest) = tokenize_loop lim (tokens @ ts) (offset + length x, y @ rest)" .
  from len ts(2) have "length (tokens @ ts) + length ls \<le> token_capacity lim" by simp
  from readsE [OF y rest this, of "offset + length x"] obtain us where us: "map token_kind us = ls"
    "tokenize_loop lim (tokens @ ts) (offset + length x, y @ rest) =
     tokenize_loop lim ((tokens @ ts) @ us) (offset + length x + length y, rest)" .
  with ts show "\<exists>ts. map token_kind ts = ks @ ls \<and> tokenize_loop lim tokens (offset, (x @ y) @ rest) =
      tokenize_loop lim (tokens @ ts) (offset + length (x @ y), rest)"
    by (intro exI [of _ "ts @ us"]) (simp add: add.assoc)
qed

lemma reads_token:
  assumes "\<And>offset rest. stop rest \<Longrightarrow> next_token lim (offset, (c # x) @ rest) = Ok (k, offset + length (c # x), rest)"
    and "\<not> is_ascii_whitespace c"
  shows "reads lim (c # x) [k] stop"
  unfolding reads_def
proof (intro allI impI)
  fix tokens :: "token list" and offset rest
  assume rest: "stop rest" and len: "length tokens + length [k] \<le> token_capacity lim"
  have "skip_whitespace (offset, (c # x) @ rest) = (offset, (c # x) @ rest)"
    using assms(2) by (simp add: skip_whitespace_def)
  with assms(1) [OF rest, of offset] len
  show "\<exists>ts. map token_kind ts = [k] \<and> tokenize_loop lim tokens (offset, (c # x) @ rest) =
      tokenize_loop lim (tokens @ ts) (offset + length (c # x), rest)"
    by (intro exI [of _ "[\<lparr>token_kind = k, token_offset = offset\<rparr>]"])
      (simp add: tokenize_loop.simps [of lim tokens] token_capacity_def)
qed

definition delimited :: "string \<Rightarrow> bool" where
  "delimited rest \<longleftrightarrow> (case rest of [] \<Rightarrow> True | c # _ \<Rightarrow> \<not> is_identifier_byte c)"

lemma delimited_Cons [simp]: "delimited (c # s) \<longleftrightarrow> \<not> is_identifier_byte c"
  by (simp add: delimited_def)

lemma takeWhile_delimited:
  assumes "list_all P x" and "delimited rest" and "\<And>c. P c \<Longrightarrow> is_identifier_byte c"
  shows "takeWhile P (x @ rest) = x" and "dropWhile P (x @ rest) = rest"
  using assms by (induction x) (auto simp: delimited_def split: list.splits)

lemma reads_symbol:
  "reads lim ''('' [T_LeftParen] stop" "reads lim '')'' [T_RightParen] stop" "reads lim ''+'' [T_Add] stop"
  "reads lim ''=='' [T_Equal] stop" "reads lim ''!='' [T_NotEqual] stop" "reads lim ''&&'' [T_And] stop"
  "reads lim ''||'' [T_Or] stop" "reads lim ''!'' [T_Not] (\<lambda>rest. \<not> starts_with ''='' rest)"
  by (rule reads_token; simp add: next_token_def starts_with_def is_ascii_whitespace_def)+

lemma is_identifier_digit: "is_ascii_digit c \<Longrightarrow> is_identifier_byte c"
  by (simp add: is_identifier_byte_def is_ascii_alphanumeric_def)

lemma is_identifier_parameter: "is_parameter_byte c \<Longrightarrow> is_identifier_byte c"
  by (auto simp: is_identifier_byte_def is_parameter_byte_def)

lemma next_token_integer:
  assumes "c = CHR ''-'' \<or> is_ascii_digit c"
  shows "next_token lim (offset, c # s) =
    and_then (lex_integer (offset, c # s)) (\<lambda>(v, after). Ok (T_Integer v, after))"
proof -
  from assms have "c \<noteq> CHR ''(''" "c \<noteq> CHR '')''" "c \<noteq> CHR ''+''" "c \<noteq> CHR ''!''" "c \<noteq> CHR ''=''"
    "c \<noteq> CHR ''&''" "c \<noteq> CHR ''|''" "c \<noteq> CHR 0x22"
    by (auto simp: is_ascii_digit_def)
  with assms show ?thesis by (simp add: next_token_def)
qed

lemma next_token_identifier:
  assumes "is_ascii_lowercase c"
  shows "next_token lim (offset, c # s) = lex_identifier (offset, c # s)"
proof -
  from assms have "c \<noteq> CHR ''(''" "c \<noteq> CHR '')''" "c \<noteq> CHR ''+''" "c \<noteq> CHR ''!''" "c \<noteq> CHR ''=''"
    "c \<noteq> CHR ''&''" "c \<noteq> CHR ''|''" "c \<noteq> CHR 0x22" "c \<noteq> CHR ''-''" "\<not> is_ascii_digit c"
    by (auto simp: is_ascii_digit_def is_ascii_lowercase_def)
  with assms show ?thesis by (simp add: next_token_def)
qed

lemma lex_integer_show_int:
  assumes "delimited rest"
  shows "lex_integer (offset, show_int (sint i) @ rest) = Ok (i, offset + length (show_int (sint i)), rest)"
proof -
  have digits: "list_all is_ascii_digit (show_nat n)" for n
    by (simp add: list_all_iff show_nat_digits)
  note split = takeWhile_delimited [OF digits assms is_identifier_digit]
  show ?thesis
  proof (cases "sint i < 0")
    case True
    then have "show_int (sint i) = CHR ''-'' # show_nat (nat (- sint i))" by (simp add: show_int_def)
    with split parse_i64_show_int [of i] show ?thesis by (simp add: lex_integer_def)
  next
    case False
    then have s: "show_int (sint i) = show_nat (nat (sint i))" by (simp add: show_int_def)
    obtain d ds where d: "show_nat (nat (sint i)) = d # ds" by (cases "show_nat (nat (sint i))") simp_all
    with digits [of "nat (sint i)"] have "is_ascii_digit d" by simp
    then have "d \<noteq> CHR ''-''" by (auto simp: is_ascii_digit_def)
    with split [of "nat (sint i)"] parse_i64_show_int [of i] s d show ?thesis by (simp add: lex_integer_def)
  qed
qed

lemma reads_integer: "reads lim (show_int (sint i)) [T_Integer i] delimited"
proof -
  obtain c x where cx: "show_int (sint i) = c # x" by (cases "show_int (sint i)") (auto simp: show_int_def split: if_splits)
  have c: "c = CHR ''-'' \<or> is_ascii_digit c"
    using cx show_nat_digits [of c "nat (sint i)"] by (auto simp: show_int_def split: if_splits)
  from c have "\<not> is_ascii_whitespace c" by (auto simp: is_ascii_digit_def is_ascii_whitespace_def)
  then show ?thesis unfolding cx
  proof (intro reads_token)
    fix offset rest assume "delimited rest"
    from lex_integer_show_int [OF this, of offset i] cx c
    show "next_token lim (offset, (c # x) @ rest) = Ok (T_Integer i, offset + length (c # x), rest)"
      by (simp add: next_token_integer)
  qed
qed

lemma lex_identifier_delimited:
  assumes "list_all is_identifier_byte x" and "delimited rest"
  shows "lex_identifier (offset, x @ rest) =
     (if x = ''true'' then Ok (T_Bool True, offset + length x, rest)
      else if x = ''false'' then Ok (T_Bool False, offset + length x, rest)
      else case strip_prefix ''parameters.'' x of
          None \<Rightarrow> Err (expression_error UnknownContext offset ''only the parameters.<name> context is available'')
        | Some name \<Rightarrow> and_then (map_err (\<lambda>e. e\<lparr>error_offset := offset\<rparr>) (validate_parameter_name name))
            (\<lambda>_. Ok (T_Parameter name, offset + length x, rest)))"
  using takeWhile_delimited [OF assms] by (simp add: lex_identifier_def)

lemma reads_bool: "reads lim (if b then ''true'' else ''false'') [T_Bool b] delimited"
proof -
  have "reads lim ''true'' [T_Bool True] delimited"
    using lex_identifier_delimited [of "''true''"]
    by (intro reads_token) (simp_all add: next_token_identifier is_identifier_byte_def ascii_defs)
  moreover have "reads lim ''false'' [T_Bool False] delimited"
    using lex_identifier_delimited [of "''false''"]
    by (intro reads_token) (simp_all add: next_token_identifier is_identifier_byte_def ascii_defs)
  ultimately show ?thesis by simp
qed

lemma reads_parameter:
  assumes "is_parameter_name n"
  shows "reads lim (''parameters.'' @ n) [T_Parameter n] delimited"
proof -
  have "list_all is_identifier_byte n" using assms
    by (auto simp: is_parameter_name_def list_all_iff intro: is_identifier_parameter)
  then have id: "list_all is_identifier_byte (''parameters.'' @ n)"
    by (simp add: is_identifier_byte_def ascii_defs)
  have "validate_parameter_name n = Ok ()" using assms by (simp add: ok_simps)
  with lex_identifier_delimited [OF id] show ?thesis
    unfolding append_Cons
    by (intro reads_token) (simp_all add: next_token_identifier ascii_defs)
qed

lemma reads_string:
  assumes "is_utf8 s" and "length s \<le> max_string_bytes lim"
  shows "reads lim (print_string s) [T_String s] stop"
  unfolding print_string_def
  using lex_string_loop_print [OF assms(1), of "[]" lim] assms(2)
  by (intro reads_token) (simp_all add: next_token_def lex_string_def is_ascii_whitespace_def)

lemma print_expr_start: "\<not> starts_with ''='' (print_expr e @ rest)"
proof -
  have "\<not> starts_with ''='' (show_int k @ rest)" for k
    using show_nat_digits [of "hd (show_nat (nat k))" "nat k", OF hd_in_set]
    by (cases "show_nat (nat k)") (auto simp: show_int_def starts_with_def is_ascii_digit_def)
  then show ?thesis by (cases e) (auto simp: starts_with_def print_string_def split: parameter_value.splits)
qed

lemma reads_not: "reads lim x ks stop \<Longrightarrow> (\<And>rest. \<not> starts_with ''='' (x @ rest)) \<Longrightarrow>
   reads lim (''!'' @ x) (T_Not # ks) stop"
  using reads_append [OF reads_symbol(8), of lim x ks stop] by simp

lemma reads_binary:
  assumes "reads lim x ks delimited" and "reads lim y ls delimited"
    and "\<And>stop. reads lim (c # op) [k] stop" and "\<not> is_identifier_byte c"
  shows "reads lim (''('' @ x @ (c # op) @ y @ '')'') (T_LeftParen # ks @ k # ls @ [T_RightParen]) delimited"
proof -
  have "reads lim (y @ '')'') (ls @ [T_RightParen]) delimited"
    by (rule reads_append [OF assms(2) reads_symbol(2)]) (simp add: is_identifier_byte_def ascii_defs)
  then have "reads lim ((c # op) @ y @ '')'') ([k] @ ls @ [T_RightParen]) delimited"
    by (rule reads_append [OF assms(3) [of "\<lambda>_. True"]]) simp
  then have "reads lim (x @ (c # op) @ y @ '')'') (ks @ [k] @ ls @ [T_RightParen]) delimited"
    by (rule reads_append [OF assms(1)]) (simp add: assms(4))
  then have "reads lim (''('' @ x @ (c # op) @ y @ '')'') ([T_LeftParen] @ ks @ [k] @ ls @ [T_RightParen]) delimited"
    by (rule reads_append [OF reads_symbol(1) [of lim "\<lambda>_. True"]]) simp
  then show ?thesis by simp
qed

lemma reads_expr:
  "expr_leaves_ok lim e \<Longrightarrow> expr_utf8 e \<Longrightarrow> reads lim (print_expr e) (expr_tokens e) delimited"
proof (induction e)
  case (E_Literal v)
  then show ?case using reads_bool reads_integer reads_string by (cases v) auto
next
  case (E_Parameter n)
  then show ?case using reads_parameter by simp
next
  case (E_Not e)
  then show ?case unfolding print_expr.simps expr_tokens.simps
    by (intro reads_not print_expr_start) simp_all
next
  case (E_Equal l r)
  then show ?case unfolding print_expr.simps expr_tokens.simps
    by (intro reads_binary reads_symbol) (simp_all add: is_identifier_byte_def ascii_defs)
next
  case (E_NotEqual l r)
  then show ?case unfolding print_expr.simps expr_tokens.simps
    by (intro reads_binary reads_symbol) (simp_all add: is_identifier_byte_def ascii_defs)
next
  case (E_And l r)
  then show ?case unfolding print_expr.simps expr_tokens.simps
    by (intro reads_binary reads_symbol) (simp_all add: is_identifier_byte_def ascii_defs)
next
  case (E_Or l r)
  then show ?case unfolding print_expr.simps expr_tokens.simps
    by (intro reads_binary reads_symbol) (simp_all add: is_identifier_byte_def ascii_defs)
next
  case (E_Add l r)
  then show ?case unfolding print_expr.simps expr_tokens.simps
    by (intro reads_binary reads_symbol) (simp_all add: is_identifier_byte_def ascii_defs)
qed

lemma token_capacity_valid:
  assumes "valid_expr lim e" and "3 * max_nodes lim < usize_max"
  shows "length (expr_tokens e) \<le> token_capacity lim"
proof -
  from assms have "expr_nodes e \<le> max_nodes lim"
    by (auto simp: valid_expr_def saturating_add_def min_def split: if_splits)
  with length_expr_tokens [of e] assms(2) show ?thesis
    by (simp add: token_capacity_def saturating_add_def saturating_mul_def)
qed

lemma tokenize_print_expr:
  assumes "valid_expr lim e" and "expr_utf8 e" and "3 * max_nodes lim < usize_max"
  shows "\<exists>ts t. tokenize lim (print_expr e) = Ok (ts @ [t]) \<and> map token_kind ts = expr_tokens e \<and>
    token_kind t = T_End"
proof -
  have "reads lim (print_expr e) (expr_tokens e) delimited"
    using assms by (intro reads_expr) (simp_all add: valid_expr_def)
  from readsE [OF this, of "[]" "[]" 0] token_capacity_valid [OF assms(1,3)]
  obtain ts where "map token_kind ts = expr_tokens e"
    "tokenize_loop lim [] (0, print_expr e) = tokenize_loop lim ts (length (print_expr e), [])"
    by (auto simp: delimited_def)
  then show ?thesis
    by (auto simp: tokenize_def tokenize_loop.simps [of lim ts] skip_whitespace_def)
qed

section \<open>Properties\<close>



end
