(* ===== verification/Bytes.thy ===== *)
theory Bytes
  imports Rust_Text
begin

text \<open>
  Byte strings: big-endian integers (\<open>to_be_bytes\<close>, \<open>from_be_bytes\<close>), lower-case hexadecimal
  (\<open>{:x}\<close>), length-framed fields, and the interface of a prefix code, which every self-delimiting
  encoding of the system implements.
\<close>

section \<open>Big-endian integers\<close>

primrec be_bytes :: "nat \<Rightarrow> nat \<Rightarrow> byte list" where
  "be_bytes 0 v = []"
| "be_bytes (Suc n) v = be_bytes n (v div 256) @ [word_of_nat (v mod 256)]"

definition nat_of_be :: "byte list \<Rightarrow> nat" where
  "nat_of_be bs = foldl (\<lambda>n b. n * 256 + unat b) 0 bs"

lemma length_be_bytes [simp]: "length (be_bytes n v) = n"
  by (induction n arbitrary: v) simp_all

lemma nat_of_be_snoc [simp]: "nat_of_be (bs @ [b]) = nat_of_be bs * 256 + unat b"
  by (simp add: nat_of_be_def)

lemma nat_of_be_Nil [simp]: "nat_of_be [] = 0"
  by (simp add: nat_of_be_def)

lemma unat_less_power: "unat (w :: 'a :: len word) < 2 ^ LENGTH('a)"
  by (rule unsigned_less)

lemma unat_byte_less [simp]: "unat (b :: byte) < 256"
  using unat_less_power [of b] by simp

lemma nat_of_be_bytes: "v < 256 ^ n \<Longrightarrow> nat_of_be (be_bytes n v) = v"
proof (induction n arbitrary: v)
  case (Suc n)
  then have "v div 256 < 256 ^ n" by (simp add: less_mult_imp_div_less)
  then show ?case using Suc.IH [of "v div 256"] by (simp add: unat_of_nat)
qed simp

lemma be_bytes_inject:
  "v < 256 ^ n \<Longrightarrow> w < 256 ^ n \<Longrightarrow> be_bytes n v = be_bytes n w \<longleftrightarrow> v = w"
  by (metis nat_of_be_bytes)

lemma nat_of_be_less: "nat_of_be bs < 256 ^ length bs"
proof (induction bs rule: rev_induct)
  case (snoc b bs)
  have "nat_of_be bs * 256 + unat b < (nat_of_be bs + 1) * 256" using unat_byte_less [of b] by simp
  also have "\<dots> \<le> 256 ^ length bs * 256" using snoc by (intro mult_right_mono) simp_all
  finally show ?case by (simp add: mult.commute)
qed simp

text \<open>The widths the code uses.\<close>

definition be_u16 :: "u16 \<Rightarrow> byte list" where "be_u16 w = be_bytes 2 (unat w)"
definition be_u32 :: "u32 \<Rightarrow> byte list" where "be_u32 w = be_bytes 4 (unat w)"
definition be_u64 :: "u64 \<Rightarrow> byte list" where "be_u64 w = be_bytes 8 (unat w)"

lemma length_be_word [simp]: "length (be_u16 a) = 2" "length (be_u32 b) = 4" "length (be_u64 c) = 8"
  by (simp_all add: be_u16_def be_u32_def be_u64_def)

lemma nat_of_be_word [simp]:
  "nat_of_be (be_u16 a) = unat a" "nat_of_be (be_u32 b) = unat b" "nat_of_be (be_u64 c) = unat c"
  using unat_less_power [of a] unat_less_power [of b] unat_less_power [of c]
  by (simp_all add: be_u16_def be_u32_def be_u64_def nat_of_be_bytes)

lemma be_word_inject [simp]:
  "be_u16 a = be_u16 a' \<longleftrightarrow> a = a'" "be_u32 b = be_u32 b' \<longleftrightarrow> b = b'" "be_u64 c = be_u64 c' \<longleftrightarrow> c = c'"
  by (metis nat_of_be_word(1) word_unat_eq_iff, metis nat_of_be_word(2) word_unat_eq_iff,
      metis nat_of_be_word(3) word_unat_eq_iff)

section \<open>Lower-case hexadecimal\<close>

definition hex_digit :: "nat \<Rightarrow> char" where
  "hex_digit n = (if n < 10 then char_of (48 + n) else char_of (87 + n))"

definition hex_byte :: "byte \<Rightarrow> string" where
  "hex_byte b = [hex_digit (unat b div 16), hex_digit (unat b mod 16)]"

definition hex :: "byte list \<Rightarrow> string" where
  "hex bs = concat (map hex_byte bs)"

lemma code_hex_digit: "n < 16 \<Longrightarrow> code (hex_digit n) = (if n < 10 then 48 + n else 87 + n)"
  by (simp add: hex_digit_def of_char_of)

lemma hex_digit_inject:
  assumes "m < 16" and "n < 16" shows "hex_digit m = hex_digit n \<longleftrightarrow> m = n"
proof
  assume "hex_digit m = hex_digit n"
  then have "code (hex_digit m) = code (hex_digit n)" by simp
  with assms show "m = n" by (simp add: code_hex_digit split: if_splits)
qed simp

lemma is_lower_hex_digit: "n < 16 \<Longrightarrow> is_lower_hex (hex_digit n)"
  using code_hex_digit [of n] by (auto simp: is_lower_hex_def is_ascii_digit_def)

lemma hex_byte_inject [simp]: "hex_byte a = hex_byte b \<longleftrightarrow> a = b"
proof
  assume "hex_byte a = hex_byte b"
  then have "unat a div 16 = unat b div 16" "unat a mod 16 = unat b mod 16"
    using unat_byte_less [of a] unat_byte_less [of b]
    by (auto simp: hex_byte_def hex_digit_inject)
  then show "a = b" by (metis div_mult_mod_eq word_unat_eq_iff)
qed simp

lemma length_hex [simp]: "length (hex bs) = 2 * length bs"
  by (induction bs) (simp_all add: hex_def hex_byte_def)

lemma hex_lower: "list_all is_lower_hex (hex bs)"
proof (induction bs)
  case (Cons b bs)
  have "unat b div 16 < 16" using unat_byte_less [of b] by (simp add: less_mult_imp_div_less)
  with Cons show ?case by (simp add: hex_def hex_byte_def is_lower_hex_digit)
qed (simp add: hex_def)

lemma hex_inject [simp]: "hex a = hex b \<longleftrightarrow> a = b"
proof (induction a arbitrary: b)
  case Nil
  then show ?case by (cases b) (simp_all add: hex_def hex_byte_def)
next
  case (Cons x a)
  then show ?case
  proof (cases b)
    case (Cons y b')
    have "hex (x # a) = hex_byte x @ hex a" "hex (y # b') = hex_byte y @ hex b'" by (simp_all add: hex_def)
    moreover have "length (hex_byte x) = length (hex_byte y)" by (simp add: hex_byte_def)
    ultimately show ?thesis using Cons.IH [of b'] Cons by simp
  qed (simp add: hex_def hex_byte_def)
qed

section \<open>Prefix codes\<close>

text \<open>
  The interface of a self-delimiting encoding: on the values it is used for (\<open>fits\<close>), a byte string
  that starts with a code word starts with one only.
\<close>

locale prefix_code =
  fixes enc :: "'a \<Rightarrow> byte list" and fits :: "'a \<Rightarrow> bool"
  assumes prefix: "fits x \<Longrightarrow> fits y \<Longrightarrow> enc x @ r = enc y @ s \<Longrightarrow> x = y \<and> r = s"
begin

lemma prefix_iff: "fits x \<Longrightarrow> fits y \<Longrightarrow> enc x @ r = enc y @ s \<longleftrightarrow> x = y \<and> r = s"
  using prefix by blast

lemma inject: "fits x \<Longrightarrow> fits y \<Longrightarrow> enc x = enc y \<longleftrightarrow> x = y"
  using prefix [of x y "[]" "[]"] by auto

lemma prefix_concat:
  "list_all fits xs \<Longrightarrow> list_all fits ys \<Longrightarrow> length xs = length ys \<Longrightarrow>
   concat (map enc xs) @ r = concat (map enc ys) @ s \<longleftrightarrow> xs = ys \<and> r = s"
proof (induction xs ys rule: list_induct2')
  case (4 x xs y ys)
  then show ?case using prefix_iff [of x y] by auto
qed auto

end

text \<open>Code words that are never empty can be concatenated without a count.\<close>

locale nonempty_code = prefix_code +
  assumes nonempty: "enc x \<noteq> []"
begin

lemma concat_inject:
  "list_all fits xs \<Longrightarrow> list_all fits ys \<Longrightarrow> concat (map enc xs) = concat (map enc ys) \<longleftrightarrow> xs = ys"
proof (induction xs arbitrary: ys)
  case Nil
  then show ?case using nonempty by (cases ys) auto
next
  case (Cons x xs)
  then show ?case using nonempty prefix_iff by (cases ys) auto
qed

end

lemma fixed_width_prefix:
  assumes "length a = length b" shows "a @ r = b @ s \<longleftrightarrow> a = b \<and> r = s"
  using assms by (rule append_eq_append_conv [OF disjI1])

text \<open>A field framed by its length in a given number of bytes.\<close>

definition framed :: "nat \<Rightarrow> byte list \<Rightarrow> byte list" where
  "framed n bs = be_bytes n (length bs) @ bs"

lemma framed_prefix:
  assumes "length x < 256 ^ n" and "length y < 256 ^ n"
  shows "framed n x @ r = framed n y @ s \<longleftrightarrow> x = y \<and> r = s"
  using assms by (auto simp: framed_def fixed_width_prefix be_bytes_inject)

definition fits_u64 :: "byte list \<Rightarrow> bool" where "fits_u64 bs \<longleftrightarrow> length bs < 256 ^ 8"

interpretation frame64: prefix_code "framed 8" fits_u64
  by unfold_locales (metis fits_u64_def framed_prefix)

interpretation word64: prefix_code be_u64 "\<lambda>_. True"
  by unfold_locales (simp add: fixed_width_prefix)

end
