(* ===== verification/Domain.thy ===== *)
theory Domain
  imports Bytes Ordered_Map
begin

text \<open>
  The shared vocabulary of the controller and the agents (\<^verbatim>\<open>crates/domain/src\<close>): scheduling
  capabilities and digest-pinned images (\<open>lib.rs\<close>), the bounded cache, input and checkout intents
  with their binding capabilities and assignment digests (\<open>cache_intent.rs\<close>,
  \<open>input_intent.rs\<close>, \<open>source_intent.rs\<close>) and notification targets (\<open>notifications.rs\<close>).

  The hash, the base64 engine and the UUID parser are other packages: they are the fields of a
  record that the definitions take as their first argument.
\<close>

record externals =
  sha256 :: "byte list \<Rightarrow> byte list"
  b64_decode :: "string \<Rightarrow> byte list option"
  b64_encode :: "byte list \<Rightarrow> string"
  uuid_parse :: "string \<Rightarrow> byte list option"
  uuid_show :: "byte list \<Rightarrow> string"

section \<open>Scheduling capabilities\<close>

definition SUPPORTED_PLATFORMS :: "string list" where
  "SUPPORTED_PLATFORMS = [''linux'', ''windows'']"

definition platform_capability :: "string \<Rightarrow> string" where
  "platform_capability platform = ''platform:'' @ platform"

definition is_supported_platform :: "string \<Rightarrow> bool" where
  "is_supported_platform platform \<longleftrightarrow> platform \<in> set SUPPORTED_PLATFORMS"

datatype embedded_worker_capabilities = Disabled | Schedulable "string list"

datatype embedded_worker_capability_error =
    EmptyDeclaration
  | DisableSentinelNotAlone "string list"
  | NoSchedulablePlatform "string list"
  | UnsupportedPlatform string string

definition check_platform_token :: "string \<Rightarrow> (unit, embedded_worker_capability_error) result" where
  "check_platform_token c =
     (case strip_prefix ''platform:'' c of
        None \<Rightarrow> Ok ()
      | Some platform \<Rightarrow>
          if \<not> is_supported_platform platform then Err (UnsupportedPlatform c platform) else Ok ())"

definition classify_embedded_worker_capabilities ::
  "string list \<Rightarrow> (embedded_worker_capabilities, embedded_worker_capability_error) result" where
  "classify_embedded_worker_capabilities declared =
     (if declared = [] then Err EmptyDeclaration
      else if list_ex (\<lambda>c. c = ''disabled'') declared then
        (if length declared = 1 then Ok Disabled else Err (DisableSentinelNotAlone declared))
      else and_then (for_each check_platform_token declared) (\<lambda>_.
        if list_ex (\<lambda>p. list_ex (\<lambda>c. c = platform_capability p) declared) SUPPORTED_PLATFORMS
        then Ok (Schedulable declared)
        else Err (NoSchedulablePlatform declared)))"

section \<open>Digest-pinned images\<close>

definition host_like :: "string \<Rightarrow> bool" where
  "host_like c \<longleftrightarrow> c \<noteq> [] \<and>
     list_all (\<lambda>b. is_ascii_lowercase b \<or> is_ascii_digit b \<or> b = CHR ''.'' \<or> b = CHR ''-'') c"

definition path_like :: "string \<Rightarrow> bool" where
  "path_like c \<longleftrightarrow> c \<noteq> [] \<and>
     list_all (\<lambda>b. is_ascii_lowercase b \<or> is_ascii_digit b \<or> b = CHR ''.'' \<or> b = CHR ''-'' \<or> b = CHR ''_'') c"

definition first_component_ok :: "string \<Rightarrow> string list \<Rightarrow> bool" where
  "first_component_ok first rest =
     (case split_once CHR '':'' first of
        Some (host, port) \<Rightarrow> rest \<noteq> [] \<and> host_like host \<and> port \<noteq> [] \<and> list_all is_ascii_digit port
      | None \<Rightarrow>
          if CHR ''.'' \<in> set first \<or> first = ''localhost'' then rest \<noteq> [] \<and> host_like first
          else path_like first)"

definition is_digest_pinned_image :: "string \<Rightarrow> bool" where
  "is_digest_pinned_image reference =
     (if reference = [] \<or> length reference > 512 then False
      else case split_once CHR ''@'' reference of
        None \<Rightarrow> False
      | Some (name, digest) \<Rightarrow>
          (case strip_prefix ''sha256:'' digest of
             None \<Rightarrow> False
           | Some h \<Rightarrow>
               if length h \<noteq> 64 \<or> \<not> list_all is_lower_hex h then False
               else case split_on CHR ''/'' name of
                 [] \<Rightarrow> False
               | first # rest \<Rightarrow>
                   first_component_ok first rest \<and> \<not> ends_with ''/'' name \<and> list_all path_like rest))"

section \<open>Identities\<close>

definition canonical_sha256 :: "string \<Rightarrow> bool" where
  "canonical_sha256 v \<longleftrightarrow> length v = 64 \<and> list_all is_lower_hex v"

definition canonical_mapping_id :: "string \<Rightarrow> bool" where
  "canonical_mapping_id v \<longleftrightarrow> v \<noteq> [] \<and> length v \<le> 128 \<and>
     list_all (\<lambda>b. is_ascii_alphanumeric b \<or> b = CHR ''-'' \<or> b = CHR ''_'' \<or> b = CHR ''.'') v"

text \<open>\<open>digest.strip_prefix("sha256:").is_some_and(canonical_sha256)\<close>.\<close>

definition sha256_reference :: "string \<Rightarrow> bool" where
  "sha256_reference digest =
     (case strip_prefix ''sha256:'' digest of None \<Rightarrow> False | Some h \<Rightarrow> canonical_sha256 h)"

text \<open>What a hasher has consumed after a domain string and a sequence of length-framed fields.\<close>

definition hash_fields :: "string \<Rightarrow> byte list list \<Rightarrow> byte list" where
  "hash_fields label parts = as_bytes label @ [0] @ concat (map (framed 8) parts)"

section \<open>Cache intents\<close>

datatype cache_operation = Cache_Read | Cache_Publish

record cache_intent_spec =
  ci_mapping_id :: string
  ci_mapping_digest :: string
  ci_operation :: cache_operation
  ci_logical_key_sha256 :: string
  ci_input_sha256 :: string
  ci_content_base64 :: "string option"
  ci_timeout_seconds :: u64

definition cache_operation_code :: "cache_operation \<Rightarrow> byte" where
  "cache_operation_code oper = (case oper of Cache_Read \<Rightarrow> 1 | Cache_Publish \<Rightarrow> 2)"

definition cache_binding_preimage :: "string \<Rightarrow> string \<Rightarrow> cache_operation \<Rightarrow> byte list" where
  "cache_binding_preimage mapping_id mapping_digest oper =
     hash_fields ''mcloving.cache-binding-capability/v1'' [as_bytes mapping_id, as_bytes mapping_digest]
     @ [cache_operation_code oper]"

definition cache_binding_capability ::
  "externals \<Rightarrow> string \<Rightarrow> string \<Rightarrow> cache_operation \<Rightarrow> (string, string) result" where
  "cache_binding_capability ext mapping_id mapping_digest oper =
     (if \<not> canonical_mapping_id mapping_id \<or> \<not> sha256_reference mapping_digest
      then Err ''mapping capability identity''
      else Ok (''sealed-cache-binding-v1-'' @
        hex (sha256 ext (cache_binding_preimage mapping_id mapping_digest oper))))"

definition decoded_content :: "externals \<Rightarrow> cache_intent_spec \<Rightarrow> (byte list option, string) result" where
  "decoded_content ext s =
     (case (ci_operation s, ci_content_base64 s) of
        (Cache_Read, None) \<Rightarrow> Ok None
      | (Cache_Publish, Some encoded) \<Rightarrow>
          if length encoded > 16 * 1024 then Err ''content bound''
          else and_then (ok_or ''base64'' (b64_decode ext encoded)) (\<lambda>bytes.
            if length bytes > 12 * 1024 \<or> b64_encode ext bytes \<noteq> encoded
            then Err ''noncanonical or oversized content''
            else Ok (Some bytes))
      | _ \<Rightarrow> Err ''content presence does not match operation'')"

definition validate_cache_intent :: "externals \<Rightarrow> cache_intent_spec \<Rightarrow> (unit, string) result" where
  "validate_cache_intent ext s =
     (if \<not> canonical_mapping_id (ci_mapping_id s) then Err ''mapping identifier''
      else if \<not> sha256_reference (ci_mapping_digest s) \<or> \<not> canonical_sha256 (ci_logical_key_sha256 s)
        \<or> \<not> canonical_sha256 (ci_input_sha256 s) then Err ''digest''
      else if \<not> (1 \<le> ci_timeout_seconds s \<and> ci_timeout_seconds s \<le> 60) then Err ''timeout''
      else and_then (decoded_content ext s) (\<lambda>_. Ok ()))"

record cache_work_context =
  wc_organization_id :: string
  wc_project_id :: string
  wc_pipeline_id :: string
  wc_build_id :: string
  wc_node_id :: string
  wc_attempt_id :: string
  wc_fence_token :: u64

definition context_ids :: "cache_work_context \<Rightarrow> string list" where
  "context_ids c = [wc_organization_id c, wc_project_id c, wc_pipeline_id c, wc_build_id c, wc_node_id c, wc_attempt_id c]"

definition validate_work_identity :: "externals \<Rightarrow> string \<Rightarrow> (unit, string) result" where
  "validate_work_identity ext v =
     and_then (ok_or ''work identity'' (uuid_parse ext v)) (\<lambda>uuid.
       if list_all (\<lambda>b. b = 0) uuid \<or> uuid_show ext uuid \<noteq> v then Err ''noncanonical work identity'' else Ok ())"

definition validate_work_context :: "externals \<Rightarrow> cache_work_context \<Rightarrow> (unit, string) result" where
  "validate_work_context ext c =
     and_then (for_each (validate_work_identity ext) (context_ids c)) (\<lambda>_.
       if wc_fence_token c = 0 then Err ''fence'' else Ok ())"

definition assignment_preimage :: "string \<Rightarrow> byte list \<Rightarrow> cache_work_context \<Rightarrow> byte list" where
  "assignment_preimage label execution_spec_json c =
     hash_fields label (map as_bytes (context_ids c) @ [execution_spec_json]) @ be_u64 (wc_fence_token c)"

definition cache_assignment_digest :: "externals \<Rightarrow> byte list \<Rightarrow> cache_work_context \<Rightarrow> byte list" where
  "cache_assignment_digest ext execution_spec_json c =
     sha256 ext (assignment_preimage ''mcloving.cache-assignment/v1'' execution_spec_json c)"

section \<open>Input intents\<close>

record input_intent_spec =
  ii_mapping_id :: string
  ii_mapping_digest :: string
  ii_timeout_seconds :: u64

definition validate_input_intent :: "input_intent_spec \<Rightarrow> (unit, string) result" where
  "validate_input_intent s =
     (if \<not> canonical_mapping_id (ii_mapping_id s) then Err ''mapping identifier''
      else if \<not> sha256_reference (ii_mapping_digest s) then Err ''digest''
      else if \<not> (1 \<le> ii_timeout_seconds s \<and> ii_timeout_seconds s \<le> 60) then Err ''timeout''
      else Ok ())"

definition input_binding_preimage :: "string \<Rightarrow> string \<Rightarrow> byte list" where
  "input_binding_preimage mapping_id mapping_digest =
     hash_fields ''mcloving.input-binding-capability/v1'' [as_bytes mapping_id, as_bytes mapping_digest]"

definition input_binding_capability :: "externals \<Rightarrow> string \<Rightarrow> string \<Rightarrow> (string, string) result" where
  "input_binding_capability ext mapping_id mapping_digest =
     (if \<not> canonical_mapping_id mapping_id \<or> \<not> sha256_reference mapping_digest
      then Err ''mapping capability identity''
      else Ok (''sealed-input-binding-v1-'' @ hex (sha256 ext (input_binding_preimage mapping_id mapping_digest))))"

definition input_assignment_digest :: "externals \<Rightarrow> byte list \<Rightarrow> cache_work_context \<Rightarrow> byte list" where
  "input_assignment_digest ext execution_spec_json c =
     sha256 ext (assignment_preimage ''mcloving.input-assignment/v1'' execution_spec_json c)"

text \<open>A version 8 UUID from a digest: the version and the variant bits are set.\<close>

definition input_capture_id :: "externals \<Rightarrow> byte list \<Rightarrow> byte list" where
  "input_capture_id ext assignment_digest =
     (let digest = sha256 ext (as_bytes ''mcloving.input-capture-id/v1'' @ [0] @ assignment_digest);
          bytes = take 16 digest;
          bytes = bytes[6 := or (and (bytes ! 6) 0x0f) 0x80];
          bytes = bytes[8 := or (and (bytes ! 8) 0x3f) 0x80]
      in bytes)"

section \<open>Checkout steps\<close>

record checkout_step_spec =
  co_mapping_id :: string
  co_mapping_digest :: string
  co_reference :: string
  co_commit :: string
  co_destination :: string
  co_timeout_seconds :: u64

definition source_binding_preimage :: "string \<Rightarrow> string \<Rightarrow> byte list" where
  "source_binding_preimage mapping_id mapping_digest =
     hash_fields ''mcloving.source-binding-capability/v1'' [as_bytes mapping_id, as_bytes mapping_digest]"

definition source_binding_capability :: "externals \<Rightarrow> string \<Rightarrow> string \<Rightarrow> (string, string) result" where
  "source_binding_capability ext mapping_id mapping_digest =
     (if \<not> canonical_mapping_id mapping_id \<or> \<not> sha256_reference mapping_digest
      then Err ''mapping capability identity''
      else Ok (''sealed-source-binding-v1-'' @ hex (sha256 ext (source_binding_preimage mapping_id mapping_digest))))"

definition is_valid_reference :: "string \<Rightarrow> bool" where
  "is_valid_reference r \<longleftrightarrow>
     starts_with ''refs/'' r \<and> length r \<le> 256 \<and> \<not> ends_with ''/'' r \<and> \<not> ends_with ''.'' r \<and>
     \<not> ends_with ''.lock'' r \<and> \<not> contains_str ''..'' r \<and> \<not> contains_str [CHR ''@'', CHR 0x7B] r \<and> \<not> contains_str ''//'' r \<and>
     \<not> list_ex (\<lambda>b. code b \<le> 32 \<or> code b = 127 \<or> b \<in> set (''~^:?*['' @ [CHR 0x5C])) r"

definition is_object_id :: "string \<Rightarrow> bool" where
  "is_object_id v \<longleftrightarrow> (length v = 40 \<or> length v = 64) \<and> list_all is_lower_hex v"

definition is_valid_destination :: "string \<Rightarrow> bool" where
  "is_valid_destination v \<longleftrightarrow> v \<noteq> [] \<and> length v \<le> 64 \<and> \<not> starts_with ''.'' v \<and>
     list_all (\<lambda>b. is_ascii_alphanumeric b \<or> b = CHR ''-'' \<or> b = CHR ''_'' \<or> b = CHR ''.'') v \<and>
     v \<notin> set [''spool'']"

definition validate_checkout :: "checkout_step_spec \<Rightarrow> (unit, string) result" where
  "validate_checkout s =
     (if \<not> canonical_mapping_id (co_mapping_id s) then Err ''mapping identifier''
      else if \<not> sha256_reference (co_mapping_digest s) then Err ''digest''
      else if \<not> is_valid_reference (co_reference s) then Err ''reference''
      else if \<not> is_object_id (co_commit s) then Err ''commit''
      else if \<not> is_valid_destination (co_destination s) then Err ''destination''
      else if \<not> (1 \<le> co_timeout_seconds s \<and> co_timeout_seconds s \<le> 3600) then Err ''timeout''
      else Ok ())"

section \<open>Connector intents\<close>

datatype connector_effect_class = Idempotent | ExternallyIdempotent | NonIdempotent

datatype json_field_type = J_Array | J_Boolean | J_Null | J_Number | J_Object | J_String

datatype ambiguity_policy = ObserveThenReconcile

section \<open>Notification targets\<close>

datatype notify_target =
    GithubStatus (nt_mapping_id: string) (nt_commit: string) (nt_context: string) (nt_repository: "string option")
  | Webhook (nt_mapping_id: string)

definition nt_kind :: "notify_target \<Rightarrow> string" where
  "nt_kind t = (case t of GithubStatus _ _ _ _ \<Rightarrow> ''github_status'' | Webhook _ \<Rightarrow> ''webhook'')"

definition is_commit_id :: "string \<Rightarrow> bool" where
  "is_commit_id v \<longleftrightarrow> 7 \<le> length v \<and> length v \<le> 128 \<and> list_all is_lower_hex v"

definition is_status_context :: "string \<Rightarrow> bool" where
  "is_status_context v \<longleftrightarrow> v \<noteq> [] \<and> length v \<le> 255 \<and> trim v = v \<and>
     list_all (\<lambda>b. 0x20 \<le> code b \<and> code b < 0x7f) v"

definition repository_part_ok :: "string \<Rightarrow> bool" where
  "repository_part_ok part \<longleftrightarrow> 1 \<le> length part \<and> length part \<le> 100 \<and> \<not> starts_with ''.'' part \<and>
     list_all (\<lambda>b. is_ascii_alphanumeric b \<or> b = CHR ''.'' \<or> b = CHR ''_'' \<or> b = CHR ''-'') part"

definition is_repository_identity :: "string \<Rightarrow> bool" where
  "is_repository_identity v =
     (case split_once CHR ''/'' v of
        None \<Rightarrow> False
      | Some (owner, name) \<Rightarrow> list_all repository_part_ok [owner, name])"

definition validate_target :: "notify_target \<Rightarrow> (unit, string) result" where
  "validate_target t =
     (if \<not> canonical_mapping_id (nt_mapping_id t) then Err ''mapping identifier''
      else case t of
        Webhook _ \<Rightarrow> Ok ()
      | GithubStatus _ commit context repository \<Rightarrow>
          if \<not> is_commit_id commit then Err ''commit must be 7 to 128 lowercase hexadecimal digits''
          else if \<not> is_status_context context then
            Err ''context must be 1 to 255 printable ASCII characters without leading or trailing whitespace''
          else case repository of
            None \<Rightarrow> Ok ()
          | Some r \<Rightarrow> if \<not> is_repository_identity r then Err ''repository must be owner/name'' else Ok ())"

definition validate_targets :: "notify_target list \<Rightarrow> (unit, string) result" where
  "validate_targets targets =
     (if length targets > 8 then Err ''too many notification targets'' else for_each validate_target targets)"

section \<open>What a digest commits to\<close>

lemma as_bytes_no_nul: "CHR 0x00 \<notin> set s \<Longrightarrow> (0 :: byte) \<notin> set (as_bytes s)"
proof
  assume nul: "CHR 0x00 \<notin> set s" and "(0 :: byte) \<in> set (as_bytes s)"
  then obtain c where c: "c \<in> set s" "byte_of_char c = 0" by (auto simp: as_bytes_def)
  then have "code c = 0" by (metis unat_0 unat_byte_of_char)
  then have "code c = code (CHR 0x00)" by simp
  then have "c = CHR 0x00" by (simp only: of_char_eq_iff)
  with c nul show False by simp
qed

lemma terminated_prefix:
  "x @ a # r = y @ a # s \<Longrightarrow> a \<notin> set x \<Longrightarrow> a \<notin> set y \<Longrightarrow> x = y \<and> r = s"
proof (induction x arbitrary: y)
  case Nil
  then show ?case by (cases y) auto
next
  case (Cons b x)
  then show ?case by (cases y) auto
qed

lemma hash_fields_prefix:
  assumes "CHR 0x00 \<notin> set l" "CHR 0x00 \<notin> set l'" "list_all fits_u64 ps" "list_all fits_u64 qs"
    and "length ps = length qs"
  shows "hash_fields l ps @ r = hash_fields l' qs @ s \<longleftrightarrow> l = l' \<and> ps = qs \<and> r = s"
proof
  assume "hash_fields l ps @ r = hash_fields l' qs @ s"
  then have "as_bytes l @ 0 # concat (map (framed 8) ps) @ r = as_bytes l' @ 0 # concat (map (framed 8) qs) @ s"
    by (simp add: hash_fields_def)
  then have "as_bytes l = as_bytes l' \<and> concat (map (framed 8) ps) @ r = concat (map (framed 8) qs) @ s"
    by (rule terminated_prefix) (rule as_bytes_no_nul, fact)+
  then show "l = l' \<and> ps = qs \<and> r = s"
    using assms by (simp add: frame64.prefix_concat)
qed simp

text \<open>
  Several values are hashed under a label: the digest identifies the value among those whose
  preimages the hash does not collide on.
\<close>

locale hashed_identity =
  fixes preimage :: "'a \<Rightarrow> byte list" and fits :: "'a \<Rightarrow> bool"
  assumes preimage_inject: "fits x \<Longrightarrow> fits y \<Longrightarrow> preimage x = preimage y \<Longrightarrow> x = y"
begin

lemma digest_identifies:
  assumes "inj_on h M" and "preimage x \<in> M" and "preimage y \<in> M" and "fits x" and "fits y"
  shows "h (preimage x) = h (preimage y) \<longleftrightarrow> x = y"
  using assms preimage_inject by (metis inj_onD)

lemma capability_identifies:
  assumes "inj_on h M" and "preimage x \<in> M" and "preimage y \<in> M" and "fits x" and "fits y"
  shows "tag @ hex (h (preimage x)) = tag @ hex (h (preimage y)) \<longleftrightarrow> x = y"
  using digest_identifies [OF assms] by simp

end

definition mapping_identity :: "string \<times> string \<Rightarrow> bool" where
  "mapping_identity m \<longleftrightarrow> canonical_mapping_id (fst m) \<and> sha256_reference (snd m)"

lemma sha256_reference_iff: "sha256_reference d \<longleftrightarrow> (\<exists>h. d = ''sha256:'' @ h \<and> canonical_sha256 h)"
  unfolding sha256_reference_def
  by (cases "strip_prefix ''sha256:'' d") (auto simp del: append.simps(2) simp: strip_prefix_eq_Some)

lemma mapping_identity_fits:
  "mapping_identity m \<Longrightarrow> list_all fits_u64 [as_bytes (fst m), as_bytes (snd m)]"
  by (auto simp: mapping_identity_def sha256_reference_iff canonical_mapping_id_def canonical_sha256_def fits_u64_def)

interpretation cache_binding: hashed_identity
  "\<lambda>(m, oper). cache_binding_preimage (fst m) (snd m) oper" "\<lambda>(m, oper). mapping_identity m"
proof
  fix x y :: "(string \<times> string) \<times> cache_operation"
  obtain m a n b where xy: "x = (m, a)" "y = (n, b)" by (cases x, cases y)
  assume "case x of (m, oper) \<Rightarrow> mapping_identity m" "case y of (m, oper) \<Rightarrow> mapping_identity m"
  then have "list_all fits_u64 [as_bytes (fst m), as_bytes (snd m)]" "list_all fits_u64 [as_bytes (fst n), as_bytes (snd n)]"
    unfolding xy by (simp_all only: prod.case mapping_identity_fits)
  moreover assume "(case x of (m, oper) \<Rightarrow> cache_binding_preimage (fst m) (snd m) oper) =
    (case y of (m, oper) \<Rightarrow> cache_binding_preimage (fst m) (snd m) oper)"
  ultimately have "[as_bytes (fst m), as_bytes (snd m)] = [as_bytes (fst n), as_bytes (snd n)] \<and>
      cache_operation_code a = cache_operation_code b"
    unfolding xy prod.case cache_binding_preimage_def by (subst (asm) hash_fields_prefix) simp_all
  then show "x = y"
    unfolding xy by (cases a; cases b) (auto simp: cache_operation_code_def prod_eq_iff)
qed

interpretation input_binding: hashed_identity "\<lambda>m. input_binding_preimage (fst m) (snd m)" mapping_identity
proof
  fix m n assume "mapping_identity m" "mapping_identity n"
    and "input_binding_preimage (fst m) (snd m) = input_binding_preimage (fst n) (snd n)"
  then show "m = n"
    using hash_fields_prefix [OF _ _ mapping_identity_fits mapping_identity_fits, of _ _ m n "[]" "[]"]
    by (simp add: input_binding_preimage_def prod_eq_iff)
qed

interpretation source_binding: hashed_identity "\<lambda>m. source_binding_preimage (fst m) (snd m)" mapping_identity
proof
  fix m n assume "mapping_identity m" "mapping_identity n"
    and "source_binding_preimage (fst m) (snd m) = source_binding_preimage (fst n) (snd n)"
  then show "m = n"
    using hash_fields_prefix [OF _ _ mapping_identity_fits mapping_identity_fits, of _ _ m n "[]" "[]"]
    by (simp add: source_binding_preimage_def prod_eq_iff)
qed

text \<open>An assignment: the payload and the context, each field short enough for its 64-bit length.\<close>

definition assignment_fits :: "byte list \<times> cache_work_context \<Rightarrow> bool" where
  "assignment_fits a \<longleftrightarrow> list_all fits_u64 (map as_bytes (context_ids (snd a)) @ [fst a])"

lemma context_ids_inject:
  "context_ids c = context_ids d \<Longrightarrow> wc_fence_token c = wc_fence_token d \<Longrightarrow> c = d" for c d :: cache_work_context
  by (simp add: context_ids_def)

lemma assignment_preimage_inject:
  assumes "assignment_fits (j, c)" "assignment_fits (k, d)" "CHR 0x00 \<notin> set l" "CHR 0x00 \<notin> set l'"
  shows "assignment_preimage l j c = assignment_preimage l' k d \<longleftrightarrow> l = l' \<and> j = k \<and> c = d"
proof
  have len: "length (map as_bytes (context_ids c) @ [j]) = length (map as_bytes (context_ids d) @ [k])"
    by (simp add: context_ids_def)
  assume "assignment_preimage l j c = assignment_preimage l' k d"
  then have "l = l'" "map as_bytes (context_ids c) @ [j] = map as_bytes (context_ids d) @ [k]"
      "be_u64 (wc_fence_token c) = be_u64 (wc_fence_token d)"
    using hash_fields_prefix [OF assms(3,4) assms(1,2) [unfolded assignment_fits_def fst_conv snd_conv] len]
    by (simp_all add: assignment_preimage_def)
  moreover from this have "context_ids c = context_ids d"
    by (auto intro: map_injective [OF _ injI])
  ultimately show "l = l' \<and> j = k \<and> c = d"
    by (simp add: context_ids_inject)
qed simp

interpretation cache_assignment: hashed_identity
  "\<lambda>(j, c). assignment_preimage ''mcloving.cache-assignment/v1'' j c" assignment_fits
  by unfold_locales (auto simp: assignment_preimage_inject)

interpretation input_assignment: hashed_identity
  "\<lambda>(j, c). assignment_preimage ''mcloving.input-assignment/v1'' j c" assignment_fits
  by unfold_locales (auto simp: assignment_preimage_inject)

section \<open>The grammar of digest-pinned images\<close>

definition registry_host :: "string \<Rightarrow> bool" where
  "registry_host c \<longleftrightarrow> host_like c \<and> (CHR ''.'' \<in> set c \<or> c = ''localhost'') \<or>
     (\<exists>host port. c = host @ '':'' @ port \<and> host_like host \<and> port \<noteq> [] \<and> list_all is_ascii_digit port)"

definition plain_component :: "string \<Rightarrow> bool" where
  "plain_component c \<longleftrightarrow> path_like c \<and> CHR ''.'' \<notin> set c \<and> c \<noteq> ''localhost''"

text \<open>A repository name: an optional registry, then path components, none of them with a tag.\<close>

definition image_name :: "string list \<Rightarrow> bool" where
  "image_name cs \<longleftrightarrow> (\<exists>first rest. cs = first # rest \<and> list_all path_like rest \<and>
     (plain_component first \<or> registry_host first \<and> rest \<noteq> []))"

lemma like_chars:
  assumes "host_like c \<or> path_like c \<or> list_all is_ascii_digit c"
  shows "CHR '':'' \<notin> set c \<and> CHR ''/'' \<notin> set c \<and> CHR ''@'' \<notin> set c"
proof -
  have sep: "\<not> is_ascii_lowercase b" "\<not> is_ascii_digit b" "b \<noteq> CHR ''.''" "b \<noteq> CHR ''-''" "b \<noteq> CHR ''_''"
    if "b \<in> {CHR '':'', CHR ''/'', CHR ''@''}" for b
    using that by (auto simp: ascii_defs)
  have "b \<notin> set c" if "b \<in> {CHR '':'', CHR ''/'', CHR ''@''}" for b
    using sep [OF that] assms by (auto simp: host_like_def path_like_def list_all_iff)
  then show ?thesis by simp
qed

lemma first_component_ok_iff:
  "first_component_ok first rest \<longleftrightarrow> plain_component first \<or> registry_host first \<and> rest \<noteq> []"
proof (cases "split_once CHR '':'' first")
  case None
  then have "CHR '':'' \<notin> set first" by (simp add: split_once_eq_None)
  then have "\<nexists>host port. first = host @ '':'' @ port" by auto
  with None show ?thesis
    by (auto simp: first_component_ok_def plain_component_def registry_host_def)
next
  case (Some hp)
  obtain host port where hp: "hp = (host, port)" by force
  with Some have f: "first = host @ CHR '':'' # port" "CHR '':'' \<notin> set host" by (simp_all add: split_once_eq_Some)
  then have no: "\<not> host_like first" "\<not> path_like first" using like_chars [of first] by auto
  have unique: "h = host \<and> p = port" if "first = h @ '':'' @ p" "host_like h" for h p
    using terminated_prefix [of h "CHR '':''" p host port] f that like_chars [of h] by simp
  have "registry_host first \<longleftrightarrow> host_like host \<and> port \<noteq> [] \<and> list_all is_ascii_digit port"
  proof
    assume "registry_host first"
    with no obtain h p where "first = h @ '':'' @ p" "host_like h" "p \<noteq> []" "list_all is_ascii_digit p"
      unfolding registry_host_def by blast
    with unique [of h p] show "host_like host \<and> port \<noteq> [] \<and> list_all is_ascii_digit port" by blast
  next
    assume "host_like host \<and> port \<noteq> [] \<and> list_all is_ascii_digit port"
    moreover have "first = host @ '':'' @ port" using f(1) by simp
    ultimately show "registry_host first" unfolding registry_host_def by blast
  qed
  moreover have "first_component_ok first rest \<longleftrightarrow>
      rest \<noteq> [] \<and> host_like host \<and> port \<noteq> [] \<and> list_all is_ascii_digit port"
    unfolding first_component_ok_def Some hp by simp
  moreover have "\<not> plain_component first" using no by (simp add: plain_component_def)
  ultimately show ?thesis by blast
qed

lemma image_name_chars:
  assumes "image_name cs"
  shows "cs \<noteq> [] \<and> (\<forall>c\<in>set cs. c \<noteq> [] \<and> CHR ''/'' \<notin> set c \<and> CHR ''@'' \<notin> set c)"
proof -
  have "c \<noteq> [] \<and> CHR ''/'' \<notin> set c \<and> CHR ''@'' \<notin> set c" if "path_like c \<or> registry_host c" for c
    using that like_chars by (fastforce simp: registry_host_def path_like_def host_like_def)
  with assms show ?thesis by (fastforce simp: image_name_def plain_component_def list_all_iff)
qed

lemma last_join: "ps \<noteq> [] \<Longrightarrow> last ps \<noteq> [] \<Longrightarrow> join d ps \<noteq> [] \<and> last (join d ps) = last (last ps)"
  by (induction d ps rule: join.induct) auto

lemma join_not_slash:
  assumes "image_name cs" shows "\<not> ends_with ''/'' (join ''/'' cs)"
proof -
  have "last cs \<in> set cs" using image_name_chars [OF assms] by simp
  then have l: "last cs \<noteq> []" "CHR ''/'' \<notin> set (last cs)" using image_name_chars [OF assms] by auto
  have "join ''/'' cs \<noteq> []" "last (join ''/'' cs) = last (last cs)"
    using last_join [of cs "''/''"] image_name_chars [OF assms] l by auto
  with l show ?thesis by (auto simp: ends_with_iff dest: last_in_set)
qed

lemma digest_pinned_image_iff:
  "is_digest_pinned_image r \<longleftrightarrow> length r \<le> 512 \<and>
     (\<exists>cs h. image_name cs \<and> canonical_sha256 h \<and> r = join ''/'' cs @ ''@sha256:'' @ h)"
proof
  assume r: "is_digest_pinned_image r"
  then obtain name digest where nd: "split_once CHR ''@'' r = Some (name, digest)"
    by (auto simp: is_digest_pinned_image_def split: if_splits option.splits)
  with r obtain h where h: "strip_prefix ''sha256:'' digest = Some h"
    by (auto simp: is_digest_pinned_image_def split: if_splits option.splits)
  obtain first rest where cs: "split_on CHR ''/'' name = first # rest" by (cases "split_on CHR ''/'' name") simp_all
  from r nd h cs have ok: "length r \<le> 512" "canonical_sha256 h" "first_component_ok first rest" "list_all path_like rest"
    by (auto simp: is_digest_pinned_image_def canonical_sha256_def split: if_splits)
  have "r = join ''/'' (first # rest) @ ''@sha256:'' @ h"
    using nd h join_split_on [of "CHR ''/''" name] unfolding cs strip_prefix_eq_Some split_once_eq_Some by simp
  moreover have "image_name (first # rest)" using ok by (auto simp: image_name_def first_component_ok_iff)
  ultimately show "length r \<le> 512 \<and> (\<exists>cs h. image_name cs \<and> canonical_sha256 h \<and> r = join ''/'' cs @ ''@sha256:'' @ h)"
    using ok by blast
next
  assume "length r \<le> 512 \<and> (\<exists>cs h. image_name cs \<and> canonical_sha256 h \<and> r = join ''/'' cs @ ''@sha256:'' @ h)"
  then obtain cs h where r: "length r \<le> 512" "image_name cs" "canonical_sha256 h" "r = join ''/'' cs @ ''@sha256:'' @ h"
    by blast
  have "CHR ''@'' \<notin> set (join ''/'' cs)" using set_join [of "''/''" cs] image_name_chars [OF r(2)] by auto
  then have s1: "split_once CHR ''@'' r = Some (join ''/'' cs, ''sha256:'' @ h)"
    using r(4) by (simp add: split_once_eq_Some)
  have s2: "split_on CHR ''/'' (join ''/'' cs) = cs" using image_name_chars [OF r(2)] by (intro split_on_join) auto
  from r(2) obtain first rest where cs: "cs = first # rest" "first_component_ok first rest" "list_all path_like rest"
    by (auto simp: image_name_def first_component_ok_iff)
  have ne: "r \<noteq> []" using r(4) by simp
  show "is_digest_pinned_image r"
    unfolding is_digest_pinned_image_def s1 option.case prod.case strip_prefix_append s2
    using cs r(1,3) ne join_not_slash [OF r(2)] by (simp add: canonical_sha256_def)
qed

section \<open>Properties\<close>

text \<open>
  C28. Assignment digests bind the whole assignment: as long as the hash does not collide on the
  messages hashed, two cache assignments have the same digest only when payload, every identity
  and the fence token agree, likewise for input assignments, and a cache assignment never has the
  digest of an input assignment.
\<close>

theorem assignment_digests_bind:
  assumes "inj_on (sha256 ext) M" and "assignment_fits (j, c)" and "assignment_fits (k, d)"
    and "assignment_preimage ''mcloving.cache-assignment/v1'' j c \<in> M"
    and "assignment_preimage ''mcloving.cache-assignment/v1'' k d \<in> M"
    and "assignment_preimage ''mcloving.input-assignment/v1'' j c \<in> M"
    and "assignment_preimage ''mcloving.input-assignment/v1'' k d \<in> M"
  shows "(cache_assignment_digest ext j c = cache_assignment_digest ext k d \<longleftrightarrow> j = k \<and> c = d) \<and>
    (input_assignment_digest ext j c = input_assignment_digest ext k d \<longleftrightarrow> j = k \<and> c = d) \<and>
    cache_assignment_digest ext j c \<noteq> input_assignment_digest ext k d"
proof -
  have "cache_assignment_digest ext j c \<noteq> input_assignment_digest ext k d"
    using inj_onD [OF assms(1) _ assms(4,7)] assignment_preimage_inject [OF assms(2,3)]
    by (auto simp: cache_assignment_digest_def input_assignment_digest_def)
  with cache_assignment.digest_identifies [of "sha256 ext" M "(j, c)" "(k, d)"]
    input_assignment.digest_identifies [of "sha256 ext" M "(j, c)" "(k, d)"] assms
  show ?thesis by (simp add: cache_assignment_digest_def input_assignment_digest_def)
qed

definition sample_externals :: externals where
  "sample_externals = \<lparr>sha256 = (\<lambda>m. m), b64_decode = (\<lambda>s. Some (as_bytes s)), b64_encode = map char_of_byte,
     uuid_parse = (\<lambda>s. Some (as_bytes s)), uuid_show = map char_of_byte\<rparr>"

definition sample_context :: "u64 \<Rightarrow> cache_work_context" where
  "sample_context fence = \<lparr>wc_organization_id = ''o'', wc_project_id = ''p'', wc_pipeline_id = ''l'',
     wc_build_id = ''b'', wc_node_id = ''n'', wc_attempt_id = ''a'', wc_fence_token = fence\<rparr>"

theorem assignment_digests_bind_witness:
  "cache_assignment_digest sample_externals [] (sample_context 1) \<noteq>
   cache_assignment_digest sample_externals [] (sample_context 2)"
  using assignment_digests_bind [of sample_externals UNIV "[]" "sample_context 1" "[]" "sample_context 2"]
  by (simp add: sample_externals_def sample_context_def assignment_fits_def context_ids_def fits_u64_def)

text \<open>
  C29. Binding capabilities identify the mapping: two scheduling tokens that the cache, input and
  source binding functions issue are equal only when they come from the same function and the same
  mapping identifier, mapping digest and operation, as long as the hash does not collide.
\<close>

theorem binding_capabilities_identify:
  assumes "inj_on (sha256 ext) M"
    and "cache_binding_preimage i d oper \<in> M" and "cache_binding_preimage i' d' oper' \<in> M"
    and "input_binding_preimage i d \<in> M" and "input_binding_preimage i' d' \<in> M"
    and "source_binding_preimage i d \<in> M" and "source_binding_preimage i' d' \<in> M"
    and "cache_binding_capability ext i d oper = Ok t" and "cache_binding_capability ext i' d' oper' = Ok t'"
    and "input_binding_capability ext i d = Ok u" and "input_binding_capability ext i' d' = Ok u'"
    and "source_binding_capability ext i d = Ok v" and "source_binding_capability ext i' d' = Ok v'"
  shows "(t = t' \<longleftrightarrow> i = i' \<and> d = d' \<and> oper = oper') \<and> (u = u' \<longleftrightarrow> i = i' \<and> d = d') \<and>
    (v = v' \<longleftrightarrow> i = i' \<and> d = d') \<and> t \<noteq> u' \<and> t \<noteq> v' \<and> u \<noteq> v'"
proof -
  from assms(8-13) have ids: "mapping_identity (i, d)" "mapping_identity (i', d')"
    by (auto simp: cache_binding_capability_def mapping_identity_def split: if_splits)
  note tokens = cache_binding_capability_def input_binding_capability_def source_binding_capability_def
  have c: "t = t' \<longleftrightarrow> i = i' \<and> d = d' \<and> oper = oper'"
    using cache_binding.capability_identifies [OF assms(1), of "((i, d), oper)" "((i', d'), oper')" "''sealed-cache-binding-v1-''"]
      assms ids by (auto simp: tokens split: if_splits)
  have n: "u = u' \<longleftrightarrow> i = i' \<and> d = d'"
    using input_binding.capability_identifies [OF assms(1), of "(i, d)" "(i', d')" "''sealed-input-binding-v1-''"]
      assms ids by (auto simp: tokens split: if_splits)
  have s: "v = v' \<longleftrightarrow> i = i' \<and> d = d'"
    using source_binding.capability_identifies [OF assms(1), of "(i, d)" "(i', d')" "''sealed-source-binding-v1-''"]
      assms ids by (auto simp: tokens split: if_splits)
  have "t \<noteq> u' \<and> t \<noteq> v' \<and> u \<noteq> v'"
    using assms(8-13) by (auto simp: tokens split: if_splits)
  with c n s show ?thesis by blast
qed

definition sample_digest :: string where
  "sample_digest = ''sha256:'' @ replicate 64 CHR ''a''"

lemma sample_digest_reference: "sha256_reference sample_digest"
  unfolding sha256_reference_iff sample_digest_def
  by (rule exI [of _ "replicate 64 CHR ''a''"]) (simp add: canonical_sha256_def list_all_iff ascii_defs)

theorem binding_capabilities_identify_witness:
  "cache_binding_capability sample_externals ''m'' sample_digest Cache_Read \<noteq>
   cache_binding_capability sample_externals ''m'' sample_digest Cache_Publish"
proof -
  have "canonical_mapping_id ''m''" by (simp add: canonical_mapping_id_def ascii_defs)
  then obtain t t' u v where tokens: "cache_binding_capability sample_externals ''m'' sample_digest Cache_Read = Ok t"
    "cache_binding_capability sample_externals ''m'' sample_digest Cache_Publish = Ok t'"
    "input_binding_capability sample_externals ''m'' sample_digest = Ok u"
    "source_binding_capability sample_externals ''m'' sample_digest = Ok v"
    by (simp add: cache_binding_capability_def input_binding_capability_def source_binding_capability_def
        sample_digest_reference)
  have "inj_on (sha256 sample_externals) UNIV" by (simp add: sample_externals_def)
  from binding_capabilities_identify [OF this UNIV_I UNIV_I UNIV_I UNIV_I UNIV_I UNIV_I tokens(1,2) tokens(3,3) tokens(4,4)]
  have "t \<noteq> t'" by simp
  with tokens show ?thesis by simp
qed

text \<open>
  C30. The embedded worker fails closed: a declaration is accepted exactly when it is the lone disable
  sentinel, or when it names no sentinel, only supported platforms in the \<open>platform:\<close> namespace,
  and at least one of them.
\<close>

theorem classify_embedded_worker_accepts:
  "(classify_embedded_worker_capabilities ds = Ok Disabled \<longleftrightarrow> ds = [''disabled'']) \<and>
   (classify_embedded_worker_capabilities ds = Ok (Schedulable es) \<longleftrightarrow>
      es = ds \<and> ''disabled'' \<notin> set ds \<and>
      (\<exists>p. is_supported_platform p \<and> platform_capability p \<in> set ds) \<and>
      \<not> (\<exists>p. platform_capability p \<in> set ds \<and> \<not> is_supported_platform p))"
proof -
  have token: "check_platform_token c = Ok () \<longleftrightarrow> (\<nexists>p. c = platform_capability p \<and> \<not> is_supported_platform p)" for c
    unfolding check_platform_token_def platform_capability_def
    by (cases "strip_prefix ''platform:'' c") (auto simp del: append.simps(2) simp: strip_prefix_eq_Some)
  have loop: "for_each check_platform_token ds = Ok () \<longleftrightarrow>
      \<not> (\<exists>p. platform_capability p \<in> set ds \<and> \<not> is_supported_platform p)"
    by (auto simp: ok_simps token)
  have some: "list_ex (\<lambda>p. list_ex (\<lambda>c. c = platform_capability p) ds) SUPPORTED_PLATFORMS \<longleftrightarrow>
      (\<exists>p. is_supported_platform p \<and> platform_capability p \<in> set ds)"
    by (auto simp: list_ex_iff is_supported_platform_def)
  have sentinel: "list_ex (\<lambda>c. c = ''disabled'') ds \<longleftrightarrow> ''disabled'' \<in> set ds" by (auto simp: list_ex_iff)
  have single: "''disabled'' \<in> set ds \<and> length ds = 1 \<longleftrightarrow> ds = [''disabled'']" by (auto simp: length_Suc_conv)
  show ?thesis
    unfolding classify_embedded_worker_capabilities_def some sentinel
    using loop single by (auto simp: and_then_eq_Ok)
qed

text \<open>
  C31. Only digest-pinned images run: a reference is accepted exactly when it has at most 512 bytes
  and is a registry and path, without any tag, followed by a SHA-256 digest of 64 lower-case
  hexadecimal digits.
\<close>

theorem is_digest_pinned_image_grammar:
  "is_digest_pinned_image r \<longleftrightarrow> length r \<le> 512 \<and>
     (\<exists>first rest h. r = join ''/'' (first # rest) @ ''@sha256:'' @ h \<and> canonical_sha256 h \<and>
       list_all path_like rest \<and> (plain_component first \<or> registry_host first \<and> rest \<noteq> []))"
  unfolding digest_pinned_image_iff image_name_def by blast



end
