(* ===== verification/Artifacts.thy ===== *)
theory Artifacts
  imports Domain
begin

text \<open>
  Declared build artifacts (\<^verbatim>\<open>crates/domain/src/artifacts.rs\<close>): validation of names, patterns and
  declarations, the compiled glob matcher with its shared budget of comparisons, the classification
  of a path for collection and descent, and the set manifest with its digest.

  A matcher call that charges the budget is a function of the budget: it returns its result with
  the budget that is left, or fails when the budget is spent. The budget is a \<open>u64\<close> that is only
  ever decremented after a test for zero, so it is a natural number here.
\<close>

section \<open>Validation of declarations\<close>

record artifact_spec =
  as_name :: string
  as_paths :: "string list"

definition validate_name :: "string \<Rightarrow> (unit, string) result" where
  "validate_name name =
     (if name = [] \<or> length name > 128 then Err ''artifact name must be 1 to 128 bytes''
      else if starts_with ''.'' name then Err ''artifact name must not start with a dot''
      else if \<not> list_all (\<lambda>b. is_ascii_alphanumeric b \<or> b = CHR ''.'' \<or> b = CHR ''_'' \<or> b = CHR ''-'') name
      then Err ''artifact name must contain only ASCII letters, digits, dot, underscore, or hyphen''
      else Ok ())"

definition validate_segment :: "string \<Rightarrow> (unit, string) result" where
  "validate_segment segment =
     (if segment = [] then Err ''path pattern has an empty segment''
      else if segment = ''.'' \<or> segment = ''..'' then Err ''path pattern must not name . or ..''
      else if contains_str ''**'' segment \<and> segment \<noteq> ''**''
      then Err ''** must stand alone as a whole path segment''
      else Ok ())"

definition validate_pattern :: "string \<Rightarrow> (unit, string) result" where
  "validate_pattern pattern =
     (if pattern = [] \<or> length pattern > 512 then Err ''path pattern must be 1 to 512 bytes''
      else if list_ex is_ascii_control pattern then Err ''path pattern contains a control character''
      else if CHR 0x5C \<in> set pattern then Err ''path pattern must use forward slashes''
      else if starts_with ''/'' pattern then Err ''path pattern must be workspace-relative''
      else for_each validate_segment (split_on CHR ''/'' pattern))"

definition validate_artifact :: "artifact_spec \<Rightarrow> (unit, string) result" where
  "validate_artifact s =
     and_then (validate_name (as_name s)) (\<lambda>_.
       if as_paths s = [] then Err ''at least one path pattern is required''
       else if length (as_paths s) > 32 then Err ''too many path patterns''
       else for_each validate_pattern (as_paths s))"

definition validate_declarations :: "artifact_spec list \<Rightarrow> (unit, string) result" where
  "validate_declarations specs =
     (if length specs > 16 then Err ''too many artifact declarations''
      else for_each_index 0 (\<lambda>index spec.
        and_then (validate_artifact spec) (\<lambda>_.
          if list_ex (\<lambda>other. as_name other = as_name spec) (take index specs)
          then Err ''artifact names must be unique within a stage''
          else Ok ())) specs)"

section \<open>The matching budget\<close>

record matching_budget =
  mb_remaining :: nat
  mb_spent :: nat

type_synonym 'a charged = "matching_budget \<Rightarrow> ('a \<times> matching_budget, unit) result"

definition new_budget :: "nat \<Rightarrow> matching_budget" where
  "new_budget cells = \<lparr>mb_remaining = cells, mb_spent = 0\<rparr>"

definition charge :: "unit charged" where
  "charge b =
     (if mb_remaining b = 0 then Err ()
      else Ok ((), b\<lparr>mb_remaining := mb_remaining b - 1, mb_spent := mb_spent b + 1\<rparr>))"

definition charged_return :: "'a \<Rightarrow> 'a charged" where
  "charged_return x b = Ok (x, b)"

definition charged_bind :: "'a charged \<Rightarrow> ('a \<Rightarrow> 'b charged) \<Rightarrow> 'b charged" where
  "charged_bind m f b = and_then (m b) (\<lambda>(x, b). f x b)"

section \<open>The compiled matcher\<close>

datatype segment = Recursive | Literal "string list"

definition push_segment :: "segment list \<Rightarrow> string \<Rightarrow> segment list" where
  "push_segment segments s =
     (if s = ''**'' then
        (if segments \<noteq> [] \<and> last segments = Recursive then segments else segments @ [Recursive])
      else segments @ [Literal (chars s)])"

definition compile_pattern :: "string \<Rightarrow> segment list" where
  "compile_pattern pattern = foldl push_segment [] (split_on CHR ''/'' pattern)"

primrec charge_chars :: "string list \<Rightarrow> unit charged" where
  "charge_chars [] = charged_return ()"
| "charge_chars (c # cs) = charged_bind charge (\<lambda>_. charge_chars cs)"

text \<open>The main loop of \<open>segment_matches_compiled\<close>, then the loop over trailing stars.\<close>

function trailing_stars :: "string list \<Rightarrow> nat \<Rightarrow> bool charged" where
  "trailing_stars pattern p b =
     (if p < length pattern \<and> pattern ! p = ''*'' then
        and_then (charge b) (\<lambda>(_, b). trailing_stars pattern (p + 1) b)
      else Ok (p = length pattern, b))"
  by pat_completeness auto
termination
  by (relation "measure (\<lambda>(pattern, p, b). length pattern - p)") auto

function segment_loop ::
  "string list \<Rightarrow> string list \<Rightarrow> nat \<Rightarrow> nat \<Rightarrow> (nat \<times> nat) option \<Rightarrow> bool charged" where
  "segment_loop pattern name p n star b =
     (if n < length name then
        and_then (charge b) (\<lambda>(_, b).
          if p < length pattern \<and> (pattern ! p = ''?'' \<or> pattern ! p = name ! n)
          then segment_loop pattern name (p + 1) (n + 1) star b
          else if p < length pattern \<and> pattern ! p = ''*''
          then segment_loop pattern name (p + 1) n (Some (p, n)) b
          else case star of
            Some (sp, sn) \<Rightarrow> segment_loop pattern name (sp + 1) (sn + 1) (Some (sp, sn + 1)) b
          | None \<Rightarrow> Ok (False, b))
      else trailing_stars pattern p b)"
  by pat_completeness auto
termination
  by (relation "measure (\<lambda>(pattern, name, p, n, star, b). mb_remaining b)")
    (auto simp: charge_def split: if_splits)

declare trailing_stars.simps [simp del] segment_loop.simps [simp del]

definition segment_matches_compiled :: "string list \<Rightarrow> string \<Rightarrow> bool charged" where
  "segment_matches_compiled pattern name =
     charged_bind (charge_chars (chars name)) (\<lambda>_. segment_loop pattern (chars name) 0 0 None)"

text \<open>\<open>CompiledPattern::evaluate\<close>: the first row, one cell, one row from the right, all rows.\<close>

primrec initial_row :: "bool \<Rightarrow> nat \<Rightarrow> nat \<Rightarrow> bool list \<Rightarrow> bool list charged" where
  "initial_row descent n 0 row = charged_return row"
| "initial_row descent n (Suc k) row =
     charged_bind charge (\<lambda>_. initial_row descent n k (row @ [\<not> descent \<and> length row = n]))"

definition cell :: "segment \<Rightarrow> string list \<Rightarrow> bool \<Rightarrow> bool list \<Rightarrow> bool list \<Rightarrow> nat \<Rightarrow> bool charged" where
  "cell seg path descent nxt row j =
     (if descent \<and> j = length path then charged_return True
      else case seg of
        Recursive \<Rightarrow> charged_return (nxt ! j \<or> (j < length path \<and> row ! (j + 1)))
      | Literal p \<Rightarrow>
          if j < length path \<and> nxt ! (j + 1) then segment_matches_compiled p (path ! j)
          else charged_return False)"

primrec row_loop :: "segment \<Rightarrow> string list \<Rightarrow> bool \<Rightarrow> bool list \<Rightarrow> nat \<Rightarrow> bool list \<Rightarrow> bool list charged" where
  "row_loop seg path descent nxt 0 row = charged_return row"
| "row_loop seg path descent nxt (Suc j) row =
     charged_bind charge (\<lambda>_.
     charged_bind (cell seg path descent nxt row j) (\<lambda>v.
       row_loop seg path descent nxt j (row[j := v])))"

primrec rows :: "segment list \<Rightarrow> string list \<Rightarrow> bool \<Rightarrow> bool list \<Rightarrow> bool list charged" where
  "rows [] path descent nxt = charged_return nxt"
| "rows (seg # segs) path descent nxt =
     charged_bind (row_loop seg path descent nxt (length path + 1) (replicate (length path + 1) False))
       (rows segs path descent)"

definition evaluate_pattern :: "segment list \<Rightarrow> string list \<Rightarrow> bool \<Rightarrow> bool charged" where
  "evaluate_pattern segments path descent =
     charged_bind (initial_row descent (length path) (length path + 1) []) (\<lambda>nxt.
     charged_bind (rows (rev segments) path descent nxt) (\<lambda>nxt. charged_return (nxt ! 0)))"

definition run_unbounded :: "bool charged \<Rightarrow> bool" where
  "run_unbounded m = (case m (new_budget (2 ^ 64 - 1)) of Ok (x, _) \<Rightarrow> x | Err _ \<Rightarrow> False)"

definition pattern_matches :: "string \<Rightarrow> string \<Rightarrow> bool" where
  "pattern_matches pattern path =
     run_unbounded (evaluate_pattern (compile_pattern pattern) (split_on CHR ''/'' path) False)"

definition pattern_may_descend :: "string \<Rightarrow> string \<Rightarrow> bool" where
  "pattern_may_descend pattern path =
     run_unbounded (evaluate_pattern (compile_pattern pattern) (split_on CHR ''/'' path) True)"

definition artifact_matches :: "artifact_spec \<Rightarrow> string \<Rightarrow> bool" where
  "artifact_matches s path = list_ex (\<lambda>pattern. pattern_matches pattern path) (as_paths s)"

text \<open>\<open>CompiledArtifacts\<close> and its \<open>classify\<close>.\<close>

type_synonym compiled_artifacts = "(string \<times> segment list list) list"

definition compile_artifacts :: "artifact_spec list \<Rightarrow> compiled_artifacts" where
  "compile_artifacts specs = map (\<lambda>s. (as_name s, map compile_pattern (as_paths s))) specs"

primrec classify_patterns ::
  "segment list list \<Rightarrow> string list \<Rightarrow> bool \<Rightarrow> bool \<Rightarrow> (bool \<times> bool) charged" where
  "classify_patterns [] path matched descends = charged_return (matched, descends)"
| "classify_patterns (p # ps) path matched descends =
     charged_bind (if \<not> matched then evaluate_pattern p path False else charged_return matched) (\<lambda>matched.
     charged_bind (if \<not> descends then evaluate_pattern p path True else charged_return descends) (\<lambda>descends.
       classify_patterns ps path matched descends))"

primrec classify_declarations ::
  "compiled_artifacts \<Rightarrow> string list \<Rightarrow> string list \<Rightarrow> bool \<Rightarrow> (string list \<times> bool) charged" where
  "classify_declarations [] path names descends = charged_return (names, descends)"
| "classify_declarations (d # ds) path names descends =
     charged_bind (classify_patterns (snd d) path False descends) (\<lambda>(matched, descends).
       classify_declarations ds path (if matched then names @ [fst d] else names) descends)"

definition classify :: "compiled_artifacts \<Rightarrow> string \<Rightarrow> (string list \<times> bool) charged" where
  "classify c path = classify_declarations c (split_on CHR ''/'' path) [] False"

section \<open>The set manifest\<close>

record artifact_manifest_member =
  mm_name :: string
  mm_bytes :: u64
  mm_media_type :: string

definition manifest_step ::
  "nat \<times> string set \<Rightarrow> artifact_manifest_member \<Rightarrow> (nat \<times> string set, string) result" where
  "manifest_step st m =
     (let (total, names) = st in
      if mm_name m = [] \<or> length (mm_name m) > 512 \<or> list_ex is_control (chars (mm_name m))
        \<or> mm_media_type m \<noteq> ''application/octet-stream'' \<or> mm_name m \<in> names
      then Err ''invalid or duplicate artifact member''
      else if total + unat (mm_bytes m) > 2 ^ 64 - 1 then Err ''artifact bytes overflow''
      else if total + unat (mm_bytes m) > 256 * 1048576 then Err ''artifact byte quota''
      else Ok (total + unat (mm_bytes m), insert (mm_name m) names))"

definition validate_manifest :: "artifact_manifest_member list \<Rightarrow> (nat, string) result" where
  "validate_manifest members =
     (if length members > 1024 then Err ''too many artifact members''
      else and_then (try_fold manifest_step (0, {}) members) (\<lambda>(total, _). Ok total))"

definition manifest_record :: "artifact_manifest_member \<Rightarrow> byte list" where
  "manifest_record m =
     framed 8 (as_bytes (mm_name m)) @ framed 8 (as_bytes (mm_media_type m)) @ be_u64 (mm_bytes m)"

definition manifest_preimage :: "artifact_manifest_member list \<Rightarrow> byte list" where
  "manifest_preimage members =
     as_bytes ''mcloving.artifact-set.v2'' @ [0] @ concat (map manifest_record (sort_key mm_name members))"

definition artifact_manifest_digest :: "externals \<Rightarrow> artifact_manifest_member list \<Rightarrow> byte list" where
  "artifact_manifest_digest ext members = sha256 ext (manifest_preimage members)"

section \<open>Upload budgets in seconds\<close>

definition artifact_upload_seconds :: "u64 \<Rightarrow> nat" where
  "artifact_upload_seconds bytes =
     min (min (30 + min ((unat bytes + 1048575) div 1048576 * 1) (2 ^ 64 - 1)) (2 ^ 64 - 1)) (15 * 60)"

definition artifact_server_seconds :: "u64 \<Rightarrow> nat" where
  "artifact_server_seconds bytes = artifact_upload_seconds bytes + 30 + 60"

definition artifact_client_seconds :: "u64 \<Rightarrow> nat" where
  "artifact_client_seconds bytes = artifact_server_seconds bytes + 5"

end
