(* ===== verification/Artifact_Matching.thy ===== *)
theory Artifact_Matching
  imports Artifacts "HOL-Library.Multiset"
begin

text \<open>
  The glob matcher of \<open>Artifacts\<close> against the dialect its documentation describes, the price in
  budget cells of every step, the exactness of the descent test, and the set manifest.
\<close>

section \<open>What a charged computation computes, and at what price\<close>

text \<open>
  \<open>computes m v k\<close>: whenever \<open>m\<close> returns it returns \<open>v\<close>, and it does return when \<open>k\<close> cells are left,
  using at most \<open>k\<close> of them.
\<close>

definition computes :: "'a charged \<Rightarrow> 'a \<Rightarrow> nat \<Rightarrow> bool" where
  "computes m v k \<longleftrightarrow>
     (\<forall>b x b'. m b = Ok (x, b') \<longrightarrow> x = v) \<and>
     (\<forall>b. k \<le> mb_remaining b \<longrightarrow> (\<exists>b'. m b = Ok (v, b') \<and> mb_remaining b \<le> mb_remaining b' + k))"

lemma computes_return [intro]: "computes (charged_return v) v k"
  by (simp add: computes_def charged_return_def)

lemma computes_charge: "computes charge () 1"
  by (auto simp: computes_def charge_def split: if_splits)

lemma computes_mono: "computes m v k \<Longrightarrow> k \<le> l \<Longrightarrow> computes m v l"
  unfolding computes_def by (meson le_trans nat_add_left_cancel_le)

lemma computes_Ok: "computes m v k \<Longrightarrow> m b = Ok (x, b') \<Longrightarrow> x = v"
  unfolding computes_def by blast

lemma computes_within:
  "computes m v k \<Longrightarrow> k \<le> mb_remaining b \<Longrightarrow> \<exists>b'. m b = Ok (v, b') \<and> mb_remaining b \<le> mb_remaining b' + k"
  unfolding computes_def by blast

lemma computes_bind:
  assumes "computes m v k" and "computes (f v) w l"
  shows "computes (charged_bind m f) w (k + l)"
  unfolding computes_def
proof (intro conjI allI impI)
  fix b x b' assume "charged_bind m f b = Ok (x, b')"
  then obtain y b1 where "m b = Ok (y, b1)" "f y b1 = Ok (x, b')"
    by (auto simp: charged_bind_def ok_simps)
  with computes_Ok [OF assms(1)] computes_Ok [OF assms(2)] show "x = w" by blast
next
  fix b :: matching_budget assume b: "k + l \<le> mb_remaining b"
  with computes_within [OF assms(1), of b] obtain b1 where
    b1: "m b = Ok (v, b1)" "mb_remaining b \<le> mb_remaining b1 + k" by auto
  with b computes_within [OF assms(2), of b1] obtain b2 where
    "f v b1 = Ok (w, b2)" "mb_remaining b1 \<le> mb_remaining b2 + l" by auto
  with b1 show "\<exists>b'. charged_bind m f b = Ok (w, b') \<and> mb_remaining b \<le> mb_remaining b' + (k + l)"
    by (auto simp: charged_bind_def)
qed

lemma computes_step: "computes m v k \<Longrightarrow> Suc k \<le> l \<Longrightarrow> computes (charged_bind charge (\<lambda>_. m)) v l"
  using computes_bind [OF computes_charge, of "\<lambda>_. m" v k] by (auto elim: computes_mono)

section \<open>One segment: the greedy loop against the declarative glob\<close>

text \<open>The glob of one segment: a star is any run of characters, a question mark any one.\<close>

fun glob :: "string list \<Rightarrow> string list \<Rightarrow> bool" where
  "glob [] ns \<longleftrightarrow> ns = []"
| "glob (p # ps) [] \<longleftrightarrow> p = ''*'' \<and> glob ps []"
| "glob (p # ps) (c # cs) \<longleftrightarrow>
     (if p = ''*'' then glob ps (c # cs) \<or> glob (p # ps) cs
      else (p = ''?'' \<or> p = c) \<and> glob ps cs)"

lemma glob_star: "glob (''*'' # ps) ns \<longleftrightarrow> (\<exists>k\<le>length ns. glob ps (drop k ns))"
proof (induction ns)
  case Nil
  then show ?case by simp
next
  case (Cons c ns)
  have "(\<exists>k\<le>length (c # ns). glob ps (drop k (c # ns))) \<longleftrightarrow> glob ps (c # ns) \<or> (\<exists>k\<le>length ns. glob ps (drop k ns))"
    by (metis (no_types, lifting) Suc_le_mono drop0 drop_Suc_Cons length_Cons not0_implies_Suc zero_le)
  with Cons show ?case by simp
qed

lemma glob_Cons:
  "p \<noteq> ''*'' \<Longrightarrow> glob (p # ps) ns \<longleftrightarrow> (\<exists>c cs. ns = c # cs \<and> (p = ''?'' \<or> p = c) \<and> glob ps cs)"
  by (cases ns) simp_all

lemma glob_Nil_iff: "glob ps [] \<longleftrightarrow> list_all (\<lambda>p. p = ''*'') ps"
  by (induction ps) simp_all

text \<open>A stretch of the pattern without stars consumes exactly its length.\<close>

lemma glob_literal:
  "list_all (\<lambda>p. p \<noteq> ''*'') qs \<Longrightarrow> glob (qs @ ps) ns \<Longrightarrow> length qs \<le> length ns \<and> glob ps (drop (length qs) ns)"
  by (induction qs arbitrary: ns) (auto simp: glob_Cons)

lemma trailing_stars_computes:
  "p \<le> length P \<Longrightarrow> computes (trailing_stars P p) (glob (drop p P) []) (length P - p)"
proof (induction "length P - p" arbitrary: p)
  case 0
  then have "trailing_stars P p = charged_return (glob (drop p P) [])"
    by (auto simp: fun_eq_iff trailing_stars.simps [of P p] charged_return_def)
  then show ?case by (simp add: computes_return)
next
  case (Suc k)
  then have p: "p < length P" by simp
  then have d: "drop p P = P ! p # drop (Suc p) P" by (simp add: Cons_nth_drop_Suc)
  show ?case
  proof (cases "P ! p = ''*''")
    case True
    with p have "trailing_stars P p = charged_bind charge (\<lambda>_. trailing_stars P (Suc p))"
      by (auto simp: fun_eq_iff trailing_stars.simps [of P p] charged_bind_def)
    moreover have "computes (trailing_stars P (Suc p)) (glob (drop (Suc p) P) []) (length P - Suc p)"
      using Suc p by (intro Suc.hyps(1)) simp_all
    ultimately show ?thesis using True d p by (auto simp: glob_Nil_iff intro: computes_step)
  next
    case False
    with p have "trailing_stars P p = charged_return (glob (drop p P) [])"
      by (auto simp: fun_eq_iff trailing_stars.simps [of P p] charged_return_def d glob_Nil_iff)
    then show ?thesis by (simp add: computes_return)
  qed
qed

text \<open>
  The loop remembers the last star at pattern position \<open>sp\<close> and the name position \<open>sn\<close> it is tried
  at: since then the pattern had no star, so both positions advanced together.
\<close>

definition loop_inv :: "string list \<Rightarrow> string list \<Rightarrow> nat \<Rightarrow> nat \<Rightarrow> (nat \<times> nat) option \<Rightarrow> bool" where
  "loop_inv P N p n star \<longleftrightarrow> p \<le> length P \<and> n \<le> length N \<and>
     (case star of
        None \<Rightarrow> True
      | Some (sp, sn) \<Rightarrow> sn \<le> n \<and> p = Suc sp + (n - sn) \<and>
          list_all (\<lambda>c. c \<noteq> ''*'') (take (n - sn) (drop (Suc sp) P)))"

definition loop_goal :: "string list \<Rightarrow> string list \<Rightarrow> nat \<Rightarrow> nat \<Rightarrow> (nat \<times> nat) option \<Rightarrow> bool" where
  "loop_goal P N p n star \<longleftrightarrow> glob (drop p P) (drop n N) \<or>
     (case star of
        None \<Rightarrow> False
      | Some (sp, sn) \<Rightarrow> \<exists>k. sn < k \<and> k \<le> length N \<and> glob (drop (Suc sp) P) (drop k N))"

definition loop_price :: "string list \<Rightarrow> string list \<Rightarrow> nat \<Rightarrow> (nat \<times> nat) option \<Rightarrow> nat" where
  "loop_price P N p star =
     (case star of None \<Rightarrow> Suc (length N) * Suc (length P) | Some (sp, sn) \<Rightarrow> (length N - sn) * Suc (length P))
     + (length P - p)"

lemma loop_stretch:
  assumes "loop_inv P N p n (Some (sp, sn))" and "glob (drop (Suc sp) P) (drop k N)"
  shows "n - sn \<le> length N - k" and "glob (drop p P) (drop (k + (n - sn)) N)"
proof -
  define qs where "qs = take (n - sn) (drop (Suc sp) P)"
  from assms(1) have p: "p = Suc sp + (n - sn)" "p \<le> length P" and qs: "list_all (\<lambda>c. c \<noteq> ''*'') qs"
    by (auto simp: loop_inv_def qs_def)
  have len: "length qs = n - sn" using p by (simp add: qs_def)
  have "drop p P = drop (n - sn) (drop (Suc sp) P)" using p by (simp add: add.commute)
  then have "drop (Suc sp) P = qs @ drop p P" by (simp only: qs_def append_take_drop_id)
  with glob_literal [OF qs, of "drop p P" "drop k N"] assms(2) len
  show "n - sn \<le> length N - k" and "glob (drop p P) (drop (k + (n - sn)) N)"
    by (simp_all add: add.commute)
qed

lemma loop_goal_exit:
  assumes "loop_inv P N p (length N) star"
  shows "loop_goal P N p (length N) star \<longleftrightarrow> glob (drop p P) []"
proof (cases star)
  case None
  then show ?thesis by (simp add: loop_goal_def)
next
  case (Some s)
  obtain sp sn where s: "s = (sp, sn)" by force
  have "\<not> glob (drop (Suc sp) P) (drop k N)" if "sn < k" "k \<le> length N" for k
    using loop_stretch(1) [of P N p "length N" sp sn k] assms that by (auto simp: Some s)
  then show ?thesis by (auto simp: loop_goal_def Some s)
qed

lemma loop_goal_advance:
  assumes "p < length P" and "n < length N" and "P ! p \<noteq> ''*''" and "P ! p = ''?'' \<or> P ! p = N ! n"
  shows "loop_goal P N (Suc p) (Suc n) star = loop_goal P N p n star"
proof -
  have "drop p P = P ! p # drop (Suc p) P" "drop n N = N ! n # drop (Suc n) N"
    using assms by (simp_all add: Cons_nth_drop_Suc)
  then have "glob (drop p P) (drop n N) = glob (drop (Suc p) P) (drop (Suc n) N)"
    using assms(3,4) by auto
  then show ?thesis by (simp add: loop_goal_def)
qed

lemma loop_goal_star:
  assumes inv: "loop_inv P N p n star" and p: "p < length P" "P ! p = ''*''" and n: "n < length N"
  shows "loop_goal P N (Suc p) n (Some (p, n)) = loop_goal P N p n star"
proof -
  have d: "drop p P = ''*'' # drop (Suc p) P" using p by (metis Cons_nth_drop_Suc)
  have star: "glob (drop p P) (drop m N) \<longleftrightarrow> (\<exists>k\<ge>m. k \<le> length N \<and> glob (drop (Suc p) P) (drop k N))"
    if "m \<le> length N" for m
    unfolding d glob_star using that
    by (auto simp: le_diff_conv2) (metis add.commute le_add1, metis add.commute le_Suc_ex nat_add_left_cancel_le)
  have "glob (drop p P) (drop n N)" if "star = Some (sp, sn)" "sn < k" "k \<le> length N" "glob (drop (Suc sp) P) (drop k N)" for sp sn k
  proof -
    note st = loop_stretch [OF inv [unfolded that(1)] that(4)]
    have le: "k + (n - sn) \<le> length N" "n \<le> k + (n - sn)" using st(1) that inv by (auto simp: loop_inv_def)
    from st(2) star [OF le(1)] obtain i where "k + (n - sn) \<le> i" "i \<le> length N" "glob (drop (Suc p) P) (drop i N)" by blast
    with le n show ?thesis by (subst star) (auto intro: le_trans)
  qed
  then have old: "loop_goal P N p n star \<longleftrightarrow> glob (drop p P) (drop n N)"
    by (auto simp: loop_goal_def split: option.splits)
  show ?thesis unfolding old using n by (auto simp: loop_goal_def star order.strict_iff_order)
qed

lemma loop_goal_retry:
  assumes "loop_inv P N p n (Some (sp, sn))" and n: "n < length N"
    and "\<not> (p < length P \<and> (P ! p = ''?'' \<or> P ! p = N ! n))" and "\<not> (p < length P \<and> P ! p = ''*'')"
  shows "loop_goal P N (Suc sp) (Suc sn) (Some (sp, Suc sn)) = loop_goal P N p n (Some (sp, sn))"
proof -
  have fail: "\<not> glob (drop p P) (drop n N)"
  proof (cases "p < length P")
    case True
    then have "drop p P = P ! p # drop (Suc p) P" "drop n N = N ! n # drop (Suc n) N"
      using n by (simp_all add: Cons_nth_drop_Suc)
    with assms(3,4) True show ?thesis by simp
  next
    case False
    with n show ?thesis by simp
  qed
  have sn: "sn < length N" using assms(1) n by (simp add: loop_inv_def)
  have later: "sn < k \<longleftrightarrow> k = Suc sn \<or> Suc sn < k" for k by linarith
  have "(\<exists>k. sn < k \<and> k \<le> length N \<and> glob (drop (Suc sp) P) (drop k N)) \<longleftrightarrow>
      glob (drop (Suc sp) P) (drop (Suc sn) N) \<or> (\<exists>k. Suc sn < k \<and> k \<le> length N \<and> glob (drop (Suc sp) P) (drop k N))"
    unfolding later using sn by auto
  with fail show ?thesis by (simp add: loop_goal_def)
qed

lemma loop_inv_steps:
  "loop_inv P N p n star \<Longrightarrow> p < length P \<Longrightarrow> n < length N \<Longrightarrow> P ! p \<noteq> ''*'' \<Longrightarrow> loop_inv P N (Suc p) (Suc n) star"
  "loop_inv P N p n star \<Longrightarrow> p < length P \<Longrightarrow> loop_inv P N (Suc p) n (Some (p, n))"
  "loop_inv P N p n (Some (sp, sn)) \<Longrightarrow> n < length N \<Longrightarrow> loop_inv P N (Suc sp) (Suc sn) (Some (sp, Suc sn))"
  by (auto simp: loop_inv_def Suc_diff_le take_Suc_conv_app_nth nth_drop split: option.splits)

lemma loop_price_steps:
  "p < length P \<Longrightarrow> loop_price P N (Suc p) star < loop_price P N p star"
  "loop_inv P N p n star \<Longrightarrow> p < length P \<Longrightarrow> loop_price P N (Suc p) (Some (p, n)) < loop_price P N p star"
  "loop_inv P N p n (Some (sp, sn)) \<Longrightarrow> n < length N \<Longrightarrow>
     loop_price P N (Suc sp) (Some (sp, Suc sn)) < loop_price P N p (Some (sp, sn))"
proof -
  show "p < length P \<Longrightarrow> loop_price P N (Suc p) star < loop_price P N p star"
    by (simp add: loop_price_def)
  show "loop_price P N (Suc p) (Some (p, n)) < loop_price P N p star"
    if "loop_inv P N p n star" "p < length P"
  proof (cases star)
    case None
    have "(length N - n) * Suc (length P) \<le> Suc (length N) * Suc (length P)" by (intro mult_right_mono) auto
    with that None show ?thesis by (simp add: loop_price_def)
  next
    case (Some s)
    obtain sp sn where s: "s = (sp, sn)" by force
    with that Some have "(length N - n) * Suc (length P) \<le> (length N - sn) * Suc (length P)"
      by (intro mult_right_mono) (auto simp: loop_inv_def)
    then show ?thesis unfolding loop_price_def Some s option.case prod.case using that(2) by linarith
  qed
  show "loop_price P N (Suc sp) (Some (sp, Suc sn)) < loop_price P N p (Some (sp, sn))"
    if "loop_inv P N p n (Some (sp, sn))" "n < length N"
  proof -
    from that have "length N - sn = Suc (length N - Suc sn)" by (auto simp: loop_inv_def)
    then show ?thesis by (simp add: loop_price_def)
  qed
qed

lemma segment_loop_computes:
  assumes "''*'' \<notin> set N"
  shows "loop_inv P N p n star \<Longrightarrow>
    computes (segment_loop P N p n star) (loop_goal P N p n star) (loop_price P N p star)"
proof (induction "loop_price P N p star" arbitrary: p n star rule: less_induct)
  case less
  show ?case
  proof (cases "n < length N")
    case False
    with less.prems have n: "n = length N" by (simp add: loop_inv_def)
    then have "segment_loop P N p n star = trailing_stars P p" by (intro ext) (subst segment_loop.simps, simp)
    moreover have "computes (trailing_stars P p) (glob (drop p P) []) (loop_price P N p star)"
      by (rule computes_mono [OF trailing_stars_computes])
        (use less.prems in \<open>auto simp: loop_inv_def loop_price_def\<close>)
    ultimately show ?thesis using loop_goal_exit less.prems unfolding n by simp
  next
    case True
    then have ne: "N ! n \<noteq> ''*''" using assms by (metis nth_mem)
    have body: "segment_loop P N p n star = charged_bind charge (\<lambda>_.
       if p < length P \<and> (P ! p = ''?'' \<or> P ! p = N ! n) then segment_loop P N (Suc p) (Suc n) star
       else if p < length P \<and> P ! p = ''*'' then segment_loop P N (Suc p) n (Some (p, n))
       else case star of Some (sp, sn) \<Rightarrow> segment_loop P N (Suc sp) (Suc sn) (Some (sp, Suc sn))
         | None \<Rightarrow> charged_return False)"
      using True by (auto simp: fun_eq_iff segment_loop.simps [of P N p n] charged_bind_def charged_return_def
          split: option.splits intro!: arg_cong2 [of _ _ _ _ and_then])
    consider (advance) "p < length P" "P ! p = ''?'' \<or> P ! p = N ! n"
      | (star) "p < length P" "P ! p = ''*''" "\<not> (P ! p = ''?'' \<or> P ! p = N ! n)"
      | (other) "\<not> (p < length P \<and> (P ! p = ''?'' \<or> P ! p = N ! n))" "\<not> (p < length P \<and> P ! p = ''*'')"
      by blast
    then show ?thesis
    proof cases
      case advance
      with ne have no: "P ! p \<noteq> ''*''" by auto
      have "computes (segment_loop P N (Suc p) (Suc n) star) (loop_goal P N p n star) (loop_price P N (Suc p) star)"
        using less.hyps [OF loop_price_steps(1) [OF advance(1)] loop_inv_steps(1) [OF less.prems advance(1) True no]]
        by (simp add: loop_goal_advance [OF advance(1) True no advance(2)])
      from computes_step [OF this] loop_price_steps(1) [OF advance(1), of N star] body advance show ?thesis
        by simp
    next
      case star
      have "computes (segment_loop P N (Suc p) n (Some (p, n))) (loop_goal P N p n star) (loop_price P N (Suc p) (Some (p, n)))"
        using less.hyps [OF loop_price_steps(2) [OF less.prems star(1)] loop_inv_steps(2) [OF less.prems star(1)]]
        by (simp add: loop_goal_star [OF less.prems star(1,2) True])
      from computes_step [OF this] loop_price_steps(2) [OF less.prems star(1)] body star show ?thesis
        by simp
    next
      case other
      show ?thesis
      proof (cases "star")
        case None
        have "drop n N = N ! n # drop (Suc n) N" using True by (simp add: Cons_nth_drop_Suc)
        moreover have "drop p P = [] \<or> drop p P = P ! p # drop (Suc p) P" by (metis Cons_nth_drop_Suc drop_eq_Nil2 not_le)
        ultimately have "loop_goal P N p n star = False" using other None True
          by (cases "p < length P") (auto simp: loop_goal_def)
        with computes_step [OF computes_return [of False 0], of "loop_price P N p star"] body other None show ?thesis
          by (simp add: loop_price_def)
      next
        case (Some s)
        obtain sp sn where s: "s = (sp, sn)" by force
        note prems = less.prems [unfolded Some s]
        have "computes (segment_loop P N (Suc sp) (Suc sn) (Some (sp, Suc sn))) (loop_goal P N p n star)
            (loop_price P N (Suc sp) (Some (sp, Suc sn)))"
          using less.hyps [unfolded Some s, OF loop_price_steps(3) [OF prems True] loop_inv_steps(3) [OF prems True]]
          by (simp add: loop_goal_retry [OF prems True other] Some s)
        from computes_step [OF this] loop_price_steps(3) [OF prems True] body other show ?thesis
          by (simp add: Some s)
      qed
    qed
  qed
qed

lemma charge_chars_computes: "computes (charge_chars cs) () (length cs)"
  by (induction cs) (auto intro: computes_step)

definition segment_price :: "string list \<Rightarrow> string list \<Rightarrow> nat" where
  "segment_price P N = length N + Suc (length N) * Suc (length P) + length P"

lemma segment_matches_computes:
  assumes "''*'' \<notin> set (chars name)"
  shows "computes (segment_matches_compiled P name) (glob P (chars name)) (segment_price P (chars name))"
proof -
  have "computes (segment_loop P (chars name) 0 0 None) (glob P (chars name))
      (Suc (length (chars name)) * Suc (length P) + length P)"
    using segment_loop_computes [OF assms, of P 0 0 None]
    by (simp add: loop_inv_def loop_goal_def loop_price_def)
  from computes_bind [OF charge_chars_computes, where f = "\<lambda>_. segment_loop P (chars name) 0 0 None", OF this]
  show ?thesis by (simp add: segment_matches_compiled_def segment_price_def add.assoc)
qed

section \<open>Whole paths\<close>

text \<open>
  The dialect's meaning on segments: \<open>**\<close> stands for any number of whole segments. The second
  function says that a directory may hold a match below it.
\<close>

fun path_glob :: "segment list \<Rightarrow> string list \<Rightarrow> bool" where
  "path_glob [] path \<longleftrightarrow> path = []"
| "path_glob (Recursive # segs) path \<longleftrightarrow>
     path_glob segs path \<or> (case path of [] \<Rightarrow> False | _ # rest \<Rightarrow> path_glob (Recursive # segs) rest)"
| "path_glob (Literal p # segs) path \<longleftrightarrow>
     (case path of [] \<Rightarrow> False | c # rest \<Rightarrow> glob p (chars c) \<and> path_glob segs rest)"

fun descent_glob :: "segment list \<Rightarrow> string list \<Rightarrow> bool" where
  "descent_glob [] path \<longleftrightarrow> False"
| "descent_glob (seg # segs) [] \<longleftrightarrow> True"
| "descent_glob (Recursive # segs) (c # path) \<longleftrightarrow> descent_glob segs (c # path) \<or> descent_glob (Recursive # segs) path"
| "descent_glob (Literal p # segs) (c # path) \<longleftrightarrow> glob p (chars c) \<and> descent_glob segs path"

definition cell_spec :: "bool \<Rightarrow> segment list \<Rightarrow> string list \<Rightarrow> bool" where
  "cell_spec descent segs path = (if descent then descent_glob segs path else path_glob segs path)"

lemma cell_spec_simps:
  "cell_spec descent [] path \<longleftrightarrow> \<not> descent \<and> path = []"
  "cell_spec descent (seg # segs) [] \<longleftrightarrow> descent \<or> seg = Recursive \<and> cell_spec descent segs []"
  "cell_spec descent (Recursive # segs) (c # path) \<longleftrightarrow>
     cell_spec descent segs (c # path) \<or> cell_spec descent (Recursive # segs) path"
  "cell_spec descent (Literal p # segs) (c # path) \<longleftrightarrow> glob p (chars c) \<and> cell_spec descent segs path"
  by (cases seg; auto simp: cell_spec_def)+

text \<open>The row of the table for a list of segments: the specification at every suffix of the path.\<close>

definition row_spec :: "bool \<Rightarrow> segment list \<Rightarrow> string list \<Rightarrow> bool list" where
  "row_spec descent segs path = map (\<lambda>j. cell_spec descent segs (drop j path)) [0..<Suc (length path)]"

lemma nth_row_spec: "j \<le> length path \<Longrightarrow> row_spec descent segs path ! j = cell_spec descent segs (drop j path)"
  by (simp add: row_spec_def nth_append del: upt_Suc)

lemma length_row_spec [simp]: "length (row_spec descent segs path) = Suc (length path)"
  by (simp add: row_spec_def)

lemma initial_row_computes:
  "i + k = n \<Longrightarrow> computes (initial_row descent n (Suc k) (replicate i False)) (replicate n False @ [\<not> descent]) (Suc k)"
proof (induction k arbitrary: i)
  case 0
  then show ?case by (auto intro: computes_step)
next
  case (Suc k)
  then have "computes (initial_row descent n (Suc k) (replicate (Suc i) False)) (replicate n False @ [\<not> descent]) (Suc k)"
    by (intro Suc.IH) simp
  then have "computes (initial_row descent n (Suc k) (replicate i False @ [\<not> descent \<and> length (replicate i False) = n]))
      (replicate n False @ [\<not> descent]) (Suc k)"
    using Suc.prems by (simp add: replicate_append_same)
  from computes_step [OF this order_refl] show ?case by (simp only: initial_row.simps)
qed

lemma initial_row_spec: "replicate (length path) False @ [\<not> descent] = row_spec descent [] path"
  by (rule nth_equalityI) (auto simp: nth_append nth_row_spec cell_spec_simps less_Suc_eq)

text \<open>One cell, given the cells to its right and the row of the remaining segments.\<close>

definition cell_price :: "segment list \<Rightarrow> string list \<Rightarrow> nat" where
  "cell_price segs path =
     sum_list (map (\<lambda>seg. case seg of Recursive \<Rightarrow> 0 | Literal p \<Rightarrow> sum_list (map (\<lambda>c. segment_price p (chars c)) path)) segs)"

lemma cell_computes:
  assumes "\<forall>c\<in>set path. ''*'' \<notin> set (chars c)" and "j \<le> length path" and "length row = Suc (length path)"
    and "j < length path \<Longrightarrow> row ! Suc j = cell_spec descent (seg # segs) (drop (Suc j) path)"
  shows "computes (cell seg path descent (row_spec descent segs path) row j)
    (cell_spec descent (seg # segs) (drop j path)) (cell_price [seg] path)"
proof (cases "j = length path")
  case True
  then have "cell seg path descent (row_spec descent segs path) row j = charged_return (cell_spec descent (seg # segs) [])"
    by (cases seg) (auto simp: cell_def cell_spec_simps nth_row_spec)
  with True show ?thesis by (simp add: computes_return)
next
  case False
  with assms(2) have j: "j < length path" by simp
  then have d: "drop j path = path ! j # drop (Suc j) path" by (simp add: Cons_nth_drop_Suc)
  show ?thesis
  proof (cases seg)
    case Recursive
    have "cell seg path descent (row_spec descent segs path) row j = charged_return (cell_spec descent (seg # segs) (drop j path))"
      using j assms(2,4) by (simp add: cell_def Recursive nth_row_spec d cell_spec_simps)
    then show ?thesis by (simp add: computes_return)
  next
    case (Literal p)
    show ?thesis
    proof (cases "cell_spec descent segs (drop (Suc j) path)")
      case True
      have "segment_price p (chars (path ! j)) \<in> set (map (\<lambda>c. segment_price p (chars c)) path)" using j by simp
      then have "segment_price p (chars (path ! j)) \<le> cell_price [seg] path"
        unfolding cell_price_def Literal by (simp add: member_le_sum_list)
      then have "computes (segment_matches_compiled p (path ! j)) (glob p (chars (path ! j))) (cell_price [seg] path)"
        using assms(1) j by (intro computes_mono [OF segment_matches_computes]) simp_all
      with True j show ?thesis by (simp add: cell_def Literal nth_row_spec d cell_spec_simps)
    next
      case False
      with j have "cell seg path descent (row_spec descent segs path) row j = charged_return (cell_spec descent (seg # segs) (drop j path))"
        by (simp add: cell_def Literal nth_row_spec d cell_spec_simps)
      then show ?thesis by (simp add: computes_return)
    qed
  qed
qed

definition starless :: "string list \<Rightarrow> bool" where
  "starless path \<longleftrightarrow> (\<forall>c\<in>set path. ''*'' \<notin> set (chars c))"

lemma row_loop_computes:
  assumes "starless path"
  shows "j \<le> Suc (length path) \<Longrightarrow> length row = Suc (length path) \<Longrightarrow>
    (\<And>i. j \<le> i \<Longrightarrow> i \<le> length path \<Longrightarrow> row ! i = cell_spec descent (seg # segs) (drop i path)) \<Longrightarrow>
    computes (row_loop seg path descent (row_spec descent segs path) j row)
      (row_spec descent (seg # segs) path) (j * Suc (cell_price [seg] path))"
proof (induction j arbitrary: row)
  case 0
  then have "row = row_spec descent (seg # segs) path" by (intro nth_equalityI) (simp_all add: nth_row_spec)
  then show ?case by (simp add: computes_return)
next
  case (Suc j)
  let ?v = "cell_spec descent (seg # segs) (drop j path)"
  have c: "computes (cell seg path descent (row_spec descent segs path) row j) ?v (cell_price [seg] path)"
    using Suc.prems assms by (intro cell_computes) (simp_all add: starless_def)
  have r: "computes (row_loop seg path descent (row_spec descent segs path) j (row[j := ?v]))
      (row_spec descent (seg # segs) path) (j * Suc (cell_price [seg] path))"
    using Suc.prems by (intro Suc.IH) (auto simp: nth_list_update)
  from computes_step [OF computes_bind [OF c, where f = "\<lambda>v. row_loop seg path descent (row_spec descent segs path) j (row[j := v])", OF r]]
  show ?case by simp
qed

lemma rows_computes:
  assumes "starless path"
  shows "computes (rows rsegs path descent (row_spec descent segs path)) (row_spec descent (rev rsegs @ segs) path)
    (Suc (length path) * (length rsegs + cell_price rsegs path))"
proof (induction rsegs arbitrary: segs)
  case Nil
  then show ?case by (simp add: computes_return)
next
  case (Cons seg rsegs)
  have "computes (row_loop seg path descent (row_spec descent segs path) (length path + 1) (replicate (length path + 1) False))
      (row_spec descent (seg # segs) path) (Suc (length path) * Suc (cell_price [seg] path))"
    using row_loop_computes [OF assms, of "Suc (length path)" "replicate (Suc (length path)) False"] by simp
  from computes_bind [OF this, where f = "rows rsegs path descent", OF Cons.IH]
  show ?case by (simp add: cell_price_def algebra_simps)
qed

definition pattern_price :: "segment list \<Rightarrow> string list \<Rightarrow> nat" where
  "pattern_price segs path = Suc (length path) * (Suc (length segs) + cell_price segs path)"

lemma evaluate_pattern_computes:
  assumes "starless path"
  shows "computes (evaluate_pattern segs path descent) (cell_spec descent segs path) (pattern_price segs path)"
proof -
  have "computes (initial_row descent (length path) (length path + 1) []) (row_spec descent [] path) (Suc (length path))"
    using initial_row_computes [of 0 "length path" "length path" descent] initial_row_spec [of path descent]
    by (simp del: initial_row.simps)
  moreover have "computes (rows (rev segs) path descent (row_spec descent [] path)) (row_spec descent segs path)
      (Suc (length path) * (length segs + cell_price segs path))"
    using rows_computes [OF assms, of "rev segs" descent "[]"]
    by (simp add: cell_price_def rev_map [symmetric] sum_list_rev)
  moreover have "computes (charged_return (row_spec descent segs path ! 0)) (cell_spec descent segs path) 0"
    by (simp add: nth_row_spec computes_return)
  ultimately have "computes (evaluate_pattern segs path descent) (cell_spec descent segs path)
      (Suc (length path) + (Suc (length path) * (length segs + cell_price segs path) + 0))"
    unfolding evaluate_pattern_def by (intro computes_bind)
  then show ?thesis by (simp add: pattern_price_def algebra_simps)
qed

section \<open>Compilation keeps the meaning\<close>

definition segment_of :: "string \<Rightarrow> segment" where
  "segment_of s = (if s = ''**'' then Recursive else Literal (chars s))"

lemma cell_spec_dup: "cell_spec descent (Recursive # Recursive # segs) path = cell_spec descent (Recursive # segs) path"
  by (induction path) (auto simp: cell_spec_simps)

lemma cell_spec_prefix:
  "(\<And>path. cell_spec descent segs path = cell_spec descent segs' path) \<Longrightarrow>
   cell_spec descent (xs @ segs) path = cell_spec descent (xs @ segs') path"
proof (induction xs arbitrary: path)
  case (Cons x xs)
  then have IH: "cell_spec descent (xs @ segs) path = cell_spec descent (xs @ segs') path" for path by simp
  show ?case
  proof (induction path)
    case Nil
    then show ?case by (simp add: cell_spec_simps IH)
  next
    case (Cons c path)
    then show ?case by (cases x) (simp_all add: cell_spec_simps IH)
  qed
qed simp

lemma cell_spec_compile:
  "cell_spec descent (foldl push_segment acc ss) path = cell_spec descent (acc @ map segment_of ss) path"
proof (induction ss arbitrary: acc)
  case (Cons s ss)
  show ?case
  proof (cases "s = ''**'' \<and> acc \<noteq> [] \<and> last acc = Recursive")
    case True
    then obtain xs where acc: "acc = xs @ [Recursive]" by (metis append_butlast_last_id)
    have "cell_spec descent (xs @ Recursive # Recursive # map segment_of ss) path =
        cell_spec descent (xs @ Recursive # map segment_of ss) path"
      by (rule cell_spec_prefix) (rule cell_spec_dup)
    moreover have "push_segment acc s = acc" using True by (simp add: push_segment_def)
    moreover have "segment_of s = Recursive" using True by (simp add: segment_of_def)
    ultimately show ?thesis using Cons.IH [of acc] acc by simp
  next
    case False
    then have "push_segment acc s = acc @ [segment_of s]" by (auto simp: push_segment_def segment_of_def)
    with Cons.IH [of "acc @ [segment_of s]"] show ?thesis by simp
  qed
qed simp

lemma cell_spec_compile_pattern:
  "cell_spec descent (compile_pattern pattern) path = cell_spec descent (map segment_of (split_on CHR ''/'' pattern)) path"
  using cell_spec_compile [of descent "[]"] by (simp add: compile_pattern_def)

section \<open>The price of a validated pattern\<close>

lemma split_on_sizes: "length (split_on d s) \<le> Suc (length s) \<and> (\<forall>p\<in>set (split_on d s). length p \<le> length s)"
  by (induction s) (auto split: list.splits intro: le_SucI)

lemma length_compile: "length (foldl push_segment acc ss) \<le> length acc + length ss"
proof (induction ss arbitrary: acc)
  case (Cons s ss)
  have "length (push_segment acc s) \<le> Suc (length acc)" by (simp add: push_segment_def)
  with Cons.IH [of "push_segment acc s"] show ?case by simp
qed simp

lemma literals_compile:
  "Literal p \<in> set (foldl push_segment acc ss) \<Longrightarrow> Literal p \<in> set acc \<or> (\<exists>s\<in>set ss. p = chars s)"
proof (induction ss arbitrary: acc)
  case (Cons s ss)
  then have "Literal p \<in> set (push_segment acc s) \<or> (\<exists>s\<in>set ss. p = chars s)" by simp
  then show ?case by (auto simp: push_segment_def split: if_splits)
qed simp

lemma sum_list_bound: "(\<And>x. x \<in> set xs \<Longrightarrow> f x \<le> k) \<Longrightarrow> sum_list (map f xs) \<le> length xs * (k :: nat)"
  by (induction xs) (auto intro: add_mono)

lemma pattern_price_bound:
  assumes "length pattern \<le> 512" and "length path \<le> 4096"
  shows "pattern_price (compile_pattern pattern) (split_on CHR ''/'' path) \<le> 2 ^ 64 - 1"
proof -
  let ?segs = "compile_pattern pattern" and ?path = "split_on CHR ''/'' path"
  define q :: nat where "q = 4096 + Suc 4096 * Suc 512 + 512"
  have n: "length ?path \<le> 4097" using split_on_sizes [of "CHR ''/''" path] assms(2) by simp
  have m: "length ?segs \<le> 513"
    using length_compile [of "[]" "split_on CHR ''/'' pattern"] split_on_sizes [of "CHR ''/''" pattern] assms(1)
    by (simp add: compile_pattern_def)
  have one: "segment_price p (chars c) \<le> q" if "Literal p \<in> set ?segs" "c \<in> set ?path" for p c
  proof -
    from literals_compile [of p "[]" "split_on CHR ''/'' pattern"] that(1) obtain s
      where "s \<in> set (split_on CHR ''/'' pattern)" "p = chars s" by (auto simp: compile_pattern_def)
    then have "length p \<le> 512"
      using split_on_sizes [of "CHR ''/''" pattern] assms(1) length_chars [of s] by fastforce
    moreover have "length (chars c) \<le> 4096"
      using that(2) split_on_sizes [of "CHR ''/''" path] assms(2) length_chars [of c] by fastforce
    ultimately show ?thesis unfolding segment_price_def q_def by (intro add_mono mult_mono) simp_all
  qed
  have "cell_price ?segs ?path \<le> length ?segs * (length ?path * q)"
    unfolding cell_price_def
    by (intro sum_list_bound) (auto intro!: sum_list_bound one split: segment.splits)
  also have "\<dots> \<le> 513 * (4097 * q)" using m n by (intro mult_mono) simp_all
  finally have "pattern_price ?segs ?path \<le> Suc 4097 * (Suc 513 + 513 * (4097 * q))"
    unfolding pattern_price_def using m n by (intro mult_mono add_mono) simp_all
  also have "\<dots> \<le> 2 ^ 64 - 1" by (simp add: q_def)
  finally show ?thesis .
qed

lemma run_unbounded_computes: "computes m v k \<Longrightarrow> k \<le> 2 ^ 64 - 1 \<Longrightarrow> run_unbounded m = v"
  using computes_within [of m v k "new_budget (2 ^ 64 - 1)"] by (auto simp: run_unbounded_def new_budget_def)

lemma starless_path: "CHR ''*'' \<notin> set path \<Longrightarrow> starless (split_on CHR ''/'' path)"
proof -
  assume p: "CHR ''*'' \<notin> set path"
  have sub: "set c \<subseteq> set path" if "c \<in> set (split_on CHR ''/'' path)" for c
    using that by (induction path arbitrary: c) (fastforce split: list.splits if_splits)+
  have "''*'' \<notin> set (chars c)" if "c \<in> set (split_on CHR ''/'' path)" for c
    using sub [OF that] p chars_is_char [of "''*''" c] by auto
  then show ?thesis by (simp add: starless_def)
qed

text \<open>What the dialect says about a pattern and a path as text.\<close>

definition glob_matches :: "string \<Rightarrow> string \<Rightarrow> bool" where
  "glob_matches pattern path \<longleftrightarrow> path_glob (map segment_of (split_on CHR ''/'' pattern)) (split_on CHR ''/'' path)"

definition glob_below :: "string \<Rightarrow> string \<Rightarrow> bool" where
  "glob_below pattern path \<longleftrightarrow> (\<exists>below. below \<noteq> [] \<and>
     path_glob (map segment_of (split_on CHR ''/'' pattern)) (split_on CHR ''/'' path @ below))"

text \<open>A name that a literal segment matches: one letter for every wildcard.\<close>

definition instance_of :: "string list \<Rightarrow> string" where
  "instance_of p = concat (map (\<lambda>c. if c = ''*'' \<or> c = ''?'' then ''x'' else c) p)"

lemma glob_one_each: "glob p (map (\<lambda>c. if c = ''*'' \<or> c = ''?'' then ''x'' else c) p)"
proof (induction p)
  case (Cons c p)
  have "glob (''*'' # p) (''x'' # map (\<lambda>c. if c = ''*'' \<or> c = ''?'' then ''x'' else c) p)"
    unfolding glob_star using Cons by (intro exI [of _ 1]) simp
  with Cons show ?case by (cases "c = ''*''") (simp_all del: glob.simps(3), simp)
qed simp

lemma glob_instance: "list_all is_char p \<Longrightarrow> glob p (chars (instance_of p))"
proof -
  assume "list_all is_char p"
  then have "list_all is_char (map (\<lambda>c. if c = ''*'' \<or> c = ''?'' then ''x'' else c) p)"
    by (induction p) (auto simp: is_char_def)
  then have "chars (instance_of p) = map (\<lambda>c. if c = ''*'' \<or> c = ''?'' then ''x'' else c) p"
    by (simp add: instance_of_def chars_concat)
  then show ?thesis using glob_one_each by simp
qed

definition proper_segment :: "segment \<Rightarrow> bool" where
  "proper_segment seg = (case seg of Recursive \<Rightarrow> True | Literal p \<Rightarrow> list_all is_char p)"

lemma path_glob_exists:
  "list_all proper_segment segs \<Longrightarrow> \<exists>path. path_glob segs path \<and> (segs \<noteq> [] \<longrightarrow> path \<noteq> [])"
proof (induction segs)
  case (Cons seg segs)
  then obtain path where path: "path_glob segs path" by auto
  show ?case
  proof (cases seg)
    case Recursive
    from path have "path_glob (seg # segs) ([] # path)" by (auto simp: Recursive)
    then show ?thesis by blast
  next
    case (Literal p)
    with Cons.prems have "glob p (chars (instance_of p))" by (intro glob_instance) (simp add: proper_segment_def)
    with path have "path_glob (seg # segs) (instance_of p # path)" by (simp add: Literal)
    then show ?thesis by blast
  qed
qed simp

lemma path_glob_rec_append: "path_glob segs below \<Longrightarrow> path_glob (Recursive # segs) (path @ below)"
  by (induction path) auto

lemma descent_exact:
  "list_all proper_segment segs \<Longrightarrow>
   descent_glob segs path \<longleftrightarrow> (\<exists>below. below \<noteq> [] \<and> path_glob segs (path @ below))"
proof (induction segs path rule: descent_glob.induct)
  case (2 seg segs)
  then show ?case using path_glob_exists [of "seg # segs"] by auto
next
  case (3 segs c path)
  then show ?case by auto
qed auto

section \<open>Classification of a path\<close>

definition patterns_price :: "segment list list \<Rightarrow> string list \<Rightarrow> nat" where
  "patterns_price ps path = sum_list (map (\<lambda>p. 2 * pattern_price p path) ps)"

lemma guarded_computes:
  "computes m v k \<Longrightarrow> computes (if \<not> done then m else charged_return done) (done \<or> v) k"
  by (cases "done") (auto simp: computes_return)

lemma classify_patterns_computes:
  assumes "starless path"
  shows "computes (classify_patterns ps path matched descends)
    (matched \<or> list_ex (\<lambda>p. cell_spec False p path) ps, descends \<or> list_ex (\<lambda>p. cell_spec True p path) ps)
    (patterns_price ps path)"
proof (induction ps arbitrary: matched descends)
  case Nil
  then show ?case by (simp add: computes_return)
next
  case (Cons p ps)
  let ?rest = "\<lambda>matched descends. classify_patterns ps path matched descends"
  let ?m = "matched \<or> cell_spec False p path" and ?d = "descends \<or> cell_spec True p path"
  have "computes (charged_bind (if \<not> descends then evaluate_pattern p path True else charged_return descends) (?rest ?m))
      (?m \<or> list_ex (\<lambda>p. cell_spec False p path) ps, ?d \<or> list_ex (\<lambda>p. cell_spec True p path) ps)
      (pattern_price p path + patterns_price ps path)"
    by (rule computes_bind [OF guarded_computes [OF evaluate_pattern_computes [OF assms]] Cons.IH])
  from computes_bind [OF guarded_computes [OF evaluate_pattern_computes [OF assms]],
      where f = "\<lambda>matched. charged_bind (if \<not> descends then evaluate_pattern p path True else charged_return descends) (?rest matched)",
      OF this]
  have "computes (classify_patterns (p # ps) path matched descends)
      (?m \<or> list_ex (\<lambda>p. cell_spec False p path) ps, ?d \<or> list_ex (\<lambda>p. cell_spec True p path) ps)
      (pattern_price p path + (pattern_price p path + patterns_price ps path))"
    by (simp only: classify_patterns.simps)
  moreover have "pattern_price p path + (pattern_price p path + patterns_price ps path) = patterns_price (p # ps) path"
    by (simp add: patterns_price_def)
  moreover have "list_ex f (p # ps) \<longleftrightarrow> f p \<or> list_ex f ps" for f by simp
  ultimately show ?case by (simp only: disj_assoc)
qed

definition classify_price :: "compiled_artifacts \<Rightarrow> string list \<Rightarrow> nat" where
  "classify_price ds path = sum_list (map (\<lambda>d. patterns_price (snd d) path) ds)"

lemma classify_declarations_computes:
  assumes "starless path"
  shows "computes (classify_declarations ds path names descends)
    (names @ map fst (filter (\<lambda>d. list_ex (\<lambda>p. cell_spec False p path) (snd d)) ds),
     descends \<or> list_ex (\<lambda>d. list_ex (\<lambda>p. cell_spec True p path) (snd d)) ds)
    (classify_price ds path)"
proof (induction ds arbitrary: names descends)
  case Nil
  then show ?case by (simp add: computes_return)
next
  case (Cons d ds)
  let ?m = "list_ex (\<lambda>p. cell_spec False p path) (snd d)" and ?d = "descends \<or> list_ex (\<lambda>p. cell_spec True p path) (snd d)"
  have first: "computes (classify_patterns (snd d) path False descends) (?m, ?d) (patterns_price (snd d) path)"
    using classify_patterns_computes [OF assms, of "snd d" False descends] by simp
  have rest: "computes (case (?m, ?d) of (matched, descends) \<Rightarrow>
        classify_declarations ds path (if matched then names @ [fst d] else names) descends)
      ((if ?m then names @ [fst d] else names) @ map fst (filter (\<lambda>d. list_ex (\<lambda>p. cell_spec False p path) (snd d)) ds),
       ?d \<or> list_ex (\<lambda>d. list_ex (\<lambda>p. cell_spec True p path) (snd d)) ds) (classify_price ds path)"
    unfolding prod.case by (rule Cons.IH)
  from computes_bind [OF first, where f = "\<lambda>(matched, descends).
        classify_declarations ds path (if matched then names @ [fst d] else names) descends", OF rest]
  have "computes (classify_declarations (d # ds) path names descends)
      ((if ?m then names @ [fst d] else names) @ map fst (filter (\<lambda>d. list_ex (\<lambda>p. cell_spec False p path) (snd d)) ds),
       ?d \<or> list_ex (\<lambda>d. list_ex (\<lambda>p. cell_spec True p path) (snd d)) ds) (classify_price (d # ds) path)"
    by (simp only: classify_declarations.simps classify_price_def list.map sum_list.Cons)
  then show ?case by (simp add: disj_assoc del: classify_declarations.simps split: if_splits)
qed

lemma cell_spec_text:
  assumes "CHR ''*'' \<notin> set path"
  shows "cell_spec False (compile_pattern pattern) (split_on CHR ''/'' path) \<longleftrightarrow> glob_matches pattern path"
    and "cell_spec True (compile_pattern pattern) (split_on CHR ''/'' path) \<longleftrightarrow> glob_below pattern path"
proof -
  show "cell_spec False (compile_pattern pattern) (split_on CHR ''/'' path) \<longleftrightarrow> glob_matches pattern path"
    using cell_spec_compile_pattern [of False pattern] by (simp add: cell_spec_def glob_matches_def)
  have "list_all proper_segment (map segment_of (split_on CHR ''/'' pattern))"
    by (auto simp: list_all_iff proper_segment_def segment_of_def dest: chars_is_char)
  then show "cell_spec True (compile_pattern pattern) (split_on CHR ''/'' path) \<longleftrightarrow> glob_below pattern path"
    using cell_spec_compile_pattern [of True pattern] by (simp add: cell_spec_def glob_below_def descent_exact)
qed

lemma classify_computes:
  assumes "CHR ''*'' \<notin> set path"
  shows "computes (classify (compile_artifacts specs) path)
    (map as_name (filter (\<lambda>s. list_ex (\<lambda>p. glob_matches p path) (as_paths s)) specs),
     list_ex (\<lambda>s. list_ex (\<lambda>p. glob_below p path) (as_paths s)) specs)
    (classify_price (compile_artifacts specs) (split_on CHR ''/'' path))"
proof -
  note spelled = cell_spec_text [OF assms]
  have m: "list_ex (\<lambda>p. cell_spec False p (split_on CHR ''/'' path)) (map compile_pattern ps) =
      list_ex (\<lambda>p. glob_matches p path) ps" for ps
    by (induction ps) (simp_all add: spelled)
  have d: "list_ex (\<lambda>p. cell_spec True p (split_on CHR ''/'' path)) (map compile_pattern ps) =
      list_ex (\<lambda>p. glob_below p path) ps" for ps
    by (induction ps) (simp_all add: spelled)
  have "map fst (filter (\<lambda>d. list_ex (\<lambda>p. cell_spec False p (split_on CHR ''/'' path)) (snd d)) (compile_artifacts specs)) =
      map as_name (filter (\<lambda>s. list_ex (\<lambda>p. glob_matches p path) (as_paths s)) specs)"
    by (induction specs) (simp_all add: compile_artifacts_def m)
  moreover have "list_ex (\<lambda>d. list_ex (\<lambda>p. cell_spec True p (split_on CHR ''/'' path)) (snd d)) (compile_artifacts specs) =
      list_ex (\<lambda>s. list_ex (\<lambda>p. glob_below p path) (as_paths s)) specs"
    by (induction specs) (simp_all add: compile_artifacts_def d)
  ultimately show ?thesis
    using classify_declarations_computes [OF starless_path [OF assms], of "compile_artifacts specs" "[]" False]
    by (simp add: classify_def)
qed

section \<open>The manifest\<close>

definition member_ok :: "artifact_manifest_member \<Rightarrow> bool" where
  "member_ok m \<longleftrightarrow> mm_name m \<noteq> [] \<and> length (mm_name m) \<le> 512 \<and> \<not> list_ex is_control (chars (mm_name m)) \<and>
     mm_media_type m = ''application/octet-stream''"

definition total_bytes :: "artifact_manifest_member list \<Rightarrow> nat" where
  "total_bytes ms = sum_list (map (\<lambda>m. unat (mm_bytes m)) ms)"

lemma manifest_fold:
  "n \<le> 256 * 1048576 \<Longrightarrow> try_fold manifest_step (n, names) ms = Ok st \<longleftrightarrow>
     st = (n + total_bytes ms, names \<union> mm_name ` set ms) \<and> list_all member_ok ms \<and> distinct (map mm_name ms) \<and>
     names \<inter> mm_name ` set ms = {} \<and> n + total_bytes ms \<le> 256 * 1048576"
proof (induction ms arbitrary: n names)
  case Nil
  then show ?case by (auto simp: total_bytes_def)
next
  case (Cons m ms)
  show ?case
  proof (cases "member_ok m \<and> mm_name m \<notin> names \<and> n + unat (mm_bytes m) \<le> 256 * 1048576")
    case True
    then have "manifest_step (n, names) m = Ok (n + unat (mm_bytes m), insert (mm_name m) names)"
      by (simp add: manifest_step_def member_ok_def)
    with Cons.IH [of "n + unat (mm_bytes m)" "insert (mm_name m) names"] True show ?thesis
      by (auto simp: total_bytes_def)
  next
    case False
    then have "\<exists>e. manifest_step (n, names) m = Err e" by (auto simp: manifest_step_def member_ok_def Let_def)
    with False show ?thesis by (auto simp: total_bytes_def)
  qed
qed

lemma validate_manifest_eq_Ok:
  "validate_manifest ms = Ok n \<longleftrightarrow> length ms \<le> 1024 \<and> list_all member_ok ms \<and> distinct (map mm_name ms) \<and>
     n = total_bytes ms \<and> n \<le> 256 * 1048576"
  by (auto simp: validate_manifest_def ok_simps manifest_fold)

definition member_fits :: "artifact_manifest_member \<Rightarrow> bool" where
  "member_fits m \<longleftrightarrow> fits_u64 (as_bytes (mm_name m)) \<and> fits_u64 (as_bytes (mm_media_type m))"

interpretation manifest_code: nonempty_code manifest_record member_fits
proof
  fix x y :: artifact_manifest_member and r s
  assume fits: "member_fits x" "member_fits y" and eq: "manifest_record x @ r = manifest_record y @ s"
  then have "mm_name x = mm_name y \<and> mm_media_type x = mm_media_type y \<and> mm_bytes x = mm_bytes y \<and> r = s"
    by (simp add: manifest_record_def member_fits_def frame64.prefix_iff word64.prefix_iff)
  then show "x = y \<and> r = s" by simp
next
  fix x show "manifest_record x \<noteq> []"
    using length_be_word(3) [of "mm_bytes x"] by (auto simp: manifest_record_def simp del: length_be_word)
qed

lemma sort_key_mset:
  assumes "distinct (map f xs)" and "distinct (map f ys)"
  shows "sort_key f xs = sort_key f ys \<longleftrightarrow> mset xs = mset ys"
proof
  assume "mset xs = mset ys"
  then have eq: "set xs = set ys" by (rule mset_eq_setD)
  show "sort_key f xs = sort_key f ys"
  proof (rule map_sorted_distinct_set_unique)
    show "inj_on f (set (sort_key f xs) \<union> set (sort_key f ys))"
      using assms eq by (simp add: distinct_map)
    show "sorted (map f (sort_key f xs))" "sorted (map f (sort_key f ys))" by simp_all
    show "distinct (map f (sort_key f xs))" "distinct (map f (sort_key f ys))"
      using assms by (simp_all add: distinct_map)
    show "set (sort_key f xs) = set (sort_key f ys)" using eq by simp
  qed
qed (metis mset_sort)

section \<open>Properties\<close>






text \<open>
  C33. The manifest check: a set of members is accepted exactly when it has at most 1024 members with
  distinct, printable names of 1 to 512 bytes and the one media type, and its bytes add up, without
  wrap-around, to at most 256 MiB, the number it returns.
\<close>

theorem validate_manifest_accepts:
  "validate_manifest ms = Ok n \<longleftrightarrow> length ms \<le> 1024 \<and> distinct (map mm_name ms) \<and>
     (\<forall>m. m \<in> set ms \<longrightarrow> mm_name m \<noteq> [] \<and> length (mm_name m) \<le> 512 \<and>
       \<not> list_ex is_control (chars (mm_name m)) \<and> mm_media_type m = ''application/octet-stream'') \<and>
     n = (\<Sum>m\<leftarrow>ms. unat (mm_bytes m)) \<and> n \<le> 256 * 1048576"
  unfolding validate_manifest_eq_Ok list_all_iff member_ok_def total_bytes_def by blast

theorem validate_manifest_accepts_witness:
  "validate_manifest [\<lparr>mm_name = ''logs/a'', mm_bytes = 7, mm_media_type = ''application/octet-stream''\<rparr>] = Ok 7"
  by (subst validate_manifest_accepts) (simp add: is_control_def)

text \<open>
  C34. The manifest digest identifies the set: for accepted manifests it does not depend on the order
  of the members, and as long as the hash does not collide on the two messages, equal digests mean
  equal sets of members with equal sizes.
\<close>

theorem artifact_manifest_digest_identifies:
  assumes "validate_manifest xs = Ok m" and "validate_manifest ys = Ok n"
    and "inj_on (sha256 ext) {manifest_preimage xs, manifest_preimage ys}"
  shows "artifact_manifest_digest ext xs = artifact_manifest_digest ext ys \<longleftrightarrow> mset xs = mset ys"
proof -
  have fits: "list_all member_fits (sort_key mm_name zs)" if "validate_manifest zs = Ok k" for zs k
    unfolding list_all_iff
  proof
    fix x assume "x \<in> set (sort_key mm_name zs)"
    with that have "member_ok x" by (simp add: validate_manifest_eq_Ok list_all_iff)
    then show "member_fits x" by (simp add: member_ok_def member_fits_def fits_u64_def)
  qed
  have "artifact_manifest_digest ext xs = artifact_manifest_digest ext ys \<longleftrightarrow> manifest_preimage xs = manifest_preimage ys"
    unfolding artifact_manifest_digest_def by (rule inj_on_eq_iff [OF assms(3)]) simp_all
  also have "\<dots> \<longleftrightarrow> concat (map manifest_record (sort_key mm_name xs)) = concat (map manifest_record (sort_key mm_name ys))"
    by (simp only: manifest_preimage_def same_append_eq)
  also have "\<dots> \<longleftrightarrow> sort_key mm_name xs = sort_key mm_name ys"
    by (rule manifest_code.concat_inject [OF fits [OF assms(1)] fits [OF assms(2)]])
  also have "\<dots> \<longleftrightarrow> mset xs = mset ys"
    using assms(1,2) by (intro sort_key_mset) (simp_all add: validate_manifest_eq_Ok)
  finally show ?thesis .
qed

definition sample_member :: "string \<Rightarrow> artifact_manifest_member" where
  "sample_member name = \<lparr>mm_name = name, mm_bytes = 7, mm_media_type = ''application/octet-stream''\<rparr>"

theorem artifact_manifest_digest_identifies_witness:
  "artifact_manifest_digest sample_externals [sample_member ''a'', sample_member ''b''] =
   artifact_manifest_digest sample_externals [sample_member ''b'', sample_member ''a'']"
proof -
  have ok: "validate_manifest [sample_member ''a'', sample_member ''b''] = Ok 14"
    "validate_manifest [sample_member ''b'', sample_member ''a''] = Ok 14"
    by (simp_all add: validate_manifest_eq_Ok sample_member_def member_ok_def total_bytes_def is_control_def)
  have inj: "inj_on (sha256 sample_externals) M" for M by (simp add: sample_externals_def inj_on_def)
  show ?thesis using artifact_manifest_digest_identifies [OF ok inj] by (simp add: add_mset_commute)
qed

end
