(* ===== verification/Strict_Yaml.thy ===== *)
theory Strict_Yaml
  imports Ordered_Map
begin

text \<open>
  The admission of YAML source (\<open>crates/pipeline-ir/src/strict_yaml.rs\<close>): the scan for
  directives, the filter over the scanner's event stream, and the cursor that builds one tree.
  The scanner itself (\<open>saphyr_parser\<close>) is another package: it is an argument, a function from the
  source to the items its iterator yields. The cursor recurses on fuel and gives \<open>Unfinished\<close> when it runs
  out, which theory \<open>Yaml_Admission\<close> excludes.
\<close>

section \<open>Limits, positions, errors, trees\<close>

record parse_limits =
  pl_source_bytes :: nat
  pl_nodes :: nat
  pl_depth :: nat
  pl_scalar_bytes :: nat
  pl_mapping_entries :: nat
  pl_sequence_items :: nat

definition default_parse_limits :: parse_limits where
  "default_parse_limits = \<lparr>pl_source_bytes = 256 * 1024, pl_nodes = 4096, pl_depth = 32,
     pl_scalar_bytes = 16 * 1024, pl_mapping_entries = 256, pl_sequence_items = 1024\<rparr>"

record source_location =
  loc_offset :: nat
  loc_line :: nat
  loc_column :: nat

record source_span =
  span_start :: source_location
  span_end :: source_location

definition default_location :: source_location where
  "default_location = \<lparr>loc_offset = 0, loc_line = 0, loc_column = 0\<rparr>"

definition span_at :: "source_location \<Rightarrow> source_span" where
  "span_at location = \<lparr>span_start = location, span_end = location\<rparr>"

definition default_span :: source_span where
  "default_span = span_at default_location"

datatype admission_code =
    A_SourceTooLarge | A_Syntax | A_Directive | A_MultipleDocuments | A_Alias | A_Anchor | A_Tag
  | A_EmptyScalar | A_ComplexKey | A_DuplicateKey | A_DepthLimit | A_NodeLimit | A_ScalarLimit
  | A_MappingLimit | A_SequenceLimit | A_UnexpectedEvent

record admission_error =
  ae_code :: admission_code
  ae_message :: string
  ae_span :: source_span

definition admission_error :: "admission_code \<Rightarrow> string \<Rightarrow> source_span \<Rightarrow> admission_error" where
  "admission_error c message span = \<lparr>ae_code = c, ae_message = message, ae_span = span\<rparr>"

datatype yaml_value =
    Y_Null
  | Y_Bool bool
  | Y_Integer i64
  | Y_String string
  | Y_Sequence "spanned_value list"
  | Y_Mapping "mapping_entry list"
and spanned_value = Spanned (sv_value: yaml_value) (sv_span: source_span)
and mapping_entry = Entry (me_key: string) (me_key_span: source_span) (me_value: spanned_value)

section \<open>Scalars\<close>

text \<open>The scalar styles of the scanner; only \<open>Plain\<close> is told apart.\<close>

datatype scalar_style = Plain | Single_Quoted | Double_Quoted | Block_Literal | Block_Folded

definition is_decimal_integer :: "string \<Rightarrow> bool" where
  "is_decimal_integer v =
     (let digits = (case strip_prefix ''-'' v of
            Some d \<Rightarrow> d
          | None \<Rightarrow> (case strip_prefix ''+'' v of Some d \<Rightarrow> d | None \<Rightarrow> v))
      in if digits = [] then False
         else if length digits > 1 \<and> starts_with ''0'' digits then False
         else list_all is_ascii_digit digits)"

definition resolve_scalar ::
  "string \<Rightarrow> scalar_style \<Rightarrow> source_span \<Rightarrow> (yaml_value, admission_error) result" where
  "resolve_scalar v style span =
     (if style = Plain \<and> span_start span = span_end span
      then Err (admission_error A_EmptyScalar ''implicit empty scalars are not supported'' span)
      else if style \<noteq> Plain then Ok (Y_String v)
      else if v = [] then Err (admission_error A_EmptyScalar ''implicit empty scalars are not supported'' span)
      else if v = ''null'' then Ok Y_Null
      else if v = ''true'' then Ok (Y_Bool True)
      else if v = ''false'' then Ok (Y_Bool False)
      else if is_decimal_integer v then
        (case parse_i64 v of
           Some n \<Rightarrow> Ok (Y_Integer n)
         | None \<Rightarrow> Err (admission_error A_Syntax ''integer is outside the signed 64-bit range'' span))
      else Ok (Y_String v))"

section \<open>The cursor over the events\<close>

datatype owned_event =
    OE_Scalar string scalar_style | OE_SequenceStart | OE_SequenceEnd | OE_MappingStart | OE_MappingEnd

record spanned_event =
  se_event :: owned_event
  se_span :: source_span

text \<open>The events from \<open>index\<close> on, and the count of nodes.\<close>

record cursor =
  cu_events :: "spanned_event list"
  cu_nodes :: nat

datatype yaml_failure = Refused admission_error | Unfinished

type_synonym 'a cursor_result = "('a \<times> cursor, yaml_failure) result"

definition error_here :: "cursor \<Rightarrow> admission_code \<Rightarrow> string \<Rightarrow> yaml_failure" where
  "error_here cu c message =
     Refused (admission_error c message
       (case cu_events cu of [] \<Rightarrow> default_span | e # _ \<Rightarrow> se_span e))"

definition refuse :: "admission_code \<Rightarrow> string \<Rightarrow> source_span \<Rightarrow> ('a, yaml_failure) result" where
  "refuse c message span = Err (Refused (admission_error c message span))"

definition sequence_limit_message :: "parse_limits \<Rightarrow> string" where
  "sequence_limit_message lim = ''sequence length exceeds '' @ show_nat (pl_sequence_items lim)"

definition mapping_limit_message :: "parse_limits \<Rightarrow> string" where
  "mapping_limit_message lim = ''mapping length exceeds '' @ show_nat (pl_mapping_entries lim)"

text \<open>The loop that follows a \<open>SequenceStart\<close> with span \<open>span\<close>; \<open>node\<close> parses one value.\<close>

primrec sequence_loop ::
  "nat \<Rightarrow> parse_limits \<Rightarrow> (cursor \<Rightarrow> spanned_value cursor_result) \<Rightarrow> source_span
     \<Rightarrow> spanned_value list \<Rightarrow> cursor \<Rightarrow> spanned_value cursor_result" where
  "sequence_loop 0 lim node span vals cu = Err Unfinished"
| "sequence_loop (Suc fuel) lim node span vals cu =
     (case cu_events cu of
        [] \<Rightarrow> refuse A_UnexpectedEvent ''unterminated sequence'' span
      | e # rest \<Rightarrow>
          if se_event e = OE_SequenceEnd
          then Ok (Spanned (Y_Sequence vals) \<lparr>span_start = span_start span, span_end = span_end (se_span e)\<rparr>,
                   cu\<lparr>cu_events := rest\<rparr>)
          else if length vals \<ge> pl_sequence_items lim
          then refuse A_SequenceLimit (sequence_limit_message lim) (se_span e)
          else and_then (node cu) (\<lambda>(v, cu). sequence_loop fuel lim node span (vals @ [v]) cu))"

text \<open>The loop that follows a \<open>MappingStart\<close>; \<open>keys\<close> is the set of keys seen.\<close>

primrec mapping_loop ::
  "nat \<Rightarrow> parse_limits \<Rightarrow> (cursor \<Rightarrow> spanned_value cursor_result) \<Rightarrow> source_span
     \<Rightarrow> mapping_entry list \<Rightarrow> string set \<Rightarrow> cursor \<Rightarrow> spanned_value cursor_result" where
  "mapping_loop 0 lim node span entries keys cu = Err Unfinished"
| "mapping_loop (Suc fuel) lim node span entries keys cu =
     (case cu_events cu of
        [] \<Rightarrow> refuse A_UnexpectedEvent ''unterminated mapping'' span
      | e # rest \<Rightarrow>
          if se_event e = OE_MappingEnd
          then Ok (Spanned (Y_Mapping entries) \<lparr>span_start = span_start span, span_end = span_end (se_span e)\<rparr>,
                   cu\<lparr>cu_events := rest\<rparr>)
          else if length entries \<ge> pl_mapping_entries lim
          then refuse A_MappingLimit (mapping_limit_message lim) (se_span e)
          else and_then (node cu) (\<lambda>(key, cu).
            case sv_value key of
              Y_String key_text \<Rightarrow>
                if key_text \<in> keys
                then refuse A_DuplicateKey (''duplicate mapping key '' @ debug_str key_text) (sv_span key)
                else and_then (node cu) (\<lambda>(v, cu).
                  mapping_loop fuel lim node span (entries @ [Entry key_text (sv_span key) v])
                    (insert key_text keys) cu)
            | _ \<Rightarrow> refuse A_ComplexKey ''mapping keys must be non-empty strings'' (sv_span key)))"

primrec parse_node :: "nat \<Rightarrow> parse_limits \<Rightarrow> nat \<Rightarrow> cursor \<Rightarrow> spanned_value cursor_result" where
  "parse_node 0 lim depth cu = Err Unfinished"
| "parse_node (Suc fuel) lim depth cu =
     (if depth > pl_depth lim
      then Err (error_here cu A_DepthLimit (''nesting depth exceeds '' @ show_nat (pl_depth lim)))
      else
       let cu = cu\<lparr>cu_nodes := cu_nodes cu + 1\<rparr> in
       if cu_nodes cu > pl_nodes lim
       then Err (error_here cu A_NodeLimit (''node count exceeds '' @ show_nat (pl_nodes lim)))
       else
        case cu_events cu of
          [] \<Rightarrow> Err (error_here cu A_UnexpectedEvent ''expected a YAML value'')
        | event # rest \<Rightarrow>
            let cu = cu\<lparr>cu_events := rest\<rparr> in
            case se_event event of
              OE_Scalar v style \<Rightarrow>
                if length v > pl_scalar_bytes lim
                then refuse A_ScalarLimit
                  (''scalar length exceeds '' @ show_nat (pl_scalar_bytes lim) @ '' bytes'') (se_span event)
                else and_then (map_err Refused (resolve_scalar v style (se_span event))) (\<lambda>v.
                  Ok (Spanned v (se_span event), cu))
            | OE_SequenceStart \<Rightarrow>
                sequence_loop fuel lim (parse_node fuel lim (depth + 1)) (se_span event) [] cu
            | OE_MappingStart \<Rightarrow>
                mapping_loop fuel lim (parse_node fuel lim (depth + 1)) (se_span event) [] {} cu
            | _ \<Rightarrow> refuse A_UnexpectedEvent ''unexpected collection terminator'' (se_span event))"

section \<open>The scanner's stream\<close>

text \<open>What the scanner's iterator yields: events with spans in characters, or an error.\<close>

record marker =
  mk_index :: nat
  mk_line :: nat
  mk_col :: nat

datatype parser_event =
    PE_Nothing | PE_StreamStart | PE_StreamEnd | PE_DocumentStart | PE_DocumentEnd | PE_Alias
  | PE_Scalar string scalar_style nat "string option"
  | PE_SequenceStart nat "string option" | PE_SequenceEnd
  | PE_MappingStart nat "string option" | PE_MappingEnd

record scan_error =
  sc_marker :: marker
  sc_info :: string

type_synonym scanner = "string \<Rightarrow> (parser_event \<times> marker \<times> marker, scan_error) result list"

text \<open>\<open>char_indices\<close> followed by the length of the source.\<close>

fun char_offsets :: "nat \<Rightarrow> string list \<Rightarrow> nat list" where
  "char_offsets offset [] = [offset]"
| "char_offsets offset (c # cs) = offset # char_offsets (offset + length c) cs"

definition byte_offset :: "nat list \<Rightarrow> nat \<Rightarrow> nat" where
  "byte_offset offsets index =
     (if index < length offsets then offsets ! index else if offsets = [] then 0 else last offsets)"

definition location_of :: "nat list \<Rightarrow> marker \<Rightarrow> source_location" where
  "location_of offsets mk =
     \<lparr>loc_offset = byte_offset offsets (mk_index mk), loc_line = mk_line mk, loc_column = mk_col mk\<rparr>"

definition from_parser :: "nat list \<Rightarrow> marker \<times> marker \<Rightarrow> source_span" where
  "from_parser offsets span =
     \<lparr>span_start = location_of offsets (fst span), span_end = location_of offsets (snd span)\<rparr>"

definition reject_anchor_or_tag ::
  "nat \<Rightarrow> string option \<Rightarrow> source_span \<Rightarrow> (unit, admission_error) result" where
  "reject_anchor_or_tag anchor tag span =
     (if anchor \<noteq> 0 then Err (admission_error A_Anchor ''anchors are not supported'' span)
      else case tag of
        Some t \<Rightarrow> Err (admission_error A_Tag (''tag '' @ t @ '' is not supported'') span)
      | None \<Rightarrow> Ok ())"

record stream_state =
  st_events :: "spanned_event list"
  st_documents :: nat
  st_parsed_nodes :: nat
  st_depth :: nat

definition enforce_stream_node_limit ::
  "stream_state \<Rightarrow> nat \<Rightarrow> parse_limits \<Rightarrow> source_span \<Rightarrow> (stream_state, admission_error) result" where
  "enforce_stream_node_limit st depth lim span =
     (let parsed_nodes = saturating_add (st_parsed_nodes st) 1 in
      if parsed_nodes > pl_nodes lim
      then Err (admission_error A_NodeLimit (''node count exceeds '' @ show_nat (pl_nodes lim)) span)
      else if depth > pl_depth lim
      then Err (admission_error A_DepthLimit (''nesting depth exceeds '' @ show_nat (pl_depth lim)) span)
      else Ok (st\<lparr>st_parsed_nodes := parsed_nodes\<rparr>))"

definition push_event :: "owned_event \<Rightarrow> source_span \<Rightarrow> stream_state \<Rightarrow> stream_state" where
  "push_event e span st = st\<lparr>st_events := st_events st @ [\<lparr>se_event = e, se_span = span\<rparr>]\<rparr>"

definition open_collection ::
  "owned_event \<Rightarrow> nat \<Rightarrow> string option \<Rightarrow> parse_limits \<Rightarrow> source_span \<Rightarrow> stream_state
     \<Rightarrow> (stream_state, admission_error) result" where
  "open_collection e anchor tag lim span st =
     and_then (reject_anchor_or_tag anchor tag span) (\<lambda>_.
     let st = st\<lparr>st_depth := saturating_add (st_depth st) 1\<rparr> in
     and_then (enforce_stream_node_limit st (st_depth st) lim span) (\<lambda>st. Ok (push_event e span st)))"

definition close_collection :: "owned_event \<Rightarrow> source_span \<Rightarrow> stream_state \<Rightarrow> stream_state" where
  "close_collection e span st = push_event e span (st\<lparr>st_depth := st_depth st - 1\<rparr>)"

definition stream_step ::
  "nat list \<Rightarrow> parse_limits \<Rightarrow> stream_state \<Rightarrow> (parser_event \<times> marker \<times> marker, scan_error) result
     \<Rightarrow> (stream_state, admission_error) result" where
  "stream_step offsets lim st parsed =
     (case parsed of
        Err error \<Rightarrow>
          Err (admission_error (if contains_str ''unknown anchor'' (sc_info error) then A_Alias else A_Syntax)
            (sc_info error) (span_at (location_of offsets (sc_marker error))))
      | Ok (event, parser_span) \<Rightarrow>
          let span = from_parser offsets parser_span in
          case event of
            PE_DocumentStart \<Rightarrow>
              let documents = st_documents st + 1 in
              if documents > 1
              then Err (admission_error A_MultipleDocuments ''exactly one YAML document is accepted'' span)
              else Ok (st\<lparr>st_documents := documents\<rparr>)
          | PE_Alias \<Rightarrow> Err (admission_error A_Alias ''aliases are not supported'' span)
          | PE_Scalar v style anchor tag \<Rightarrow>
              and_then (reject_anchor_or_tag anchor tag span) (\<lambda>_.
              and_then (enforce_stream_node_limit st (saturating_add (st_depth st) 1) lim span) (\<lambda>st.
              if length v > pl_scalar_bytes lim
              then Err (admission_error A_ScalarLimit
                (''scalar length exceeds '' @ show_nat (pl_scalar_bytes lim) @ '' bytes'') span)
              else Ok (push_event (OE_Scalar v style) span st)))
          | PE_SequenceStart anchor tag \<Rightarrow> open_collection OE_SequenceStart anchor tag lim span st
          | PE_SequenceEnd \<Rightarrow> Ok (close_collection OE_SequenceEnd span st)
          | PE_MappingStart anchor tag \<Rightarrow> open_collection OE_MappingStart anchor tag lim span st
          | PE_MappingEnd \<Rightarrow> Ok (close_collection OE_MappingEnd span st)
          | _ \<Rightarrow> Ok st)"

section \<open>Admission\<close>

text \<open>\<open>split_inclusive\<close>: every piece keeps its separator; no empty piece at the end.\<close>

fun split_inclusive :: "char \<Rightarrow> string \<Rightarrow> string list" where
  "split_inclusive sep [] = []"
| "split_inclusive sep (c # s) =
     (if c = sep then [c] # split_inclusive sep s
      else case split_inclusive sep s of [] \<Rightarrow> [[c]] | p # ps \<Rightarrow> (c # p) # ps)"

definition strip_suffix_char :: "char \<Rightarrow> string \<Rightarrow> string option" where
  "strip_suffix_char c s = (if s \<noteq> [] \<and> last s = c then Some (butlast s) else None)"

definition trim_start :: "string \<Rightarrow> string" where
  "trim_start s = concat (dropWhile is_whitespace (chars s))"

definition byte_order_mark :: string where
  "byte_order_mark = [CHR 0xEF, CHR 0xBB, CHR 0xBF]"

fun directive_scan :: "nat \<Rightarrow> nat \<Rightarrow> string list \<Rightarrow> (unit, admission_error) result" where
  "directive_scan line_index line_offset [] = Ok ()"
| "directive_scan line_index line_offset (line # lines) =
     (let unterminated = (case strip_suffix_char (CHR 0x0A) line of Some l \<Rightarrow> l | None \<Rightarrow> line);
          content = (case strip_suffix_char (CHR 0x0D) unterminated of Some l \<Rightarrow> l | None \<Rightarrow> line);
          bom_bytes = (if line_index = 0 \<and> starts_with byte_order_mark content then 3 else 0);
          candidate = drop bom_bytes content
      in if starts_with ''%'' candidate
         then Err (admission_error A_Directive ''YAML directives are not supported''
           (span_at \<lparr>loc_offset = line_offset + bom_bytes, loc_line = line_index + 1,
                     loc_column = (if bom_bytes > 0 then 1 else 0)\<rparr>))
         else let trimmed = trim_start candidate in
           if trimmed \<noteq> [] \<and> \<not> starts_with ''#'' trimmed then Ok ()
           else directive_scan (line_index + 1) (saturating_add line_offset (length line)) lines)"

definition parse_strict ::
  "scanner \<Rightarrow> string \<Rightarrow> parse_limits \<Rightarrow> (spanned_value, yaml_failure) result" where
  "parse_strict scan source lim =
     (if length source > pl_source_bytes lim
      then refuse A_SourceTooLarge
        (''source exceeds '' @ show_nat (pl_source_bytes lim) @ '' bytes'') default_span
      else let offsets = char_offsets 0 (chars source) in
       and_then (map_err Refused (directive_scan 0 0 (split_inclusive (CHR 0x0A) source))) (\<lambda>_.
       and_then (map_err Refused (try_fold (stream_step offsets lim)
         \<lparr>st_events = [], st_documents = 0, st_parsed_nodes = 0, st_depth = 0\<rparr> (scan source))) (\<lambda>st.
       if st_documents st \<noteq> 1 \<or> st_events st = []
       then refuse A_UnexpectedEvent ''exactly one non-empty YAML document is required'' default_span
       else and_then (parse_node (length (st_events st) + 1) lim 1
           \<lparr>cu_events = st_events st, cu_nodes = 0\<rparr>) (\<lambda>(root, cu).
         if cu_events cu \<noteq> []
         then Err (error_here cu A_UnexpectedEvent ''unexpected content after the root value'')
         else Ok root))))"

end
