(* ===== verification/Model.thy ===== *)
theory Model
  imports Expression Artifacts Strict_Yaml
begin

text \<open>
  Pipeline IR (\<open>crates/pipeline-ir/src/model.rs\<close>): the data types, the structural validation of a
  pipeline, the binding of parameter values, and the instantiation of a template.
\<close>

abbreviation MAX_IR_STRING_BYTES :: nat where "MAX_IR_STRING_BYTES \<equiv> 16 * 1024"
abbreviation MAX_STAGES :: nat where "MAX_STAGES \<equiv> 128"
abbreviation MAX_STEPS :: nat where "MAX_STEPS \<equiv> 4096"
abbreviation MAX_PARAMETERS :: nat where "MAX_PARAMETERS \<equiv> 128"
abbreviation MAX_EXPRESSION_BINDINGS :: nat where "MAX_EXPRESSION_BINDINGS \<equiv> 8192"

section \<open>Types\<close>

record schema_version =
  major :: u16
  minor :: u16

definition IR_V1_minor :: "u16 \<Rightarrow> schema_version" where
  "IR_V1_minor m = \<lparr>major = 1, minor = m\<rparr>"

datatype schema_compatibility = Compatible | ReaderTooOld | MajorMismatch

definition compatibility_with :: "schema_version \<Rightarrow> schema_version \<Rightarrow> schema_compatibility" where
  "compatibility_with reader produced =
     (if major reader \<noteq> major produced then MajorMismatch
      else if minor reader < minor produced then ReaderTooOld
      else Compatible)"

record compiler_identity =
  compiler_name :: string
  compiler_version :: string

record provenance =
  source_id :: string
  source_sha256 :: "byte list"
  prov_compiler :: compiler_identity

datatype parameter_type = PT_Bool | PT_Integer | PT_String

definition pt_name :: "parameter_type \<Rightarrow> string" where
  "pt_name t = (case t of PT_Bool \<Rightarrow> ''boolean'' | PT_Integer \<Rightarrow> ''integer'' | PT_String \<Rightarrow> ''string'')"

definition accepts :: "parameter_type \<Rightarrow> parameter_value \<Rightarrow> bool" where
  "accepts t v =
     (case (t, v) of
        (PT_Bool, PV_Bool _) \<Rightarrow> True
      | (PT_Integer, PV_Integer _) \<Rightarrow> True
      | (PT_String, PV_String _) \<Rightarrow> True
      | _ \<Rightarrow> False)"

record parameter_definition =
  pd_type :: parameter_type
  pd_default :: "parameter_value option"
  pd_secret :: bool

record expression_binding =
  eb_path :: string
  eb_expression :: expression

datatype process_mode = Direct | WindowsCmd | PowerShell

record process_step =
  pr_mode :: process_mode
  pr_program :: string
  pr_args :: "string list"
  pr_env :: "string btree_map"
  pr_timeout_seconds :: "u64 option"
  pr_source_span :: source_span

record connector_intent_step =
  cn_mapping_id :: string
  cn_mapping_digest :: string
  cn_effect_class :: connector_effect_class
  cn_effect_key_template :: string
  cn_public_input_schema :: "json_field_type btree_map"
  cn_protected_secret_ref_schema :: "json_field_type btree_map"
  cn_expected_public_result_schema :: "json_field_type btree_map"
  cn_timeout_seconds :: u64
  cn_ambiguity_policy :: ambiguity_policy
  cn_downstream_control_digest :: string
  cn_source_span :: source_span

record cache_intent_step =
  cs_intent :: cache_intent_spec
  cs_source_span :: source_span

record input_intent_step =
  is_intent :: input_intent_spec
  is_source_span :: source_span

record checkout_step =
  ck_spec :: checkout_step_spec
  ck_source_span :: source_span

datatype step =
    Process process_step
  | ConnectorIntent connector_intent_step
  | CacheIntent cache_intent_step
  | InputIntent input_intent_step
  | Checkout checkout_step

record stage =
  sg_id :: string
  sg_name :: string
  sg_image :: "string option"
  sg_steps :: "step list"
  sg_artifacts :: "artifact_spec list"
  sg_source_span :: source_span

record pipeline_ir =
  p_schema :: schema_version
  p_name :: string
  p_parameters :: "parameter_definition btree_map"
  p_parameter_values :: "parameter_value btree_map"
  p_expressions :: "expression_binding list"
  p_stages :: "stage list"
  p_notify :: "notify_target list"
  p_provenance :: provenance
  p_source_span :: source_span

record ir_validation_error =
  ie_path :: string
  ie_message :: string

definition ir_error :: "string \<Rightarrow> string \<Rightarrow> ir_validation_error" where
  "ir_error path message = \<lparr>ie_path = path, ie_message = message\<rparr>"

type_synonym validation = "(unit, ir_validation_error) result"

section \<open>Leaf checks\<close>

definition is_ir_byte :: "char \<Rightarrow> bool" where
  "is_ir_byte b \<longleftrightarrow> is_ascii_alphanumeric b \<or> b = CHR ''.'' \<or> b = CHR ''_'' \<or> b = CHR ''-''"

definition validate_identifier :: "string \<Rightarrow> string \<Rightarrow> validation" where
  "validate_identifier path v =
     (if v = [] \<or> \<not> list_all is_ir_byte v
      then Err (ir_error path ''must contain only ASCII letters, digits, dot, underscore, or hyphen'')
      else Ok ())"

definition validate_string_length :: "string \<Rightarrow> string \<Rightarrow> validation" where
  "validate_string_length path v =
     (if length v > MAX_IR_STRING_BYTES then Err (ir_error path ''string exceeds 16384 bytes'') else Ok ())"

definition validate_sha256_reference :: "string \<Rightarrow> string \<Rightarrow> validation" where
  "validate_sha256_reference path v =
     (case strip_prefix ''sha256:'' v of
        None \<Rightarrow> Err (ir_error path ''expected exact sha256:<64 lowercase hex> reference'')
      | Some h \<Rightarrow>
          if length h \<noteq> 64 \<or> \<not> list_all is_lower_hex h
          then Err (ir_error path ''expected exact sha256:<64 lowercase hex> reference'')
          else Ok ())"

definition validate_field_schema :: "string \<Rightarrow> json_field_type btree_map \<Rightarrow> validation" where
  "validate_field_schema path schema =
     (if length schema > MAX_PARAMETERS then Err (ir_error path ''field count exceeds 128'')
      else for_each (\<lambda>(name, _).
        and_then (validate_identifier (path @ ''.'' @ name) name) (\<lambda>_.
          validate_string_length (path @ ''.'' @ name) name)) schema)"

definition validate_parameter_value_length :: "string \<Rightarrow> parameter_value \<Rightarrow> validation" where
  "validate_parameter_value_length path v =
     (case v of
        PV_String s \<Rightarrow>
          if length s > max_string_bytes default_expression_limits
          then Err (ir_error path (''parameter string exceeds '' @
            show_nat (max_string_bytes default_expression_limits) @ '' bytes''))
          else Ok ()
      | _ \<Rightarrow> Ok ())"

section \<open>Parameters and expressions\<close>

definition stage_path :: "nat \<Rightarrow> string" where
  "stage_path i = ''$.stages['' @ show_nat i @ '']''"

definition step_path :: "nat \<Rightarrow> nat \<Rightarrow> string" where
  "step_path i j = stage_path i @ ''.steps['' @ show_nat j @ '']''"

definition notify_commit_path :: "nat \<Rightarrow> string" where
  "notify_commit_path i = ''$.notify['' @ show_nat i @ ''].github_status.commit''"

definition program_path :: "string \<Rightarrow> string" where
  "program_path base = base @ ''.process.program''"

definition argument_path :: "string \<Rightarrow> nat \<Rightarrow> string" where
  "argument_path base k = base @ ''.process.args['' @ show_nat k @ '']''"

definition environment_path :: "string \<Rightarrow> string \<Rightarrow> string" where
  "environment_path base name = base @ ''.process.env.'' @ name"

definition commit_path :: "string \<Rightarrow> string" where
  "commit_path base = base @ ''.checkout.commit''"

text \<open>The fields an expression may supply, by path, in the order they are inserted.\<close>

definition step_fields :: "string \<Rightarrow> step \<Rightarrow> (string \<times> string) list" where
  "step_fields base s =
     (case s of
        Process p \<Rightarrow>
          (program_path base, pr_program p)
          # map (\<lambda>(k, a). (argument_path base k, a)) (enumerate 0 (pr_args p))
          @ map (\<lambda>(n, v). (environment_path base n, v)) (pr_env p)
      | Checkout c \<Rightarrow> [(commit_path base, co_commit (ck_spec c))]
      | _ \<Rightarrow> [])"

definition stage_fields :: "nat \<Rightarrow> stage \<Rightarrow> (string \<times> string) list" where
  "stage_fields i s = concat (map (\<lambda>(j, st). step_fields (step_path i j) st) (enumerate 0 (sg_steps s)))"

definition notify_fields :: "nat \<Rightarrow> notify_target \<Rightarrow> (string \<times> string) list" where
  "notify_fields i t =
     (case t of GithubStatus _ commit _ _ \<Rightarrow> [(notify_commit_path i, commit)] | Webhook _ \<Rightarrow> [])"

definition expression_materialized_fields :: "pipeline_ir \<Rightarrow> string btree_map" where
  "expression_materialized_fields p =
     btree_insert_all []
       (concat (map (\<lambda>(i, s). stage_fields i s) (enumerate 0 (p_stages p)))
        @ concat (map (\<lambda>(i, t). notify_fields i t) (enumerate 0 (p_notify p))))"

primrec validate_expression_parameters ::
  "expression \<Rightarrow> parameter_definition btree_map \<Rightarrow> string \<Rightarrow> validation" where
  "validate_expression_parameters (E_Literal v) params path = Ok ()"
| "validate_expression_parameters (E_Parameter name) params path =
     (case btree_get params name of
        None \<Rightarrow> Err (ir_error path (''expression references undefined parameter '' @ debug_str name))
      | Some d \<Rightarrow>
          if pd_secret d
          then Err (ir_error path
            (''expression binding cannot materialize secret-tainted parameter '' @ debug_str name))
          else Ok ())"
| "validate_expression_parameters (E_Not e) params path = validate_expression_parameters e params path"
| "validate_expression_parameters (E_Equal l r) params path =
     and_then (validate_expression_parameters l params path) (\<lambda>_. validate_expression_parameters r params path)"
| "validate_expression_parameters (E_NotEqual l r) params path =
     and_then (validate_expression_parameters l params path) (\<lambda>_. validate_expression_parameters r params path)"
| "validate_expression_parameters (E_And l r) params path =
     and_then (validate_expression_parameters l params path) (\<lambda>_. validate_expression_parameters r params path)"
| "validate_expression_parameters (E_Or l r) params path =
     and_then (validate_expression_parameters l params path) (\<lambda>_. validate_expression_parameters r params path)"
| "validate_expression_parameters (E_Add l r) params path =
     and_then (validate_expression_parameters l params path) (\<lambda>_. validate_expression_parameters r params path)"

definition validate_parameter_definition ::
  "parameter_value btree_map \<Rightarrow> string \<times> parameter_definition \<Rightarrow> validation" where
  "validate_parameter_definition vals nd =
     (let name = fst nd; d = snd nd; path = ''$.parameters.'' @ name; value_path = ''$.parameter_values.'' @ name in
      and_then (validate_string_length path name) (\<lambda>_.
      and_then (validate_identifier path name) (\<lambda>_.
      if CHR ''.'' \<in> set name then Err (ir_error path ''parameter names must not contain dot'')
      else if pd_secret d \<and> pd_default d \<noteq> None
      then Err (ir_error (path @ ''.default'') ''secret parameters must not declare persisted defaults'')
      else if (case pd_default d of None \<Rightarrow> False | Some v \<Rightarrow> \<not> accepts (pd_type d) v)
      then Err (ir_error (path @ ''.default'') (''expected a '' @ pt_name (pd_type d) @ '' default''))
      else and_then (case pd_default d of None \<Rightarrow> Ok ()
             | Some v \<Rightarrow> validate_parameter_value_length (path @ ''.default'') v) (\<lambda>_.
        if pd_secret d then
          (if btree_contains vals name
           then Err (ir_error value_path ''secret parameter values must not be persisted in Pipeline IR'')
           else Ok ())
        else and_then (ok_or (ir_error value_path ''public parameter value is missing'') (btree_get vals name)) (\<lambda>v.
          if \<not> accepts (pd_type d) v
          then Err (ir_error value_path (''expected a '' @ pt_name (pd_type d) @ '' value''))
          else validate_parameter_value_length value_path v)))))"

definition public_context :: "parameter_value btree_map \<Rightarrow> evaluated_value btree_map" where
  "public_context vals = btree_insert_all [] (map (\<lambda>(n, v). (n, \<lparr>ev_value = v, ev_secret = False\<rparr>)) vals)"

definition display_code :: "expression_error_code \<Rightarrow> string" where
  "display_code c =
     (case c of
        SourceLimit \<Rightarrow> ''SourceLimit'' | Syntax \<Rightarrow> ''Syntax'' | UnknownContext \<Rightarrow> ''UnknownContext''
      | NodeLimit \<Rightarrow> ''NodeLimit'' | DepthLimit \<Rightarrow> ''DepthLimit'' | StringLimit \<Rightarrow> ''StringLimit''
      | OperationLimit \<Rightarrow> ''OperationLimit'' | MissingParameter \<Rightarrow> ''MissingParameter''
      | TypeMismatch \<Rightarrow> ''TypeMismatch'' | IntegerOverflow \<Rightarrow> ''IntegerOverflow'')"

definition display_expression_error :: "expression_error \<Rightarrow> string" where
  "display_expression_error e =
     display_code (error_code e) @ '' at byte '' @ show_nat (error_offset e) @ '': '' @ error_message e"

definition validate_binding ::
  "parameter_definition btree_map \<Rightarrow> evaluated_value btree_map \<Rightarrow> string btree_map \<Rightarrow> nat \<Rightarrow> string option
     \<Rightarrow> expression_binding \<Rightarrow> (string option, ir_validation_error) result" where
  "validate_binding params context materialized_fields index previous b =
     (let path = ''$.expressions['' @ show_nat index @ '']'';
          expression_error = (\<lambda>e. ir_error (path @ ''.expression'') (display_expression_error e)) in
      and_then (validate_string_length (path @ ''.path'') (eb_path b)) (\<lambda>_.
      if eb_path b = [] then Err (ir_error (path @ ''.path'') ''expression binding path must not be empty'')
      else if (case previous of None \<Rightarrow> False | Some q \<Rightarrow> q \<ge> eb_path b)
      then Err (ir_error (path @ ''.path'') ''expression binding paths must be unique and sorted'')
      else
      and_then (map_err expression_error (validate_expression (eb_expression b) default_expression_limits)) (\<lambda>_.
      and_then (validate_expression_parameters (eb_expression b) params path) (\<lambda>_.
      case btree_get materialized_fields (eb_path b) of
        None \<Rightarrow> Err (ir_error (path @ ''.path'') ''expression binding does not identify a materializable process field'')
      | Some materialized \<Rightarrow>
          and_then (map_err expression_error
            (evaluate_expression (eb_expression b) context default_expression_limits)) (\<lambda>evaluated.
          case ev_value evaluated of
            PV_String s \<Rightarrow>
              if s \<noteq> materialized
              then Err (ir_error (path @ ''.expression'') ''expression result does not match the materialized process field'')
              else Ok (Some (eb_path b))
          | _ \<Rightarrow> Err (ir_error (path @ ''.expression'') ''expression binding must evaluate to a string''))))))"

definition validate_parameters_and_expressions :: "pipeline_ir \<Rightarrow> validation" where
  "validate_parameters_and_expressions p =
     (if length (p_parameters p) > MAX_PARAMETERS
      then Err (ir_error ''$.parameters'' ''parameter count exceeds 128'')
      else
      and_then (for_each (validate_parameter_definition (p_parameter_values p)) (p_parameters p)) (\<lambda>_.
      case find (\<lambda>name. \<not> btree_contains (p_parameters p) name) (map fst (p_parameter_values p)) of
        Some name \<Rightarrow> Err (ir_error (''$.parameter_values.'' @ name) ''value does not have a parameter definition'')
      | None \<Rightarrow>
          if length (p_expressions p) > MAX_EXPRESSION_BINDINGS
          then Err (ir_error ''$.expressions'' ''expression binding count exceeds 8192'')
          else
          and_then (try_fold_index 0 (validate_binding (p_parameters p) (public_context (p_parameter_values p))
            (expression_materialized_fields p)) None (p_expressions p)) (\<lambda>_. Ok ())))"

section \<open>Stages\<close>

definition is_checkout :: "step \<Rightarrow> bool" where
  "is_checkout s = (case s of Checkout _ \<Rightarrow> True | _ \<Rightarrow> False)"

definition is_connector_intent :: "step \<Rightarrow> bool" where
  "is_connector_intent s = (case s of ConnectorIntent _ \<Rightarrow> True | _ \<Rightarrow> False)"

definition is_cache_intent :: "step \<Rightarrow> bool" where
  "is_cache_intent s = (case s of CacheIntent _ \<Rightarrow> True | _ \<Rightarrow> False)"

definition is_input_intent :: "step \<Rightarrow> bool" where
  "is_input_intent s = (case s of InputIntent _ \<Rightarrow> True | _ \<Rightarrow> False)"

definition is_single_step :: "step \<Rightarrow> bool" where
  "is_single_step s = (case s of ConnectorIntent _ \<Rightarrow> True | CacheIntent _ \<Rightarrow> True | InputIntent _ \<Rightarrow> True | _ \<Rightarrow> False)"

definition container_step :: "step \<Rightarrow> bool" where
  "container_step s = (case s of Process _ \<Rightarrow> True | Checkout _ \<Rightarrow> True | _ \<Rightarrow> False)"

definition container_environment_entry_refused :: "string \<times> string \<Rightarrow> bool" where
  "container_environment_entry_refused e \<longleftrightarrow>
     (case e of (name, v) \<Rightarrow>
        starts_with ''#'' name
        \<or> list_ex (\<lambda>c. c \<in> set [CHR ''='', CHR 0x0A, CHR 0x00]) name
        \<or> list_ex (\<lambda>c. c \<in> set [CHR 0x0A, CHR 0x00]) v)"

definition validate_container_step :: "nat \<Rightarrow> nat \<Rightarrow> step \<Rightarrow> validation" where
  "validate_container_step i j s =
     (case s of
        Process p \<Rightarrow>
          (case find container_environment_entry_refused (pr_env p) of
             Some (name, _) \<Rightarrow> Err (ir_error (environment_path (step_path i j) name)
               ''container stage environment values must be single-line without NUL and names must not begin with '#' or contain '=', newline or NUL'')
           | None \<Rightarrow> Ok ())
      | _ \<Rightarrow> Ok ())"

definition validate_image :: "u16 \<Rightarrow> nat \<Rightarrow> stage \<Rightarrow> validation" where
  "validate_image v i s =
     (case sg_image s of
        None \<Rightarrow> Ok ()
      | Some img \<Rightarrow>
          if v < 6 then Err (ir_error (stage_path i @ ''.image'') ''container stages require Pipeline IR v1.6'')
          else if \<not> is_digest_pinned_image img
          then Err (ir_error (stage_path i @ ''.image'') ''stage image must be a digest-pinned reference'')
          else if \<not> list_all container_step (sg_steps s)
          then Err (ir_error (stage_path i @ ''.image'') ''a container stage may hold process and checkout steps only'')
          else for_each_index 0 (validate_container_step i) (sg_steps s))"

definition validate_process_step :: "u16 \<Rightarrow> string \<Rightarrow> process_step \<Rightarrow> validation" where
  "validate_process_step v base p =
     (if v < 2 \<and> pr_mode p \<noteq> Direct
      then Err (ir_error (base @ ''.process.mode'') ''non-direct process modes require Pipeline IR v1.2'')
      else if trim (pr_program p) = [] then Err (ir_error (program_path base) ''program must not be empty'')
      else
      and_then (validate_string_length (program_path base) (pr_program p)) (\<lambda>_.
      if length (pr_args p) > MAX_STEPS \<or> length (pr_env p) > MAX_STEPS
      then Err (ir_error (base @ ''.process'') ''argument and environment counts must not exceed 4096'')
      else
      and_then (for_each_index 0 (\<lambda>k a. validate_string_length (argument_path base k) a) (pr_args p)) (\<lambda>_.
      if list_ex (\<lambda>(k, _). k = []) (pr_env p)
      then Err (ir_error (base @ ''.process.env'') ''environment keys must not be empty'')
      else for_each (\<lambda>(k, value).
        if length k > MAX_IR_STRING_BYTES
        then Err (ir_error (base @ ''.process.env'') (''environment key '' @ debug_str k @ '' exceeds 16384 bytes''))
        else validate_string_length (base @ ''.process.env'') value) (pr_env p))))"

definition validate_connector_step :: "u16 \<Rightarrow> string \<Rightarrow> connector_intent_step \<Rightarrow> validation" where
  "validate_connector_step v step_base c =
     (let base = step_base @ ''.connector_intent'' in
      if v < 3 then Err (ir_error base ''connector intents require Pipeline IR v1.3'')
      else
      and_then (validate_identifier (base @ ''.mapping_id'') (cn_mapping_id c)) (\<lambda>_.
      and_then (validate_sha256_reference (base @ ''.mapping_digest'') (cn_mapping_digest c)) (\<lambda>_.
      if trim (cn_effect_key_template c) = []
      then Err (ir_error (base @ ''.effect_key_template'') ''effect key template must not be empty'')
      else
      and_then (validate_string_length (base @ ''.effect_key_template'') (cn_effect_key_template c)) (\<lambda>_.
      and_then (validate_field_schema (base @ ''.public_input_schema'') (cn_public_input_schema c)) (\<lambda>_.
      and_then (validate_field_schema (base @ ''.protected_secret_ref_schema'') (cn_protected_secret_ref_schema c)) (\<lambda>_.
      and_then (for_each (\<lambda>(name, kind).
        if kind \<noteq> J_String
        then Err (ir_error (base @ ''.protected_secret_ref_schema.'' @ name) ''protected secret references must be opaque strings'')
        else Ok ()) (cn_protected_secret_ref_schema c)) (\<lambda>_.
      and_then (validate_field_schema (base @ ''.expected_public_result_schema'') (cn_expected_public_result_schema c)) (\<lambda>_.
      if cn_timeout_seconds c = 0 \<or> cn_timeout_seconds c > 86400
      then Err (ir_error (base @ ''.timeout_seconds'') ''timeout must be between 1 and 86400 seconds'')
      else validate_sha256_reference (base @ ''.downstream_control_digest'') (cn_downstream_control_digest c)))))))))"

definition validate_step :: "externals \<Rightarrow> u16 \<Rightarrow> nat \<Rightarrow> nat \<Rightarrow> step \<Rightarrow> validation" where
  "validate_step ext v i j s =
     (case s of
        Process p \<Rightarrow> validate_process_step v (step_path i j) p
      | InputIntent input \<Rightarrow>
          let base = step_path i j @ ''.input_intent'' in
          if v < 5 then Err (ir_error base ''input intents require Pipeline IR v1.5'')
          else map_err (\<lambda>e. ir_error base (''invalid bounded input intent or authority: '' @ e))
            (validate_input_intent (is_intent input))
      | CacheIntent cache \<Rightarrow>
          let base = step_path i j @ ''.cache_intent'' in
          if v < 4 then Err (ir_error base ''cache intents require Pipeline IR v1.4'')
          else map_err (\<lambda>e. ir_error base (''invalid bounded cache intent or authority: '' @ e))
            (validate_cache_intent ext (cs_intent cache))
      | Checkout checkout \<Rightarrow>
          let base = step_path i j @ ''.checkout'' in
          if v < 7 then Err (ir_error base ''checkout steps require Pipeline IR v1.7'')
          else map_err (\<lambda>e. ir_error base (''invalid bounded checkout step or authority: '' @ e))
            (validate_checkout (ck_spec checkout))
      | ConnectorIntent c \<Rightarrow> validate_connector_step v (step_path i j) c)"

definition validate_stage ::
  "externals \<Rightarrow> u16 \<Rightarrow> nat \<Rightarrow> string set \<times> nat \<Rightarrow> stage \<Rightarrow> (string set \<times> nat, ir_validation_error) result" where
  "validate_stage ext v i state s =
     (let path = stage_path i; (stage_ids, total_steps) = state in
      and_then (validate_identifier (path @ ''.id'') (sg_id s)) (\<lambda>_.
      and_then (validate_string_length (path @ ''.id'') (sg_id s)) (\<lambda>_.
      if sg_id s \<in> stage_ids then Err (ir_error (path @ ''.id'') ''stage IDs must be unique'')
      else if trim (sg_name s) = [] then Err (ir_error (path @ ''.name'') ''stage name must not be empty'')
      else
      and_then (validate_string_length (path @ ''.name'') (sg_name s)) (\<lambda>_.
      if sg_steps s = [] then Err (ir_error (path @ ''.steps'') ''stage must contain at least one step'')
      else if list_ex is_single_step (sg_steps s) \<and> length (sg_steps s) \<noteq> 1
      then Err (ir_error (path @ ''.steps'')
        (if list_ex is_connector_intent (sg_steps s)
         then ''a connector-intent stage must contain exactly one connector intent''
         else ''a cache-intent stage must contain exactly one cache intent''))
      else if length (filter is_checkout (sg_steps s)) > 1
      then Err (ir_error (path @ ''.steps'') ''a stage may hold at most one checkout step'')
      else
      let total_steps = saturating_add total_steps (length (sg_steps s)) in
      if total_steps > MAX_STEPS then Err (ir_error ''$.stages'' ''total step count exceeds 4096'')
      else
      and_then (if sg_artifacts s = [] then Ok ()
        else if v < 8 then Err (ir_error (path @ ''.artifacts'') ''declared artifacts require Pipeline IR v1.8'')
        else map_err (\<lambda>e. ir_error (path @ ''.artifacts'') (''invalid artifact declaration: '' @ e))
          (validate_declarations (sg_artifacts s))) (\<lambda>_.
      and_then (validate_image v i s) (\<lambda>_.
      and_then (for_each_index 0 (validate_step ext v i) (sg_steps s)) (\<lambda>_.
      Ok (insert (sg_id s) stage_ids, total_steps))))))))"

section \<open>The pipeline\<close>

definition supported_schema :: "schema_version \<Rightarrow> bool" where
  "supported_schema v \<longleftrightarrow> v \<in> set (map IR_V1_minor [0, 1, 2, 3, 4, 5, 6, 7, 8, 9])"

definition validate_pipeline :: "externals \<Rightarrow> pipeline_ir \<Rightarrow> validation" where
  "validate_pipeline ext p =
     (if \<not> supported_schema (p_schema p)
      then Err (ir_error ''$.schema'' ''only Pipeline IR v1.0 through v1.9 are accepted'')
      else if p_schema p = IR_V1_minor 0
        \<and> (p_parameters p \<noteq> [] \<or> p_parameter_values p \<noteq> [] \<or> p_expressions p \<noteq> [])
      then Err (ir_error ''$.schema'' ''Pipeline IR v1.0 cannot contain parameter or expression fields'')
      else
      and_then (validate_identifier ''$.name'' (p_name p)) (\<lambda>_.
      and_then (validate_string_length ''$.name'' (p_name p)) (\<lambda>_.
      and_then (validate_parameters_and_expressions p) (\<lambda>_.
      if p_stages p = [] \<or> length (p_stages p) > MAX_STAGES
      then Err (ir_error ''$.stages'' ''stage count must be between 1 and 128'')
      else
      and_then (if p_notify p = [] then Ok ()
        else if minor (p_schema p) < 9
        then Err (ir_error ''$.notify'' ''notification targets require Pipeline IR v1.9'')
        else map_err (\<lambda>e. ir_error ''$.notify'' (''invalid notification target: '' @ e))
          (validate_targets (p_notify p))) (\<lambda>_.
      and_then (try_fold_index 0 (validate_stage ext (minor (p_schema p))) ({}, 0) (p_stages p)) (\<lambda>_.
      Ok ()))))))"

section \<open>Compile errors\<close>

datatype compile_error_category = C_Admission | C_Schema | C_Expression | C_IrValidation

record compile_error =
  ce_category :: compile_error_category
  ce_path :: "string option"
  ce_message :: string
  ce_span :: "source_span option"

definition schema_error :: "string \<Rightarrow> string \<Rightarrow> compile_error" where
  "schema_error path message =
     \<lparr>ce_category = C_Schema, ce_path = Some path, ce_message = message, ce_span = None\<rparr>"

definition expression_compile_error :: "string \<Rightarrow> expression_error \<Rightarrow> compile_error" where
  "expression_compile_error path e =
     \<lparr>ce_category = C_Expression, ce_path = Some path, ce_message = display_expression_error e, ce_span = None\<rparr>"

definition validation_compile_error :: "ir_validation_error \<Rightarrow> compile_error" where
  "validation_compile_error e =
     \<lparr>ce_category = C_IrValidation, ce_path = Some (ie_path e), ce_message = ie_message e, ce_span = None\<rparr>"

definition with_span :: "source_span \<Rightarrow> compile_error \<Rightarrow> compile_error" where
  "with_span span e = e\<lparr>ce_span := Some span\<rparr>"

definition with_span_if_missing :: "source_span \<Rightarrow> compile_error \<Rightarrow> compile_error" where
  "with_span_if_missing span e = (if ce_span e = None then e\<lparr>ce_span := Some span\<rparr> else e)"

section \<open>Binding parameter values\<close>

record binding_state =
  bs_inputs :: "parameter_value btree_map"
  bs_public :: "parameter_value btree_map"
  bs_context :: "evaluated_value btree_map"

definition bind_parameter ::
  "binding_state \<Rightarrow> string \<times> parameter_definition \<Rightarrow> (binding_state, compile_error) result" where
  "bind_parameter s nd =
     (let name = fst nd; d = snd nd; path = ''$.parameter_values.'' @ name in
      and_then (ok_or (schema_error path ''required parameter input is missing'')
        (case btree_get (bs_inputs s) name of Some v \<Rightarrow> Some v | None \<Rightarrow> pd_default d)) (\<lambda>v.
      if \<not> accepts (pd_type d) v
      then Err (schema_error path (''expected a '' @ pt_name (pd_type d) @ '' value''))
      else Ok \<lparr>bs_inputs = btree_remove (bs_inputs s) name,
               bs_public = (if pd_secret d then bs_public s else btree_insert (bs_public s) name v),
               bs_context = btree_insert (bs_context s) name \<lparr>ev_value = v, ev_secret = pd_secret d\<rparr>\<rparr>))"

definition bind_parameter_values ::
  "parameter_definition btree_map \<Rightarrow> parameter_value btree_map
     \<Rightarrow> (parameter_value btree_map \<times> evaluated_value btree_map, compile_error) result" where
  "bind_parameter_values definitions inputs =
     (case find (\<lambda>name. \<not> btree_contains definitions name) (map fst inputs) of
        Some name \<Rightarrow> Err (schema_error (''$.parameter_values.'' @ name) ''input does not have a parameter definition'')
      | None \<Rightarrow>
          and_then (try_fold bind_parameter \<lparr>bs_inputs = inputs, bs_public = [], bs_context = []\<rparr> definitions) (\<lambda>s.
          Ok (bs_public s, bs_context s)))"

section \<open>Instantiating a template\<close>

definition resolve_binding ::
  "evaluated_value btree_map \<Rightarrow> string btree_map \<Rightarrow> expression_binding \<Rightarrow> (string btree_map, compile_error) result" where
  "resolve_binding context resolved b =
     and_then (map_err (expression_compile_error (eb_path b))
       (evaluate_expression (eb_expression b) context default_expression_limits)) (\<lambda>r.
     if ev_secret r
     then Err (schema_error (eb_path b) ''secret-tainted expression values cannot be materialized into Pipeline IR'')
     else case ev_value r of
       PV_String v \<Rightarrow> Ok (btree_insert resolved (eb_path b) v)
     | _ \<Rightarrow> Err (schema_error (eb_path b) ''process fields require an expression that evaluates to string''))"

text \<open>\<open>if let Some(value) = resolved.remove(path) { *field = value }\<close>.\<close>

definition materialize :: "string btree_map \<Rightarrow> string \<Rightarrow> string \<Rightarrow> string \<times> string btree_map" where
  "materialize resolved path field =
     (case btree_get resolved path of
        Some v \<Rightarrow> (v, btree_remove resolved path)
      | None \<Rightarrow> (field, resolved))"

fun materialize_args :: "string \<Rightarrow> nat \<Rightarrow> string btree_map \<Rightarrow> string list \<Rightarrow> string list \<times> string btree_map" where
  "materialize_args base k resolved [] = ([], resolved)"
| "materialize_args base k resolved (a # as) =
     (let (a, resolved) = materialize resolved (argument_path base k) a;
          (as, resolved) = materialize_args base (k + 1) resolved as
      in (a # as, resolved))"

fun materialize_env ::
  "string \<Rightarrow> string btree_map \<Rightarrow> string btree_map \<Rightarrow> string btree_map \<times> string btree_map" where
  "materialize_env base resolved [] = ([], resolved)"
| "materialize_env base resolved ((name, v) # env) =
     (let (v, resolved) = materialize resolved (environment_path base name) v;
          (env, resolved) = materialize_env base resolved env
      in ((name, v) # env, resolved))"

definition materialize_step :: "string \<Rightarrow> string btree_map \<Rightarrow> step \<Rightarrow> step \<times> string btree_map" where
  "materialize_step base resolved s =
     (case s of
        Process p \<Rightarrow>
          (let (program, resolved) = materialize resolved (program_path base) (pr_program p);
               (args, resolved) = materialize_args base 0 resolved (pr_args p);
               (env, resolved) = materialize_env base resolved (pr_env p)
           in (Process (p\<lparr>pr_program := program, pr_args := args, pr_env := env\<rparr>), resolved))
      | Checkout c \<Rightarrow>
          (let (commit, resolved) = materialize resolved (commit_path base) (co_commit (ck_spec c))
           in (Checkout (c\<lparr>ck_spec := (ck_spec c)\<lparr>co_commit := commit\<rparr>\<rparr>), resolved))
      | _ \<Rightarrow> (s, resolved))"

fun materialize_steps :: "nat \<Rightarrow> nat \<Rightarrow> string btree_map \<Rightarrow> step list \<Rightarrow> step list \<times> string btree_map" where
  "materialize_steps i j resolved [] = ([], resolved)"
| "materialize_steps i j resolved (s # ss) =
     (let (s, resolved) = materialize_step (step_path i j) resolved s;
          (ss, resolved) = materialize_steps i (j + 1) resolved ss
      in (s # ss, resolved))"

fun materialize_stages :: "nat \<Rightarrow> string btree_map \<Rightarrow> stage list \<Rightarrow> stage list \<times> string btree_map" where
  "materialize_stages i resolved [] = ([], resolved)"
| "materialize_stages i resolved (s # ss) =
     (let (steps, resolved) = materialize_steps i 0 resolved (sg_steps s);
          (ss, resolved) = materialize_stages (i + 1) resolved ss
      in (s\<lparr>sg_steps := steps\<rparr> # ss, resolved))"

fun materialize_notify ::
  "nat \<Rightarrow> string btree_map \<Rightarrow> notify_target list \<Rightarrow> notify_target list \<times> string btree_map" where
  "materialize_notify i resolved [] = ([], resolved)"
| "materialize_notify i resolved (t # ts) =
     (let (t, resolved) = (case t of
            GithubStatus m commit c r \<Rightarrow>
              (let (commit, resolved) = materialize resolved (notify_commit_path i) commit
               in (GithubStatus m commit c r, resolved))
          | Webhook _ \<Rightarrow> (t, resolved));
          (ts, resolved) = materialize_notify (i + 1) resolved ts
      in (t # ts, resolved))"

definition instantiate_pipeline ::
  "externals \<Rightarrow> pipeline_ir \<Rightarrow> parameter_value btree_map \<Rightarrow> (pipeline_ir, compile_error) result" where
  "instantiate_pipeline ext template inputs =
     and_then (map_err validation_compile_error (validate_pipeline ext template)) (\<lambda>_.
     and_then (bind_parameter_values (p_parameters template) inputs) (\<lambda>(parameter_values, context).
     and_then (try_fold (resolve_binding context) [] (p_expressions template)) (\<lambda>resolved.
     let (stages, resolved) = materialize_stages 0 resolved (p_stages template);
         (notify, resolved) = materialize_notify 0 resolved (p_notify template);
         pipeline = template\<lparr>p_parameter_values := parameter_values, p_stages := stages, p_notify := notify\<rparr>
     in case resolved of
          (path, _) # _ \<Rightarrow> Err (schema_error path ''expression binding does not identify a materializable process field'')
        | [] \<Rightarrow> and_then (map_err validation_compile_error (validate_pipeline ext pipeline)) (\<lambda>_. Ok pipeline))))"

end
