(* ===== verification/Yaml_Admission.thy ===== *)
theory Yaml_Admission
  imports Strict_Yaml
begin

text \<open>
  What the admission of YAML source guarantees: it always ends, every tree it returns is within the
  limits, and every tree within the limits has a stream of events that is admitted to it.
\<close>

section \<open>What is admitted\<close>

lemma size_me_value [termination_simp]:
  "e \<in> set es \<Longrightarrow> size (me_value e) < Suc (Suc (size_list size es))"
  using size_list_estimation' [of e es "size e" size] by (cases e) simp

text \<open>
  The trees within the limits at a nesting depth: every collection and every scalar bounded, the
  keys of a mapping distinct and, as nodes of their own, one level deeper than the mapping.
\<close>

fun admitted :: "parse_limits \<Rightarrow> nat \<Rightarrow> spanned_value \<Rightarrow> bool" where
  "admitted lim depth (Spanned (Y_Sequence vs) _) \<longleftrightarrow> depth \<le> pl_depth lim \<and>
     length vs \<le> pl_sequence_items lim \<and> (\<forall>v\<in>set vs. admitted lim (depth + 1) v)"
| "admitted lim depth (Spanned (Y_Mapping es) _) \<longleftrightarrow> depth \<le> pl_depth lim \<and>
     length es \<le> pl_mapping_entries lim \<and> distinct (map me_key es) \<and>
     (\<forall>e\<in>set es. depth + 1 \<le> pl_depth lim \<and> length (me_key e) \<le> pl_scalar_bytes lim \<and>
        admitted lim (depth + 1) (me_value e))"
| "admitted lim depth (Spanned (Y_String s) _) \<longleftrightarrow> depth \<le> pl_depth lim \<and> length s \<le> pl_scalar_bytes lim"
| "admitted lim depth (Spanned _ _) \<longleftrightarrow> depth \<le> pl_depth lim"

fun yaml_nodes :: "spanned_value \<Rightarrow> nat" where
  "yaml_nodes (Spanned (Y_Sequence vs) _) = 1 + sum_list (map yaml_nodes vs)"
| "yaml_nodes (Spanned (Y_Mapping es) _) = 1 + sum_list (map (\<lambda>e. 1 + yaml_nodes (me_value e)) es)"
| "yaml_nodes (Spanned _ _) = 1"

lemma admitted_depth: "admitted lim depth v \<Longrightarrow> depth \<le> pl_depth lim"
  by (induction lim depth v rule: admitted.induct) auto

lemma admitted_String:
  "sv_value v = Y_String s \<Longrightarrow> admitted lim depth v \<longleftrightarrow> depth \<le> pl_depth lim \<and> length s \<le> pl_scalar_bytes lim"
  "sv_value v = Y_String s \<Longrightarrow> yaml_nodes v = 1"
  by (cases v; simp)+

text \<open>
  The outcome of a parser of values: an admitted tree whose nodes were counted and whose events were
  consumed, or a refusal.
\<close>

definition parses_value ::
  "parse_limits \<Rightarrow> nat \<Rightarrow> nat \<Rightarrow> cursor \<Rightarrow> spanned_value cursor_result \<Rightarrow> bool" where
  "parses_value lim depth nodes cu r \<longleftrightarrow>
     (case r of
        Ok (v, cu') \<Rightarrow> length (cu_events cu') < length (cu_events cu) \<and> admitted lim depth v \<and>
          nodes + yaml_nodes v = cu_nodes cu' \<and> cu_nodes cu' \<le> pl_nodes lim
      | Err f \<Rightarrow> f \<noteq> Unfinished)"

lemma parses_value_Err [simp]:
  "parses_value lim depth nodes cu (refuse c m s)"
  "parses_value lim depth nodes cu (Err (error_here c' c m))"
  by (simp_all add: parses_value_def refuse_def error_here_def)

lemma parses_value_mono:
  "parses_value lim depth nodes cu r \<Longrightarrow> length (cu_events cu) \<le> length (cu_events cu') \<Longrightarrow>
    parses_value lim depth nodes cu' r"
  by (auto simp: parses_value_def split: result.splits)

definition value_parser :: "parse_limits \<Rightarrow> nat \<Rightarrow> nat \<Rightarrow> (cursor \<Rightarrow> spanned_value cursor_result) \<Rightarrow> bool" where
  "value_parser lim depth fuel node \<longleftrightarrow>
     (\<forall>cu. length (cu_events cu) < fuel \<longrightarrow> parses_value lim depth (cu_nodes cu) cu (node cu))"

lemma value_parser_cases:
  assumes "value_parser lim depth fuel node" and "length (cu_events cu) < fuel"
  obtains (Ok) v cu' where "node cu = Ok (v, cu')" "length (cu_events cu') < length (cu_events cu)"
      "admitted lim depth v" "cu_nodes cu' = cu_nodes cu + yaml_nodes v" "cu_nodes cu' \<le> pl_nodes lim"
    | (Err) e where "node cu = Err (Refused e)"
proof -
  from assms have r: "parses_value lim depth (cu_nodes cu) cu (node cu)"
    by (simp add: value_parser_def)
  show thesis
  proof (cases "node cu")
    case (Ok p)
    with r show thesis by (cases p) (auto simp: parses_value_def intro: that(1))
  next
    case (Err f)
    with r show thesis by (cases f) (auto simp: parses_value_def intro: that(2))
  qed
qed

lemma sequence_loop_parses:
  assumes node: "value_parser lim (depth + 1) n node" and d: "depth \<le> pl_depth lim"
  shows "length (cu_events cu) < fuel \<Longrightarrow> length (cu_events cu) < n \<Longrightarrow> length vals \<le> pl_sequence_items lim \<Longrightarrow>
    \<forall>v\<in>set vals. admitted lim (depth + 1) v \<Longrightarrow> nodes + 1 + sum_list (map yaml_nodes vals) = cu_nodes cu \<Longrightarrow>
    cu_nodes cu \<le> pl_nodes lim \<Longrightarrow> parses_value lim depth nodes cu (sequence_loop fuel lim node span vals cu)"
proof (induction fuel arbitrary: vals cu)
  case 0
  then show ?case by simp
next
  case (Suc fuel)
  show ?case
  proof (cases "cu_events cu")
    case Nil
    then show ?thesis by simp
  next
    case (Cons e rest)
    show ?thesis
    proof (cases "se_event e = OE_SequenceEnd \<or> length vals \<ge> pl_sequence_items lim")
      case True
      with Cons Suc.prems d show ?thesis by (auto simp: parses_value_def refuse_def)
    next
      case False
      from node Suc.prems(2) show ?thesis
      proof (cases rule: value_parser_cases)
        case (Ok v cu')
        have "parses_value lim depth nodes cu' (sequence_loop fuel lim node span (vals @ [v]) cu')"
          by (rule Suc.IH) (use Ok Suc.prems False in auto)
        with Ok Cons False show ?thesis by (auto intro: parses_value_mono)
      next
        case (Err err)
        with Cons False show ?thesis by (simp add: parses_value_def)
      qed
    qed
  qed
qed

lemma mapping_loop_parses:
  assumes node: "value_parser lim (depth + 1) n node" and d: "depth \<le> pl_depth lim"
  shows "length (cu_events cu) < fuel \<Longrightarrow> length (cu_events cu) < n \<Longrightarrow>
    admitted lim depth (Spanned (Y_Mapping es) span') \<Longrightarrow> keys = set (map me_key es) \<Longrightarrow>
    nodes + yaml_nodes (Spanned (Y_Mapping es) span') = cu_nodes cu \<Longrightarrow>
    cu_nodes cu \<le> pl_nodes lim \<Longrightarrow> parses_value lim depth nodes cu (mapping_loop fuel lim node span es keys cu)"
proof (induction fuel arbitrary: es keys cu)
  case 0
  then show ?case by simp
next
  case (Suc fuel)
  show ?case
  proof (cases "cu_events cu")
    case Nil
    then show ?thesis by simp
  next
    case (Cons e rest)
    show ?thesis
    proof (cases "se_event e = OE_MappingEnd \<or> length es \<ge> pl_mapping_entries lim")
      case True
      with Cons Suc.prems d show ?thesis by (auto simp: parses_value_def refuse_def)
    next
      case False
      from node Suc.prems(2) show ?thesis
      proof (cases rule: value_parser_cases)
        case key: (Ok key cu')
        show ?thesis
        proof (cases "\<exists>k. sv_value key = Y_String k \<and> k \<notin> keys")
          case True
          then obtain k where k: "sv_value key = Y_String k" "k \<notin> keys" by blast
          from node have "length (cu_events cu') < n" using key Suc.prems by simp
          with node show ?thesis
          proof (cases rule: value_parser_cases)
            case (Ok v cu'')
            have "parses_value lim depth nodes cu''
                (mapping_loop fuel lim node span (es @ [Entry k (sv_span key) v]) (insert k keys) cu'')"
              by (rule Suc.IH) (use Ok key k Suc.prems False in \<open>auto simp: admitted_String\<close>)
            with Ok key Cons False k show ?thesis by (auto intro: parses_value_mono)
          next
            case (Err err)
            with key Cons False k show ?thesis by (simp add: parses_value_def)
          qed
        next
          case no_key: False
          with key Cons False show ?thesis by (auto split: yaml_value.splits)
        qed
      next
        case (Err err)
        with Cons False show ?thesis by (simp add: parses_value_def)
      qed
    qed
  qed
qed

lemma resolve_scalar_admitted:
  "resolve_scalar v style span = Ok y \<Longrightarrow> length v \<le> pl_scalar_bytes lim \<Longrightarrow> depth \<le> pl_depth lim \<Longrightarrow>
    admitted lim depth (Spanned y s) \<and> yaml_nodes (Spanned y s) = 1"
  by (auto simp: resolve_scalar_def split: if_splits option.splits)

lemma parse_node_parses: "value_parser lim depth fuel (parse_node fuel lim depth)"
proof (induction fuel arbitrary: depth)
  case 0
  then show ?case by (simp add: value_parser_def)
next
  case (Suc fuel)
  have "parses_value lim depth (cu_nodes cu) cu (parse_node (Suc fuel) lim depth cu)"
    if fuel: "length (cu_events cu) < Suc fuel" for cu
  proof (cases "depth > pl_depth lim \<or> cu_nodes cu + 1 > pl_nodes lim \<or> cu_events cu = []")
    case True
    then show ?thesis by (auto simp: Let_def)
  next
    case False
    then obtain event rest where ev: "cu_events cu = event # rest" by (cases "cu_events cu") auto
    let ?cu = "cu\<lparr>cu_nodes := cu_nodes cu + 1, cu_events := rest\<rparr>"
    have seq: "parses_value lim depth (cu_nodes cu) ?cu
        (sequence_loop fuel lim (parse_node fuel lim (depth + 1)) (se_span event) [] ?cu)"
      by (rule sequence_loop_parses [OF Suc.IH]) (use False fuel ev in auto)
    have mp: "parses_value lim depth (cu_nodes cu) ?cu
        (mapping_loop fuel lim (parse_node fuel lim (depth + 1)) (se_span event) [] {} ?cu)"
      by (rule mapping_loop_parses [OF Suc.IH]) (use False fuel ev in auto)
    have scalar: "parses_value lim depth (cu_nodes cu) cu
        (and_then (map_err Refused (resolve_scalar v style (se_span event))) (\<lambda>v. Ok (Spanned v (se_span event), ?cu)))"
      if "length v \<le> pl_scalar_bytes lim" for v style
      using resolve_scalar_admitted [of v style "se_span event"] that False ev
      by (cases "resolve_scalar v style (se_span event)") (auto simp: parses_value_def)
    from False ev seq mp scalar show ?thesis
      by (auto simp: Let_def split: owned_event.splits intro: parses_value_mono)
  qed
  then show ?case by (simp add: value_parser_def)
qed

lemma parse_node_outcome:
  "parses_value lim 1 0 \<lparr>cu_events = evs, cu_nodes = 0\<rparr>
     (parse_node (length evs + 1) lim 1 \<lparr>cu_events = evs, cu_nodes = 0\<rparr>)"
  using parse_node_parses [of lim 1 "length evs + 1", unfolded value_parser_def,
      THEN spec [of _ "\<lparr>cu_events = evs, cu_nodes = 0\<rparr>"]] by simp

text \<open>
  C14. Admission is total and bounded: whatever the scanner yields, \<open>parse_strict\<close> ends with a tree
  or a refusal, and a tree it returns has a source and a node count within the limits, nesting,
  scalars and collections within the limits, and no duplicate key in any mapping.
\<close>

theorem parse_strict_admits:
  "case parse_strict scan source lim of
     Ok v \<Rightarrow> length source \<le> pl_source_bytes lim \<and> admitted lim 1 v \<and> yaml_nodes v \<le> pl_nodes lim
   | Err f \<Rightarrow> f \<noteq> Unfinished"
proof (cases "parse_strict scan source lim")
  case (Ok v)
  then obtain evs cu where len: "length source \<le> pl_source_bytes lim"
    and node: "parse_node (length evs + 1) lim 1 \<lparr>cu_events = evs, cu_nodes = 0\<rparr> = Ok (v, cu)"
    by (auto simp: parse_strict_def Let_def refuse_def ok_simps split: if_splits)
  from parse_node_outcome [of lim evs] len node Ok show ?thesis by (simp add: parses_value_def)
next
  case (Err f)
  have "f \<noteq> Unfinished"
  proof
    assume "f = Unfinished"
    with Err obtain evs where
      "parse_node (length evs + 1) lim 1 \<lparr>cu_events = evs, cu_nodes = 0\<rparr> = Err Unfinished"
      by (auto simp: parse_strict_def Let_def refuse_def error_here_def and_then_eq_Err map_err_eq_Err
          split: if_splits)
    with parse_node_outcome [of lim evs] show False by (simp add: parses_value_def)
  qed
  with Err show ?thesis by simp
qed

section \<open>Every tree within the limits is admitted\<close>

text \<open>
  The events of a tree: null, booleans and integers as plain scalars, strings quoted, a collection
  between events at its two ends.
\<close>

definition event_at :: "owned_event \<Rightarrow> source_span \<Rightarrow> spanned_event" where
  "event_at e span = \<lparr>se_event = e, se_span = span\<rparr>"

definition scalar_event :: "yaml_value \<Rightarrow> owned_event" where
  "scalar_event v =
     (case v of
        Y_Bool b \<Rightarrow> OE_Scalar (if b then ''true'' else ''false'') Plain
      | Y_Integer n \<Rightarrow> OE_Scalar (show_int (sint n)) Plain
      | Y_String s \<Rightarrow> OE_Scalar s Double_Quoted
      | _ \<Rightarrow> OE_Scalar ''null'' Plain)"

fun events_of :: "spanned_value \<Rightarrow> spanned_event list" where
  "events_of (Spanned (Y_Sequence vs) span) =
     event_at OE_SequenceStart (span_at (span_start span)) # concat (map events_of vs)
     @ [event_at OE_SequenceEnd (span_at (span_end span))]"
| "events_of (Spanned (Y_Mapping es) span) =
     event_at OE_MappingStart (span_at (span_start span))
     # concat (map (\<lambda>e. event_at (OE_Scalar (me_key e) Double_Quoted) (me_key_span e) # events_of (me_value e)) es)
     @ [event_at OE_MappingEnd (span_at (span_end span))]"
| "events_of (Spanned v span) = [event_at (scalar_event v) span]"

text \<open>A plain scalar covers some source, and its text is within the scalar limit.\<close>

fun scalars_fit :: "parse_limits \<Rightarrow> spanned_value \<Rightarrow> bool" where
  "scalars_fit lim (Spanned (Y_Sequence vs) _) \<longleftrightarrow> (\<forall>v\<in>set vs. scalars_fit lim v)"
| "scalars_fit lim (Spanned (Y_Mapping es) _) \<longleftrightarrow> (\<forall>e\<in>set es. scalars_fit lim (me_value e))"
| "scalars_fit lim (Spanned v span) \<longleftrightarrow>
     (case scalar_event v of
        OE_Scalar s style \<Rightarrow> length s \<le> pl_scalar_bytes lim \<and> (style = Plain \<longrightarrow> span_start span \<noteq> span_end span)
      | _ \<Rightarrow> False)"

lemma show_nat_hd: "0 < n \<Longrightarrow> hd (show_nat n) \<noteq> CHR ''0''"
proof (induction n rule: show_nat.induct)
  case (1 n)
  show ?case
  proof (cases "n < 10")
    case True
    with 1 show ?thesis
      by (subst show_nat.simps) (auto simp: digit_char_def char_of_eq_iff take_bit_eq_mod)
  next
    case False
    with 1 have "hd (show_nat (n div 10)) \<noteq> CHR ''0''" by simp
    with False show ?thesis by (subst show_nat.simps) simp
  qed
qed

lemma decimal_show_int: "is_decimal_integer (show_int k)"
proof -
  have zero: "\<not> (length (show_nat n) > 1 \<and> starts_with ''0'' (show_nat n))" for n
  proof (cases "n = 0")
    case True
    then show ?thesis by (subst show_nat.simps) simp
  next
    case False
    with show_nat_hd [of n] show ?thesis by (auto simp: starts_with_iff)
  qed
  have sign: "strip_prefix [c] (show_nat n) = None" if "\<not> is_ascii_digit c" for c n
    using that show_nat_digits [of "hd (show_nat n)" n] by (cases "show_nat n") auto
  have digits: "list_all is_ascii_digit (show_nat n)" for n
    by (simp add: list_all_iff show_nat_digits)
  show ?thesis
    using zero [of "nat k"] zero [of "nat (- k)"] digits sign
    by (auto simp: is_decimal_integer_def show_int_def Let_def not_digit_sign)
qed

lemma show_int_word:
  "show_int k \<noteq> []" "show_int k \<noteq> ''null''" "show_int k \<noteq> ''true''" "show_int k \<noteq> ''false''"
  using decimal_show_int [of k]
  by (auto simp: is_decimal_integer_def is_ascii_digit_def Let_def split: if_splits)

lemma events_of_start:
  obtains e es where "events_of v = e # es" "se_event e \<noteq> OE_SequenceEnd" "se_event e \<noteq> OE_MappingEnd"
  by (cases v rule: events_of.cases) (auto simp: event_at_def scalar_event_def)

lemma sequence_loop_events:
  assumes "se_event e = OE_SequenceEnd"
    and "\<And>v rest n. v \<in> set vs \<Longrightarrow> n + yaml_nodes v \<le> pl_nodes lim \<Longrightarrow>
      node \<lparr>cu_events = events_of v @ rest, cu_nodes = n\<rparr> = Ok (v, \<lparr>cu_events = rest, cu_nodes = n + yaml_nodes v\<rparr>)"
    and "length vs < fuel" and "length acc + length vs \<le> pl_sequence_items lim"
    and "n + sum_list (map yaml_nodes vs) \<le> pl_nodes lim"
  shows "sequence_loop fuel lim node span acc \<lparr>cu_events = concat (map events_of vs) @ e # rest, cu_nodes = n\<rparr> =
    Ok (Spanned (Y_Sequence (acc @ vs)) \<lparr>span_start = span_start span, span_end = span_end (se_span e)\<rparr>,
        \<lparr>cu_events = rest, cu_nodes = n + sum_list (map yaml_nodes vs)\<rparr>)"
  using assms(2-5)
proof (induction vs arbitrary: fuel acc n)
  case Nil
  with assms(1) show ?case by (cases fuel) auto
next
  case (Cons v vs)
  from Cons.prems(2) obtain f where f: "fuel = Suc f" by (cases fuel) auto
  obtain d ds where d: "events_of v = d # ds" "se_event d \<noteq> OE_SequenceEnd" by (rule events_of_start)
  have "sequence_loop f lim node span (acc @ [v])
      \<lparr>cu_events = concat (map events_of vs) @ e # rest, cu_nodes = n + yaml_nodes v\<rparr> =
    Ok (Spanned (Y_Sequence ((acc @ [v]) @ vs)) \<lparr>span_start = span_start span, span_end = span_end (se_span e)\<rparr>,
        \<lparr>cu_events = rest, cu_nodes = n + yaml_nodes v + sum_list (map yaml_nodes vs)\<rparr>)"
    by (rule Cons.IH) (use Cons.prems f in auto)
  with Cons.prems(1) [of v n "concat (map events_of vs) @ e # rest"] Cons.prems(3,4) d f
  show ?case by (simp add: add.assoc)
qed

lemma mapping_loop_events:
  assumes "se_event e = OE_MappingEnd"
    and "\<And>x rest n. x \<in> set es \<Longrightarrow> n + yaml_nodes (me_value x) \<le> pl_nodes lim \<Longrightarrow>
      node \<lparr>cu_events = events_of (me_value x) @ rest, cu_nodes = n\<rparr> =
        Ok (me_value x, \<lparr>cu_events = rest, cu_nodes = n + yaml_nodes (me_value x)\<rparr>)"
    and "\<And>x rest n. x \<in> set es \<Longrightarrow> n + 1 \<le> pl_nodes lim \<Longrightarrow>
      node \<lparr>cu_events = event_at (OE_Scalar (me_key x) Double_Quoted) (me_key_span x) # rest, cu_nodes = n\<rparr> =
        Ok (Spanned (Y_String (me_key x)) (me_key_span x), \<lparr>cu_events = rest, cu_nodes = n + 1\<rparr>)"
    and "length es < fuel" and "length acc + length es \<le> pl_mapping_entries lim"
    and "distinct (map me_key es)" and "keys \<inter> set (map me_key es) = {}"
    and "n + sum_list (map (\<lambda>x. 1 + yaml_nodes (me_value x)) es) \<le> pl_nodes lim"
  shows "mapping_loop fuel lim node span acc keys
      \<lparr>cu_events = concat (map (\<lambda>x. event_at (OE_Scalar (me_key x) Double_Quoted) (me_key_span x)
          # events_of (me_value x)) es) @ e # rest, cu_nodes = n\<rparr> =
    Ok (Spanned (Y_Mapping (acc @ es)) \<lparr>span_start = span_start span, span_end = span_end (se_span e)\<rparr>,
        \<lparr>cu_events = rest, cu_nodes = n + sum_list (map (\<lambda>x. 1 + yaml_nodes (me_value x)) es)\<rparr>)"
  using assms(2-8)
proof (induction es arbitrary: fuel acc keys n)
  case Nil
  with assms(1) show ?case by (cases fuel) auto
next
  case (Cons x es)
  from Cons.prems(3) obtain f where f: "fuel = Suc f" by (cases fuel) auto
  let ?evs = "concat (map (\<lambda>x. event_at (OE_Scalar (me_key x) Double_Quoted) (me_key_span x)
          # events_of (me_value x)) es) @ e # rest"
  have "mapping_loop f lim node span (acc @ [x]) (insert (me_key x) keys)
      \<lparr>cu_events = ?evs, cu_nodes = n + (1 + yaml_nodes (me_value x))\<rparr> =
    Ok (Spanned (Y_Mapping ((acc @ [x]) @ es)) \<lparr>span_start = span_start span, span_end = span_end (se_span e)\<rparr>,
        \<lparr>cu_events = rest, cu_nodes = n + (1 + yaml_nodes (me_value x)) +
          sum_list (map (\<lambda>x. 1 + yaml_nodes (me_value x)) es)\<rparr>)"
    by (rule Cons.IH) (use Cons.prems f in auto)
  moreover have "Entry (me_key x) (me_key_span x) (me_value x) = x" by simp
  ultimately show ?case
    using Cons.prems(1) [of x "n + 1" ?evs] Cons.prems(2) [of x n "events_of (me_value x) @ ?evs"]
      Cons.prems(4-7) f
    by (simp add: event_at_def add.assoc)
qed

lemmas resolve_scalar_simps = resolve_scalar_def decimal_show_int parse_i64_show_int show_int_word

lemma parse_node_scalar:
  assumes "depth \<le> pl_depth lim" and "n + 1 \<le> pl_nodes lim" and "length s \<le> pl_scalar_bytes lim"
    and "resolve_scalar s style span = Ok v" and "0 < fuel"
  shows "parse_node fuel lim depth \<lparr>cu_events = event_at (OE_Scalar s style) span # rest, cu_nodes = n\<rparr> =
    Ok (Spanned v span, \<lparr>cu_events = rest, cu_nodes = Suc n\<rparr>)"
  using assms by (cases fuel) (simp_all add: event_at_def Let_def)

lemma length_concat_ge: "(\<And>x. x \<in> set xs \<Longrightarrow> 1 \<le> length (f x)) \<Longrightarrow> length xs \<le> length (concat (map f xs))"
  by (induction xs) (auto, metis One_nat_def Suc_le_mono add_Suc add_mono plus_1_eq_Suc)

lemma length_member_concat: "x \<in> set xs \<Longrightarrow> length (f x) \<le> length (concat (map f xs))"
  by (induction xs) auto

lemma parse_node_events:
  "admitted lim depth v \<Longrightarrow> scalars_fit lim v \<Longrightarrow> n + yaml_nodes v \<le> pl_nodes lim \<Longrightarrow>
    length (events_of v) < fuel \<Longrightarrow>
    parse_node fuel lim depth \<lparr>cu_events = events_of v @ rest, cu_nodes = n\<rparr> =
      Ok (v, \<lparr>cu_events = rest, cu_nodes = n + yaml_nodes v\<rparr>)"
proof (induction v arbitrary: depth fuel n rest rule: events_of.induct)
  case (1 vs span)
  from "1.prems"(4) obtain f where f: "fuel = Suc f" by (cases fuel) auto
  let ?e = "event_at OE_SequenceEnd (span_at (span_end span))"
  have len: "length (events_of v) < f" if "v \<in> set vs" for v
    using length_member_concat [of v vs events_of] that "1.prems"(4) f by simp
  have "1 \<le> length (events_of v)" for v by (rule events_of_start [of v]) simp
  then have "length vs < f" using length_concat_ge [of vs events_of] "1.prems"(4) f by fastforce
  then have "sequence_loop f lim (parse_node f lim (depth + 1)) (span_at (span_start span)) []
      \<lparr>cu_events = concat (map events_of vs) @ ?e # rest, cu_nodes = n + 1\<rparr> =
    Ok (Spanned (Y_Sequence ([] @ vs)) \<lparr>span_start = span_start (span_at (span_start span)),
        span_end = span_end (se_span ?e)\<rparr>,
      \<lparr>cu_events = rest, cu_nodes = n + 1 + sum_list (map yaml_nodes vs)\<rparr>)"
    using "1.prems" f len
    by (intro sequence_loop_events "1.IH") (auto simp: event_at_def)
  with "1.prems" f show ?case by (simp add: event_at_def span_at_def Let_def)
next
  case (2 es span)
  from "2.prems"(4) obtain f where f: "fuel = Suc f" "0 < f" by (cases fuel) auto
  let ?e = "event_at OE_MappingEnd (span_at (span_end span))"
  let ?ev = "\<lambda>e. event_at (OE_Scalar (me_key e) Double_Quoted) (me_key_span e) # events_of (me_value e)"
  have len: "length (events_of (me_value x)) < f" if "x \<in> set es" for x
    using length_member_concat [of x es ?ev] that "2.prems"(4) f by simp
  have "length es < f" using length_concat_ge [of es ?ev] "2.prems"(4) f by simp
  then have "mapping_loop f lim (parse_node f lim (depth + 1)) (span_at (span_start span)) [] {}
      \<lparr>cu_events = concat (map ?ev es) @ ?e # rest, cu_nodes = n + 1\<rparr> =
    Ok (Spanned (Y_Mapping ([] @ es)) \<lparr>span_start = span_start (span_at (span_start span)),
        span_end = span_end (se_span ?e)\<rparr>,
      \<lparr>cu_events = rest, cu_nodes = n + 1 + sum_list (map (\<lambda>x. 1 + yaml_nodes (me_value x)) es)\<rparr>)"
    using "2.prems" f len
    by (intro mapping_loop_events "2.IH" parse_node_scalar) (auto simp: event_at_def resolve_scalar_def parse_node_scalar [unfolded event_at_def])
  with "2.prems" f show ?case by (simp add: event_at_def span_at_def Let_def)
qed (auto simp: scalar_event_def resolve_scalar_simps intro!: parse_node_scalar split: if_splits)

text \<open>
  C16. Admission loses nothing: the cursor turns the events of any tree within the limits back into
  exactly that tree, positions included, leaves the following events untouched and counts its nodes.
\<close>

theorem parse_node_roundtrip:
  assumes "admitted lim 1 v" and "scalars_fit lim v" and "yaml_nodes v \<le> pl_nodes lim"
  shows "parse_node (length (events_of v @ rest) + 1) lim 1 \<lparr>cu_events = events_of v @ rest, cu_nodes = 0\<rparr> =
    Ok (v, \<lparr>cu_events = rest, cu_nodes = yaml_nodes v\<rparr>)"
  using parse_node_events [of lim 1 v 0 "length (events_of v @ rest) + 1" rest] assms by simp

definition sample_span :: "nat \<Rightarrow> source_span" where
  "sample_span n = \<lparr>span_start = \<lparr>loc_offset = n, loc_line = 1, loc_column = n\<rparr>,
     span_end = \<lparr>loc_offset = n + 1, loc_line = 1, loc_column = n + 1\<rparr>\<rparr>"

definition sample_tree :: spanned_value where
  "sample_tree = Spanned (Y_Mapping [Entry ''k'' (sample_span 0)
     (Spanned (Y_Sequence [Spanned (Y_Bool True) (sample_span 2), Spanned (Y_String ''s'') (sample_span 3)])
       (sample_span 1))]) (sample_span 5)"

theorem parse_node_roundtrip_witness:
  "parse_node 8 default_parse_limits 1 \<lparr>cu_events = events_of sample_tree, cu_nodes = 0\<rparr> =
     Ok (sample_tree, \<lparr>cu_events = [], cu_nodes = 5\<rparr>)"
proof -
  have "admitted default_parse_limits 1 sample_tree" "scalars_fit default_parse_limits sample_tree"
    "yaml_nodes sample_tree = 5" "length (events_of sample_tree) = 7"
    by (simp_all add: sample_tree_def sample_span_def default_parse_limits_def scalar_event_def)
  with parse_node_roundtrip [of default_parse_limits sample_tree "[]"] show ?thesis
    by (simp add: default_parse_limits_def del: parse_node.simps)
qed

end
