(* ===== verification/Compile.thy ===== *)
theory Compile
  imports Model Expression_Parser Yaml_Admission
begin

text \<open>
  The compiler from strict YAML to Pipeline IR (\<open>crates/pipeline-ir/src/model.rs\<close>): the view of a mapping
  whose fields are taken one by one, one definition per \<open>compile_\<close> function, and the choice of the
  schema version. The vector of expression bindings that the Rust functions push to is threaded
  through. The version of the package, which the build supplies, is an argument.
\<close>

section \<open>Sources\<close>

text \<open>
  The two parsers as functions that return or refuse. Their models have a further outcome, running
  out of fuel or an index out of range, and it never occurs, so the last branch is dead.
\<close>

definition expression_of_source :: "string \<Rightarrow> (expression, expression_error) result" where
  "expression_of_source s =
     (case parse_expression s default_expression_limits of
        Ok e \<Rightarrow> Ok e
      | Err (Failed e) \<Rightarrow> Err e
      | Err _ \<Rightarrow> Err (expression_error Syntax 0 []))"

definition tree_of_source :: "scanner \<Rightarrow> string \<Rightarrow> parse_limits \<Rightarrow> (spanned_value, admission_error) result" where
  "tree_of_source scan s lim =
     (case parse_strict scan s lim of
        Ok v \<Rightarrow> Ok v
      | Err (Refused e) \<Rightarrow> Err e
      | Err Unfinished \<Rightarrow> Err (admission_error A_Syntax [] default_span))"

definition display_admission_code :: "admission_code \<Rightarrow> string" where
  "display_admission_code c =
     (case c of
        A_SourceTooLarge \<Rightarrow> ''SourceTooLarge'' | A_Syntax \<Rightarrow> ''Syntax'' | A_Directive \<Rightarrow> ''Directive''
      | A_MultipleDocuments \<Rightarrow> ''MultipleDocuments'' | A_Alias \<Rightarrow> ''Alias'' | A_Anchor \<Rightarrow> ''Anchor''
      | A_Tag \<Rightarrow> ''Tag'' | A_EmptyScalar \<Rightarrow> ''EmptyScalar'' | A_ComplexKey \<Rightarrow> ''ComplexKey''
      | A_DuplicateKey \<Rightarrow> ''DuplicateKey'' | A_DepthLimit \<Rightarrow> ''DepthLimit'' | A_NodeLimit \<Rightarrow> ''NodeLimit''
      | A_ScalarLimit \<Rightarrow> ''ScalarLimit'' | A_MappingLimit \<Rightarrow> ''MappingLimit''
      | A_SequenceLimit \<Rightarrow> ''SequenceLimit'' | A_UnexpectedEvent \<Rightarrow> ''UnexpectedEvent'')"

definition display_admission_error :: "admission_error \<Rightarrow> string" where
  "display_admission_error e =
     display_admission_code (ae_code e) @ '' at '' @ show_nat (loc_line (span_start (ae_span e))) @ '':'' @
     show_nat (loc_column (span_start (ae_span e))) @ '': '' @ ae_message e"

definition admission_compile_error :: "admission_error \<Rightarrow> compile_error" where
  "admission_compile_error e =
     \<lparr>ce_category = C_Admission, ce_path = None, ce_message = display_admission_error e, ce_span = Some (ae_span e)\<rparr>"

definition schema_error_at :: "source_span \<Rightarrow> string \<Rightarrow> string \<Rightarrow> compile_error" where
  "schema_error_at span path message = with_span span (schema_error path message)"

text \<open>\<open>iter.enumerate().map(f).collect::<Result<Vec<_>, _>>()\<close>, the closure changing a captured variable.\<close>

fun collect_index ::
  "nat \<Rightarrow> (nat \<Rightarrow> 'a \<Rightarrow> 's \<Rightarrow> ('b \<times> 's, 'e) result) \<Rightarrow> 'a list \<Rightarrow> 's \<Rightarrow> ('b list \<times> 's, 'e) result" where
  "collect_index i f [] s = Ok ([], s)"
| "collect_index i f (x # xs) s =
     and_then (f i x s) (\<lambda>(y, s). and_then (collect_index (Suc i) f xs s) (\<lambda>(ys, s). Ok (y # ys, s)))"

section \<open>The view of a mapping\<close>

record mapping_view =
  mv_entries :: "mapping_entry list"
  mv_path :: string

type_synonym 'a viewed = "('a \<times> mapping_view, compile_error) result"

definition new_view :: "spanned_value \<Rightarrow> string \<Rightarrow> (mapping_view, compile_error) result" where
  "new_view tree path =
     (case sv_value tree of
        Y_Mapping entries \<Rightarrow> Ok \<lparr>mv_entries = entries, mv_path = path\<rparr>
      | _ \<Rightarrow> Err (schema_error_at (sv_span tree) path ''expected a mapping''))"

definition field_path :: "mapping_view \<Rightarrow> string \<Rightarrow> string" where
  "field_path view key = mv_path view @ ''.'' @ key"

fun remove_key :: "string \<Rightarrow> mapping_entry list \<Rightarrow> (spanned_value \<times> mapping_entry list) option" where
  "remove_key key [] = None"
| "remove_key key (e # es) =
     (if me_key e = key then Some (me_value e, es)
      else case remove_key key es of None \<Rightarrow> None | Some (v, rest) \<Rightarrow> Some (v, e # rest))"

definition take_field :: "string \<Rightarrow> mapping_view \<Rightarrow> spanned_value option \<times> mapping_view" where
  "take_field key view =
     (case remove_key key (mv_entries view) of
        None \<Rightarrow> (None, view)
      | Some (v, rest) \<Rightarrow> (Some v, view\<lparr>mv_entries := rest\<rparr>))"

definition finish_view :: "mapping_view \<Rightarrow> (unit, compile_error) result" where
  "finish_view view =
     (case mv_entries view of
        [] \<Rightarrow> Ok ()
      | e # _ \<Rightarrow> Err (schema_error_at (me_key_span e) (field_path view (me_key e))
          (''unknown field '' @ debug_str (me_key e))))"

definition required :: "string \<Rightarrow> mapping_view \<Rightarrow> spanned_value viewed" where
  "required key view =
     (case take_field key view of
        (Some v, rest) \<Rightarrow> Ok (v, rest)
      | (None, _) \<Rightarrow> Err (schema_error (field_path view key) ''required field is missing''))"

definition required_string :: "string \<Rightarrow> mapping_view \<Rightarrow> string viewed" where
  "required_string key view =
     and_then (required key view) (\<lambda>(tree, rest).
       case sv_value tree of
         Y_String s \<Rightarrow> Ok (s, rest)
       | _ \<Rightarrow> Err (schema_error_at (sv_span tree) (field_path view key) ''expected a string''))"

definition required_integer :: "string \<Rightarrow> mapping_view \<Rightarrow> i64 viewed" where
  "required_integer key view =
     and_then (required key view) (\<lambda>(tree, rest).
       case sv_value tree of
         Y_Integer n \<Rightarrow> Ok (n, rest)
       | _ \<Rightarrow> Err (schema_error_at (sv_span tree) (field_path view key) ''expected an integer''))"

definition optional_u64 :: "string \<Rightarrow> mapping_view \<Rightarrow> u64 option viewed" where
  "optional_u64 key view =
     (case take_field key view of
        (None, rest) \<Rightarrow> Ok (None, rest)
      | (Some tree, rest) \<Rightarrow>
          (case sv_value tree of
             Y_Integer n \<Rightarrow>
               if sint n < 0
               then Err (schema_error_at (sv_span tree) (field_path view key) ''expected a non-negative integer'')
               else Ok (Some n, rest)
           | _ \<Rightarrow> Err (schema_error_at (sv_span tree) (field_path view key) ''expected an integer'')))"

definition optional_string :: "string \<Rightarrow> mapping_view \<Rightarrow> string option viewed" where
  "optional_string key view =
     (case take_field key view of
        (None, rest) \<Rightarrow> Ok (None, rest)
      | (Some tree, rest) \<Rightarrow>
          (case sv_value tree of
             Y_String s \<Rightarrow> Ok (Some s, rest)
           | _ \<Rightarrow> Err (schema_error_at (sv_span tree) (field_path view key) ''expected a string'')))"

definition optional_bool :: "string \<Rightarrow> mapping_view \<Rightarrow> bool option viewed" where
  "optional_bool key view =
     (case take_field key view of
        (None, rest) \<Rightarrow> Ok (None, rest)
      | (Some tree, rest) \<Rightarrow>
          (case sv_value tree of
             Y_Bool b \<Rightarrow> Ok (Some b, rest)
           | _ \<Rightarrow> Err (schema_error_at (sv_span tree) (field_path view key) ''expected a boolean'')))"

section \<open>Strings that may be expressions\<close>

type_synonym bindings = "expression_binding list"

definition compile_resolved_string ::
  "evaluated_value btree_map \<Rightarrow> spanned_value \<Rightarrow> string \<Rightarrow> bindings \<Rightarrow> (string \<times> bindings, compile_error) result" where
  "compile_resolved_string params tree path bs =
     (let span = sv_span tree; failed = (\<lambda>e. with_span span (expression_compile_error path e)) in
      case sv_value tree of
        Y_String v \<Rightarrow> Ok (v, bs)
      | _ \<Rightarrow>
          and_then (new_view tree path) (\<lambda>view.
          and_then (required_string ''expression'' view) (\<lambda>(source, view).
          and_then (finish_view view) (\<lambda>_.
          and_then (map_err failed (expression_of_source source)) (\<lambda>e.
          and_then (map_err failed (evaluate_expression e params default_expression_limits)) (\<lambda>r.
          if ev_secret r
          then Err (schema_error_at span path ''secret-tainted expression values cannot be materialized into Pipeline IR'')
          else case ev_value r of
            PV_String v \<Rightarrow>
              if length bs \<ge> MAX_EXPRESSION_BINDINGS
              then Err (schema_error_at span path ''at most 8192 expression bindings are accepted'')
              else Ok (v, bs @ [\<lparr>eb_path = path, eb_expression = e\<rparr>])
          | _ \<Rightarrow> Err (schema_error_at span path ''process fields require an expression that evaluates to string'')))))))"

definition optional_resolved_string_sequence ::
  "evaluated_value btree_map \<Rightarrow> string \<Rightarrow> mapping_view \<Rightarrow> bindings
     \<Rightarrow> (string list option \<times> mapping_view \<times> bindings, compile_error) result" where
  "optional_resolved_string_sequence params key view bs =
     (case take_field key view of
        (None, rest) \<Rightarrow> Ok (None, rest, bs)
      | (Some tree, rest) \<Rightarrow>
          (case sv_value tree of
             Y_Sequence vs \<Rightarrow>
               and_then (collect_index 0 (\<lambda>index v.
                 compile_resolved_string params v (field_path view key @ ''['' @ show_nat index @ '']'')) vs bs)
                 (\<lambda>(ss, bs). Ok (Some ss, rest, bs))
           | _ \<Rightarrow> Err (schema_error_at (sv_span tree) (field_path view key) ''expected a sequence'')))"

definition optional_resolved_string_mapping ::
  "evaluated_value btree_map \<Rightarrow> string \<Rightarrow> mapping_view \<Rightarrow> bindings
     \<Rightarrow> (string btree_map option \<times> mapping_view \<times> bindings, compile_error) result" where
  "optional_resolved_string_mapping params key view bs =
     (case take_field key view of
        (None, rest) \<Rightarrow> Ok (None, rest, bs)
      | (Some tree, rest) \<Rightarrow>
          (case sv_value tree of
             Y_Mapping es \<Rightarrow>
               and_then (collect_index 0 (\<lambda>_ e bs.
                 and_then (compile_resolved_string params (me_value e) (field_path view key @ ''.'' @ me_key e) bs)
                   (\<lambda>(v, bs). Ok ((me_key e, v), bs))) es bs)
                 (\<lambda>(kvs, bs). Ok (Some (btree_insert_all [] kvs), rest, bs))
           | _ \<Rightarrow> Err (schema_error_at (sv_span tree) (field_path view key) ''expected a mapping'')))"

section \<open>Parameters\<close>

definition compile_parameter_value :: "spanned_value \<Rightarrow> string \<Rightarrow> (parameter_value, compile_error) result" where
  "compile_parameter_value tree path =
     (case sv_value tree of
        Y_Bool b \<Rightarrow> Ok (PV_Bool b)
      | Y_Integer n \<Rightarrow> Ok (PV_Integer n)
      | Y_String s \<Rightarrow> Ok (PV_String s)
      | _ \<Rightarrow> Err (schema_error_at (sv_span tree) path ''expected a scalar parameter value''))"

definition compile_parameter_type :: "string \<Rightarrow> string \<Rightarrow> (parameter_type, compile_error) result" where
  "compile_parameter_type path s =
     (if s = ''boolean'' then Ok PT_Bool
      else if s = ''integer'' then Ok PT_Integer
      else if s = ''string'' then Ok PT_String
      else Err (schema_error (path @ ''.type'') ''expected exactly boolean, integer, or string''))"

definition compile_parameter_definition ::
  "mapping_entry \<Rightarrow> (string \<times> parameter_definition, compile_error) result" where
  "compile_parameter_definition entry =
     (let name = me_key entry; path = ''$.parameters.'' @ name in
      and_then (map_err validation_compile_error (validate_identifier path name)) (\<lambda>_.
      if CHR ''.'' \<in> set name then Err (schema_error path ''parameter names must not contain dot'')
      else
      and_then (new_view (me_value entry) path) (\<lambda>view.
      and_then (required_string ''type'' view) (\<lambda>(type_text, view).
      and_then (compile_parameter_type path type_text) (\<lambda>parameter_type.
      and_then (optional_bool ''secret'' view) (\<lambda>(secret, view).
      let secret = (case secret of Some b \<Rightarrow> b | None \<Rightarrow> False); (default_node, view) = take_field ''default'' view in
      and_then (case default_node of
          None \<Rightarrow> Ok None
        | Some v \<Rightarrow> and_then (compile_parameter_value v (path @ ''.default'')) (\<lambda>v. Ok (Some v))) (\<lambda>default_value.
      and_then (finish_view view) (\<lambda>_.
      if secret \<and> default_value \<noteq> None
      then Err (schema_error (path @ ''.default'') ''secret parameters must not declare persisted defaults'')
      else if (case default_value of None \<Rightarrow> False | Some v \<Rightarrow> \<not> accepts parameter_type v)
      then Err (schema_error (path @ ''.default'') (''expected a '' @ pt_name parameter_type @ '' default''))
      else Ok (name, \<lparr>pd_type = parameter_type, pd_default = default_value, pd_secret = secret\<rparr>)))))))))"

definition compile_parameter_definitions ::
  "spanned_value option \<Rightarrow> (parameter_definition btree_map, compile_error) result" where
  "compile_parameter_definitions tree =
     (case tree of
        None \<Rightarrow> Ok []
      | Some n \<Rightarrow>
          (case sv_value n of
             Y_Mapping entries \<Rightarrow>
               if length entries > MAX_PARAMETERS
               then Err (schema_error_at (sv_span n) ''$.parameters'' ''at most 128 parameters are accepted'')
               else and_then (collect_index 0 (\<lambda>_ e u. and_then (compile_parameter_definition e) (\<lambda>d. Ok (d, u))) entries ())
                 (\<lambda>(ds, _). Ok (btree_insert_all [] ds))
           | _ \<Rightarrow> Err (schema_error_at (sv_span n) ''$.parameters'' ''expected a mapping'')))"

section \<open>Steps\<close>

definition compile_process_mode :: "string \<Rightarrow> string option \<Rightarrow> (process_mode, compile_error) result" where
  "compile_process_mode path mode =
     (if mode = None \<or> mode = Some ''direct'' then Ok Direct
      else if mode = Some ''windows_cmd'' then Ok WindowsCmd
      else if mode = Some ''powershell'' then Ok PowerShell
      else Err (schema_error (path @ ''.mode'') ''expected exactly direct, windows_cmd, or powershell''))"

definition compile_process ::
  "evaluated_value btree_map \<Rightarrow> spanned_value \<Rightarrow> string \<Rightarrow> source_span \<Rightarrow> bindings
     \<Rightarrow> (process_step \<times> bindings, compile_error) result" where
  "compile_process params tree step_at span bs =
     (let path = step_at @ ''.process'' in
      and_then (new_view tree path) (\<lambda>view.
      and_then (required ''program'' view) (\<lambda>(program_node, view).
      and_then (compile_resolved_string params program_node (path @ ''.program'') bs) (\<lambda>(program, bs).
      and_then (optional_resolved_string_sequence params ''args'' view bs) (\<lambda>(args, view, bs).
      and_then (optional_resolved_string_mapping params ''env'' view bs) (\<lambda>(env, view, bs).
      and_then (optional_string ''mode'' view) (\<lambda>(mode_text, view).
      and_then (compile_process_mode path mode_text) (\<lambda>mode.
      and_then (optional_u64 ''timeout_seconds'' view) (\<lambda>(timeout, view).
      and_then (finish_view view) (\<lambda>_.
      Ok (\<lparr>pr_mode = mode, pr_program = program, pr_args = (case args of Some a \<Rightarrow> a | None \<Rightarrow> []),
           pr_env = (case env of Some e \<Rightarrow> e | None \<Rightarrow> []), pr_timeout_seconds = timeout, pr_source_span = span\<rparr>,
          bs)))))))))))"

definition compile_field_type :: "string \<Rightarrow> source_span \<Rightarrow> string \<Rightarrow> (json_field_type, compile_error) result" where
  "compile_field_type path span kind =
     (if kind = ''array'' then Ok J_Array
      else if kind = ''boolean'' then Ok J_Boolean
      else if kind = ''null'' then Ok J_Null
      else if kind = ''number'' then Ok J_Number
      else if kind = ''object'' then Ok J_Object
      else if kind = ''string'' then Ok J_String
      else Err (schema_error_at span path ''expected array, boolean, null, number, object, or string''))"

definition compile_json_field_schema ::
  "spanned_value \<Rightarrow> string \<Rightarrow> (json_field_type btree_map, compile_error) result" where
  "compile_json_field_schema tree path =
     (case sv_value tree of
        Y_Mapping es \<Rightarrow>
          and_then (collect_index 0 (\<lambda>_ e u.
            (let entry_path = path @ ''.'' @ me_key e; span = sv_span (me_value e) in
             case sv_value (me_value e) of
               Y_String kind \<Rightarrow> and_then (compile_field_type entry_path span kind) (\<lambda>k. Ok ((me_key e, k), u))
             | _ \<Rightarrow> Err (schema_error_at span entry_path ''expected a string''))) es ())
            (\<lambda>(kvs, _). Ok (btree_insert_all [] kvs))
      | _ \<Rightarrow> Err (schema_error_at (sv_span tree) path ''expected a mapping''))"

definition compile_effect_class :: "string \<Rightarrow> string \<Rightarrow> (connector_effect_class, compile_error) result" where
  "compile_effect_class path s =
     (if s = ''idempotent'' then Ok Idempotent
      else if s = ''externally_idempotent'' then Ok ExternallyIdempotent
      else if s = ''non_idempotent'' then Ok NonIdempotent
      else Err (schema_error (path @ ''.effect_class'') ''expected idempotent, externally_idempotent, or non_idempotent''))"

definition compile_connector_intent ::
  "spanned_value \<Rightarrow> string \<Rightarrow> source_span \<Rightarrow> (connector_intent_step, compile_error) result" where
  "compile_connector_intent tree step_at span =
     (let path = step_at @ ''.connector_intent'' in
      and_then (new_view tree path) (\<lambda>view.
      and_then (required_string ''mapping_id'' view) (\<lambda>(mapping_id, view).
      and_then (required_string ''mapping_digest'' view) (\<lambda>(mapping_digest, view).
      and_then (required_string ''effect_class'' view) (\<lambda>(effect_text, view).
      and_then (compile_effect_class path effect_text) (\<lambda>effect_class.
      and_then (required_string ''effect_key_template'' view) (\<lambda>(template, view).
      and_then (required ''public_input_schema'' view) (\<lambda>(n, view).
      and_then (compile_json_field_schema n (path @ ''.public_input_schema'')) (\<lambda>public_input.
      and_then (required ''protected_secret_ref_schema'' view) (\<lambda>(n, view).
      and_then (compile_json_field_schema n (path @ ''.protected_secret_ref_schema'')) (\<lambda>secret_refs.
      and_then (required ''expected_public_result_schema'' view) (\<lambda>(n, view).
      and_then (compile_json_field_schema n (path @ ''.expected_public_result_schema'')) (\<lambda>public_result.
      and_then (optional_u64 ''timeout_seconds'' view) (\<lambda>(timeout, view).
      and_then (ok_or (schema_error (path @ ''.timeout_seconds'') ''required field is missing'') timeout) (\<lambda>timeout.
      and_then (required_string ''ambiguity_policy'' view) (\<lambda>(policy, view).
      if policy \<noteq> ''observe_then_reconcile''
      then Err (schema_error (path @ ''.ambiguity_policy'') ''expected observe_then_reconcile'')
      else
      and_then (required_string ''downstream_control_digest'' view) (\<lambda>(downstream, view).
      and_then (finish_view view) (\<lambda>_.
      Ok \<lparr>cn_mapping_id = mapping_id, cn_mapping_digest = mapping_digest, cn_effect_class = effect_class,
          cn_effect_key_template = template, cn_public_input_schema = public_input,
          cn_protected_secret_ref_schema = secret_refs, cn_expected_public_result_schema = public_result,
          cn_timeout_seconds = timeout, cn_ambiguity_policy = ObserveThenReconcile,
          cn_downstream_control_digest = downstream, cn_source_span = span\<rparr>))))))))))))))))))"

definition compile_cache_operation :: "string \<Rightarrow> string \<Rightarrow> (cache_operation, compile_error) result" where
  "compile_cache_operation path s =
     (if s = ''read'' then Ok Cache_Read
      else if s = ''publish'' then Ok Cache_Publish
      else Err (schema_error path ''unsupported cache operation''))"

definition compile_cache_intent ::
  "externals \<Rightarrow> spanned_value \<Rightarrow> string \<Rightarrow> source_span \<Rightarrow> (cache_intent_step, compile_error) result" where
  "compile_cache_intent ext tree step_at span =
     (let path = step_at @ ''.cache_intent'' in
      and_then (new_view tree path) (\<lambda>view.
      and_then (required_string ''mapping_id'' view) (\<lambda>(mapping_id, view).
      and_then (required_string ''mapping_digest'' view) (\<lambda>(mapping_digest, view).
      and_then (required_string ''operation'' view) (\<lambda>(operation_text, view).
      and_then (compile_cache_operation path operation_text) (\<lambda>oper.
      and_then (required_string ''logical_key_sha256'' view) (\<lambda>(logical_key, view).
      and_then (required_string ''input_sha256'' view) (\<lambda>(input, view).
      and_then (optional_string ''content_base64'' view) (\<lambda>(content, view).
      and_then (optional_u64 ''timeout_seconds'' view) (\<lambda>(timeout, view).
      and_then (ok_or (schema_error path ''cache timeout is required'') timeout) (\<lambda>timeout.
      and_then (finish_view view) (\<lambda>_.
      let intent = \<lparr>ci_mapping_id = mapping_id, ci_mapping_digest = mapping_digest, ci_operation = oper,
            ci_logical_key_sha256 = logical_key, ci_input_sha256 = input, ci_content_base64 = content,
            ci_timeout_seconds = timeout\<rparr> in
      and_then (map_err (\<lambda>e. schema_error path (''invalid bounded cache intent or authority: '' @ e))
        (validate_cache_intent ext intent)) (\<lambda>_.
      Ok \<lparr>cs_intent = intent, cs_source_span = span\<rparr>)))))))))))))"

definition compile_input_intent ::
  "spanned_value \<Rightarrow> string \<Rightarrow> source_span \<Rightarrow> (input_intent_step, compile_error) result" where
  "compile_input_intent tree step_at span =
     (let path = step_at @ ''.input_intent'' in
      and_then (new_view tree path) (\<lambda>view.
      and_then (required_string ''mapping_id'' view) (\<lambda>(mapping_id, view).
      and_then (required_string ''mapping_digest'' view) (\<lambda>(mapping_digest, view).
      and_then (optional_u64 ''timeout_seconds'' view) (\<lambda>(timeout, view).
      and_then (ok_or (schema_error path ''input timeout is required'') timeout) (\<lambda>timeout.
      and_then (finish_view view) (\<lambda>_.
      let intent = \<lparr>ii_mapping_id = mapping_id, ii_mapping_digest = mapping_digest, ii_timeout_seconds = timeout\<rparr> in
      and_then (map_err (\<lambda>e. schema_error path (''invalid bounded input intent or authority: '' @ e))
        (validate_input_intent intent)) (\<lambda>_.
      Ok \<lparr>is_intent = intent, is_source_span = span\<rparr>))))))))"

definition compile_checkout ::
  "evaluated_value btree_map \<Rightarrow> spanned_value \<Rightarrow> string \<Rightarrow> source_span \<Rightarrow> bindings
     \<Rightarrow> (checkout_step \<times> bindings, compile_error) result" where
  "compile_checkout params tree step_at span bs =
     (let path = step_at @ ''.checkout'' in
      and_then (new_view tree path) (\<lambda>view.
      and_then (required_string ''mapping_id'' view) (\<lambda>(mapping_id, view).
      and_then (required_string ''mapping_digest'' view) (\<lambda>(mapping_digest, view).
      and_then (required_string ''ref'' view) (\<lambda>(reference, view).
      let (commit_node, view) = take_field ''commit'' view in
      and_then (case commit_node of
          None \<Rightarrow> Err (schema_error path ''checkout commit is required'')
        | Some n \<Rightarrow> compile_resolved_string params n (path @ ''.commit'') bs) (\<lambda>(commit, bs).
      and_then (optional_string ''destination'' view) (\<lambda>(destination, view).
      and_then (optional_u64 ''timeout_seconds'' view) (\<lambda>(timeout, view).
      and_then (finish_view view) (\<lambda>_.
      let spec = \<lparr>co_mapping_id = mapping_id, co_mapping_digest = mapping_digest, co_reference = reference,
            co_commit = commit, co_destination = (case destination of Some d \<Rightarrow> d | None \<Rightarrow> ''source''),
            co_timeout_seconds = (case timeout of Some t \<Rightarrow> t | None \<Rightarrow> 600)\<rparr> in
      and_then (map_err (\<lambda>e. schema_error path (''invalid bounded checkout step or authority: '' @ e))
        (validate_checkout spec)) (\<lambda>_.
      Ok (\<lparr>ck_spec = spec, ck_source_span = span\<rparr>, bs)))))))))))"

definition compile_step ::
  "externals \<Rightarrow> evaluated_value btree_map \<Rightarrow> string \<Rightarrow> nat \<Rightarrow> spanned_value \<Rightarrow> bindings
     \<Rightarrow> (step \<times> bindings, compile_error) result" where
  "compile_step ext params stage_at index tree bs =
     (let path = stage_at @ ''.steps['' @ show_nat index @ '']''; span = sv_span tree in
      and_then (new_view tree path) (\<lambda>view.
      let (process, view) = take_field ''process'' view;
          (connector, view) = take_field ''connector_intent'' view;
          (cache, view) = take_field ''cache_intent'' view;
          (input, view) = take_field ''input_intent'' view;
          (checkout, view) = take_field ''checkout'' view in
      and_then (finish_view view) (\<lambda>_.
      case (process, connector, cache, input, checkout) of
        (Some n, None, None, None, None) \<Rightarrow>
          and_then (compile_process params n path span bs) (\<lambda>(p, bs). Ok (Process p, bs))
      | (None, Some n, None, None, None) \<Rightarrow>
          and_then (compile_connector_intent n path span) (\<lambda>c. Ok (ConnectorIntent c, bs))
      | (None, None, Some n, None, None) \<Rightarrow>
          and_then (compile_cache_intent ext n path span) (\<lambda>c. Ok (CacheIntent c, bs))
      | (None, None, None, Some n, None) \<Rightarrow>
          and_then (compile_input_intent n path span) (\<lambda>c. Ok (InputIntent c, bs))
      | (None, None, None, None, Some n) \<Rightarrow>
          and_then (compile_checkout params n path span bs) (\<lambda>(c, bs). Ok (Checkout c, bs))
      | _ \<Rightarrow> Err (schema_error path
          ''exactly one of process, connector_intent, cache_intent, input_intent or checkout is required''))))"

definition compile_steps ::
  "externals \<Rightarrow> evaluated_value btree_map \<Rightarrow> spanned_value \<Rightarrow> string \<Rightarrow> bindings
     \<Rightarrow> (step list \<times> bindings, compile_error) result" where
  "compile_steps ext params tree stage_at bs =
     (case sv_value tree of
        Y_Sequence nodes \<Rightarrow>
          if nodes = [] then Err (schema_error (stage_at @ ''.steps'') ''at least one step is required'')
          else collect_index 0 (compile_step ext params stage_at) nodes bs
      | _ \<Rightarrow> Err (schema_error_at (sv_span tree) (stage_at @ ''.steps'') ''expected a sequence''))"

section \<open>Artifacts, stages, notification targets\<close>

definition compile_pattern_text :: "string \<Rightarrow> nat \<Rightarrow> spanned_value \<Rightarrow> unit \<Rightarrow> (string \<times> unit, compile_error) result" where
  "compile_pattern_text entry_path index tree u =
     (case sv_value tree of
        Y_String s \<Rightarrow> Ok (s, u)
      | _ \<Rightarrow> Err (schema_error_at (sv_span tree) (entry_path @ ''.paths['' @ show_nat index @ '']'')
          ''expected a string path pattern''))"

definition compile_artifact :: "string \<Rightarrow> nat \<Rightarrow> spanned_value \<Rightarrow> unit \<Rightarrow> (artifact_spec \<times> unit, compile_error) result" where
  "compile_artifact path index tree u =
     (let entry_path = path @ ''['' @ show_nat index @ '']''; span = sv_span tree in
      and_then (new_view tree entry_path) (\<lambda>view.
      and_then (required_string ''name'' view) (\<lambda>(name, view).
      and_then (required ''paths'' view) (\<lambda>(paths_node, view).
      and_then (finish_view view) (\<lambda>_.
      case sv_value paths_node of
        Y_Sequence patterns \<Rightarrow>
          and_then (collect_index 0 (compile_pattern_text entry_path) patterns ()) (\<lambda>(paths, _).
          let spec = \<lparr>as_name = name, as_paths = paths\<rparr> in
          and_then (map_err (\<lambda>e. schema_error_at span entry_path (''invalid artifact declaration: '' @ e))
            (validate_artifact spec)) (\<lambda>_. Ok (spec, u)))
      | _ \<Rightarrow> Err (schema_error_at (sv_span paths_node) (entry_path @ ''.paths'') ''expected a sequence of path patterns''))))))"

definition compile_stage_artifacts ::
  "spanned_value option \<Rightarrow> string \<Rightarrow> (artifact_spec list, compile_error) result" where
  "compile_stage_artifacts tree stage_at =
     (case tree of
        None \<Rightarrow> Ok []
      | Some n \<Rightarrow>
          let path = stage_at @ ''.artifacts'' in
          (case sv_value n of
             Y_Sequence nodes \<Rightarrow>
               and_then (collect_index 0 (compile_artifact path) nodes ()) (\<lambda>(specs, _).
               and_then (map_err (\<lambda>e. schema_error_at (sv_span n) path (''invalid artifact declaration: '' @ e))
                 (validate_declarations specs)) (\<lambda>_. Ok specs))
           | _ \<Rightarrow> Err (schema_error_at (sv_span n) path ''expected a sequence'')))"

definition compile_stage ::
  "externals \<Rightarrow> evaluated_value btree_map \<Rightarrow> nat \<Rightarrow> spanned_value \<Rightarrow> bindings
     \<Rightarrow> (stage \<times> bindings, compile_error) result" where
  "compile_stage ext params index tree bs =
     (let path = ''$.stages['' @ show_nat index @ '']'' in
      and_then (new_view tree path) (\<lambda>view.
      and_then (required_string ''id'' view) (\<lambda>(ident, view).
      and_then (required_string ''name'' view) (\<lambda>(name, view).
      and_then (optional_string ''image'' view) (\<lambda>(img, view).
      and_then (required ''steps'' view) (\<lambda>(steps_node, view).
      let (artifacts_node, view) = take_field ''artifacts'' view in
      and_then (finish_view view) (\<lambda>_.
      if (case img of None \<Rightarrow> False | Some reference \<Rightarrow> \<not> is_digest_pinned_image reference)
      then Err (schema_error (path @ ''.image'')
        ''stage image must be a digest-pinned reference (name@sha256:<64 hex>); tags are refused'')
      else
      and_then (compile_steps ext params steps_node path bs) (\<lambda>(steps, bs).
      and_then (compile_stage_artifacts artifacts_node path) (\<lambda>artifacts.
      Ok (\<lparr>sg_id = ident, sg_name = name, sg_image = img, sg_steps = steps, sg_artifacts = artifacts,
           sg_source_span = sv_span tree\<rparr>, bs))))))))))"

definition compile_stages ::
  "externals \<Rightarrow> evaluated_value btree_map \<Rightarrow> spanned_value \<Rightarrow> bindings
     \<Rightarrow> (stage list \<times> bindings, compile_error) result" where
  "compile_stages ext params tree bs =
     (case sv_value tree of
        Y_Sequence nodes \<Rightarrow>
          if nodes = [] then Err (schema_error ''$.stages'' ''at least one stage is required'')
          else if length nodes > MAX_STAGES then Err (schema_error ''$.stages'' ''at most 128 stages are accepted'')
          else map_err (with_span_if_missing (sv_span tree)) (collect_index 0 (compile_stage ext params) nodes bs)
      | _ \<Rightarrow> Err (schema_error_at (sv_span tree) ''$.stages'' ''expected a sequence''))"

definition compile_github_status ::
  "evaluated_value btree_map \<Rightarrow> spanned_value \<Rightarrow> string \<Rightarrow> bindings
     \<Rightarrow> (notify_target \<times> bindings, compile_error) result" where
  "compile_github_status params tree kind_path bs =
     and_then (new_view tree kind_path) (\<lambda>view.
     and_then (required_string ''mapping_id'' view) (\<lambda>(mapping_id, view).
     and_then (required ''commit'' view) (\<lambda>(commit_node, view).
     and_then (optional_string ''context'' view) (\<lambda>(status_context, view).
     and_then (optional_string ''repository'' view) (\<lambda>(repository, view).
     and_then (finish_view view) (\<lambda>_.
     and_then (compile_resolved_string params commit_node (kind_path @ ''.commit'') bs) (\<lambda>(commit, bs).
     Ok (GithubStatus mapping_id commit (case status_context of Some c \<Rightarrow> c | None \<Rightarrow> ''mcloving'') repository, bs))))))))"

definition compile_target ::
  "evaluated_value btree_map \<Rightarrow> nat \<Rightarrow> spanned_value \<Rightarrow> bindings \<Rightarrow> (notify_target \<times> bindings, compile_error) result" where
  "compile_target params index tree bs =
     (let entry_path = ''$.notify['' @ show_nat index @ '']''; span = sv_span tree in
      case sv_value tree of
        Y_Mapping [entry] \<Rightarrow>
          let kind_path = entry_path @ ''.'' @ me_key entry in
          and_then
            (if me_key entry = ''github_status'' then compile_github_status params (me_value entry) kind_path bs
             else if me_key entry = ''webhook'' then
               and_then (new_view (me_value entry) kind_path) (\<lambda>view.
               and_then (required_string ''mapping_id'' view) (\<lambda>(mapping_id, view).
               and_then (finish_view view) (\<lambda>_. Ok (Webhook mapping_id, bs))))
             else Err (schema_error_at span kind_path ''expected github_status or webhook'')) (\<lambda>(target, bs).
          and_then (map_err (\<lambda>e. schema_error_at span kind_path (''invalid notification target: '' @ e))
            (validate_target target)) (\<lambda>_. Ok (target, bs)))
      | Y_Mapping _ \<Rightarrow> Err (schema_error_at span entry_path ''expected exactly one of github_status or webhook'')
      | _ \<Rightarrow> Err (schema_error_at span entry_path ''expected a mapping''))"

definition compile_notify ::
  "evaluated_value btree_map \<Rightarrow> spanned_value option \<Rightarrow> bindings
     \<Rightarrow> (notify_target list \<times> bindings, compile_error) result" where
  "compile_notify params tree bs =
     (case tree of
        None \<Rightarrow> Ok ([], bs)
      | Some n \<Rightarrow>
          (case sv_value n of
             Y_Sequence nodes \<Rightarrow>
               if length nodes > 8
               then Err (schema_error_at (sv_span n) ''$.notify'' ''at most 8 notification targets are accepted'')
               else collect_index 0 (compile_target params) nodes bs
           | _ \<Rightarrow> Err (schema_error_at (sv_span n) ''$.notify'' ''expected a sequence'')))"

section \<open>The compiler\<close>

definition has_shell_mode :: "step \<Rightarrow> bool" where
  "has_shell_mode s = (case s of Process p \<Rightarrow> pr_mode p \<noteq> Direct | _ \<Rightarrow> False)"

definition any_step :: "(step \<Rightarrow> bool) \<Rightarrow> stage list \<Rightarrow> bool" where
  "any_step f stages = list_ex (\<lambda>s. list_ex f (sg_steps s)) stages"

definition required_minor ::
  "parameter_definition btree_map \<Rightarrow> expression_binding list \<Rightarrow> stage list \<Rightarrow> notify_target list \<Rightarrow> u16" where
  "required_minor parameters bs stages notify =
     (if notify \<noteq> [] then 9
      else if list_ex (\<lambda>s. sg_artifacts s \<noteq> []) stages then 8
      else if any_step is_checkout stages then 7
      else if list_ex (\<lambda>s. sg_image s \<noteq> None) stages then 6
      else if any_step is_input_intent stages then 5
      else if any_step is_cache_intent stages then 4
      else if any_step is_connector_intent stages then 3
      else if any_step has_shell_mode stages then 2
      else if parameters = [] \<and> bs = [] then 0
      else 1)"

definition compile_strict_yaml_with_parameters ::
  "externals \<Rightarrow> scanner \<Rightarrow> string \<Rightarrow> string \<Rightarrow> string \<Rightarrow> parse_limits \<Rightarrow> parameter_value btree_map
     \<Rightarrow> (pipeline_ir, compile_error) result" where
  "compile_strict_yaml_with_parameters ext scan package_version ident source limits inputs =
     and_then (map_err admission_compile_error (tree_of_source scan source limits)) (\<lambda>root.
     and_then (new_view root ''$'') (\<lambda>view.
     and_then (required_integer ''version'' view) (\<lambda>(version, view).
     if sint version \<noteq> 1
     then Err (schema_error ''$.version'' (''expected version 1, found '' @ show_int (sint version)))
     else
     and_then (required_string ''name'' view) (\<lambda>(name, view).
     let (parameters_node, view) = take_field ''parameters'' view in
     and_then (required ''stages'' view) (\<lambda>(stages_node, view).
     let (notify_node, view) = take_field ''notify'' view in
     and_then (finish_view view) (\<lambda>_.
     and_then (compile_parameter_definitions parameters_node) (\<lambda>parameters.
     and_then (bind_parameter_values parameters inputs) (\<lambda>(parameter_values, evaluation_context).
     and_then (compile_stages ext evaluation_context stages_node []) (\<lambda>(stages, bs).
     and_then (compile_notify evaluation_context notify_node bs) (\<lambda>(notify, bs).
     let bs = sort_key eb_path bs;
         pipeline = \<lparr>p_schema = IR_V1_minor (required_minor parameters bs stages notify), p_name = name,
           p_parameters = parameters, p_parameter_values = parameter_values, p_expressions = bs,
           p_stages = stages, p_notify = notify,
           p_provenance = \<lparr>source_id = ident, source_sha256 = sha256 ext (as_bytes source),
             prov_compiler = \<lparr>compiler_name = ''mcloving-strict-yaml'', compiler_version = package_version\<rparr>\<rparr>,
           p_source_span = sv_span root\<rparr> in
     and_then (map_err validation_compile_error (validate_pipeline ext pipeline)) (\<lambda>_.
     Ok pipeline)))))))))))"

definition compile_strict_yaml ::
  "externals \<Rightarrow> scanner \<Rightarrow> string \<Rightarrow> string \<Rightarrow> string \<Rightarrow> parse_limits \<Rightarrow> (pipeline_ir, compile_error) result" where
  "compile_strict_yaml ext scan package_version ident source limits =
     compile_strict_yaml_with_parameters ext scan package_version ident source limits []"

end
