(* ===== verification/Canonical.thy ===== *)
theory Canonical
  imports Model Bytes
begin

text \<open>
  The canonical bytes of a pipeline (\<open>crates/pipeline-ir/src/canonical.rs\<close>): the writer, and the reader that
  validates bytes independently of the pipeline they came from. A writer method appends to the
  vector; its model is the bytes it appends. A reader is the bytes and an offset.
\<close>

section \<open>The writer\<close>

definition MAGIC :: "byte list" where
  "MAGIC = as_bytes ''MCLOVING-IR'' @ [0]"

definition put_u32 :: "nat \<Rightarrow> byte list" where
  "put_u32 n = be_u32 (word_of_nat n)"

definition put_string :: "string \<Rightarrow> byte list" where
  "put_string s = put_u32 (length s) @ as_bytes s"

definition put_flag :: "bool \<Rightarrow> byte list" where
  "put_flag b = [if b then 1 else 0]"

definition put_option :: "('a \<Rightarrow> byte list) \<Rightarrow> 'a option \<Rightarrow> byte list" where
  "put_option put v = (case v of Some x \<Rightarrow> [1] @ put x | None \<Rightarrow> [0])"

definition put_list :: "('a \<Rightarrow> byte list) \<Rightarrow> 'a list \<Rightarrow> byte list" where
  "put_list put xs = put_u32 (length xs) @ concat (map put xs)"

definition put_parameter_type :: "parameter_type \<Rightarrow> byte list" where
  "put_parameter_type t = [case t of PT_Bool \<Rightarrow> 1 | PT_Integer \<Rightarrow> 2 | PT_String \<Rightarrow> 3]"

definition put_process_mode :: "process_mode \<Rightarrow> byte list" where
  "put_process_mode m = [case m of Direct \<Rightarrow> 0 | WindowsCmd \<Rightarrow> 1 | PowerShell \<Rightarrow> 2]"

definition put_effect_class :: "connector_effect_class \<Rightarrow> byte list" where
  "put_effect_class c = [case c of Idempotent \<Rightarrow> 1 | ExternallyIdempotent \<Rightarrow> 2 | NonIdempotent \<Rightarrow> 3]"

definition field_type_code :: "json_field_type \<Rightarrow> byte" where
  "field_type_code t =
     (case t of J_Array \<Rightarrow> 1 | J_Boolean \<Rightarrow> 2 | J_Null \<Rightarrow> 3 | J_Number \<Rightarrow> 4 | J_Object \<Rightarrow> 5 | J_String \<Rightarrow> 6)"

definition put_field_schema :: "json_field_type btree_map \<Rightarrow> byte list" where
  "put_field_schema m = put_list (\<lambda>(name, t). put_string name @ [field_type_code t]) m"

definition put_ambiguity_policy :: "ambiguity_policy \<Rightarrow> byte list" where
  "put_ambiguity_policy p = [case p of ObserveThenReconcile \<Rightarrow> 1]"

definition put_parameter_value :: "parameter_value \<Rightarrow> byte list" where
  "put_parameter_value v =
     (case v of
        PV_Bool b \<Rightarrow> [1] @ put_flag b
      | PV_Integer n \<Rightarrow> [2] @ be_u64 n
      | PV_String s \<Rightarrow> [3] @ put_string s)"

primrec put_expression :: "expression \<Rightarrow> byte list" where
  "put_expression (E_Literal v) = [1] @ put_parameter_value v"
| "put_expression (E_Parameter n) = [2] @ put_string n"
| "put_expression (E_Not e) = [3] @ put_expression e"
| "put_expression (E_Equal l r) = [4] @ put_expression l @ put_expression r"
| "put_expression (E_NotEqual l r) = [5] @ put_expression l @ put_expression r"
| "put_expression (E_And l r) = [6] @ put_expression l @ put_expression r"
| "put_expression (E_Or l r) = [7] @ put_expression l @ put_expression r"
| "put_expression (E_Add l r) = [8] @ put_expression l @ put_expression r"

definition put_definition :: "string \<times> parameter_definition \<Rightarrow> byte list" where
  "put_definition nd =
     put_string (fst nd) @ put_parameter_type (pd_type (snd nd)) @ put_flag (pd_secret (snd nd))
     @ put_option put_parameter_value (pd_default (snd nd))"

definition put_value :: "string \<times> parameter_value \<Rightarrow> byte list" where
  "put_value nv = put_string (fst nv) @ put_parameter_value (snd nv)"

definition put_binding :: "expression_binding \<Rightarrow> byte list" where
  "put_binding b = put_string (eb_path b) @ put_expression (eb_expression b)"

definition put_process :: "u16 \<Rightarrow> process_step \<Rightarrow> byte list" where
  "put_process v p =
     (if v \<ge> 2 then put_process_mode (pr_mode p) else []) @ put_string (pr_program p)
     @ put_list put_string (pr_args p) @ put_list (\<lambda>(k, x). put_string k @ put_string x) (pr_env p)
     @ put_option be_u64 (pr_timeout_seconds p)"

definition put_input_intent :: "input_intent_spec \<Rightarrow> byte list" where
  "put_input_intent i = put_string (ii_mapping_id i) @ put_string (ii_mapping_digest i) @ be_u64 (ii_timeout_seconds i)"

definition put_checkout :: "checkout_step_spec \<Rightarrow> byte list" where
  "put_checkout c =
     put_string (co_mapping_id c) @ put_string (co_mapping_digest c) @ put_string (co_reference c)
     @ put_string (co_commit c) @ put_string (co_destination c) @ be_u64 (co_timeout_seconds c)"

definition put_cache_intent :: "cache_intent_spec \<Rightarrow> byte list" where
  "put_cache_intent c =
     put_string (ci_mapping_id c) @ put_string (ci_mapping_digest c)
     @ [case ci_operation c of Cache_Read \<Rightarrow> 1 | Cache_Publish \<Rightarrow> 2]
     @ put_string (ci_logical_key_sha256 c) @ put_string (ci_input_sha256 c)
     @ put_option put_string (ci_content_base64 c) @ be_u64 (ci_timeout_seconds c)"

definition put_connector :: "connector_intent_step \<Rightarrow> byte list" where
  "put_connector c =
     put_string (cn_mapping_id c) @ put_string (cn_mapping_digest c) @ put_effect_class (cn_effect_class c)
     @ put_string (cn_effect_key_template c) @ put_field_schema (cn_public_input_schema c)
     @ put_field_schema (cn_protected_secret_ref_schema c) @ put_field_schema (cn_expected_public_result_schema c)
     @ be_u64 (cn_timeout_seconds c) @ put_ambiguity_policy (cn_ambiguity_policy c)
     @ put_string (cn_downstream_control_digest c)"

definition put_step :: "u16 \<Rightarrow> step \<Rightarrow> byte list" where
  "put_step v s =
     (case s of
        Process p \<Rightarrow> [1] @ put_process v p
      | ConnectorIntent c \<Rightarrow> [2] @ put_connector c
      | CacheIntent c \<Rightarrow> [3] @ put_cache_intent (cs_intent c)
      | InputIntent c \<Rightarrow> [4] @ put_input_intent (is_intent c)
      | Checkout c \<Rightarrow> [5] @ put_checkout (ck_spec c))"

definition put_artifact :: "artifact_spec \<Rightarrow> byte list" where
  "put_artifact a = put_string (as_name a) @ put_list put_string (as_paths a)"

definition put_stage :: "u16 \<Rightarrow> stage \<Rightarrow> byte list" where
  "put_stage v s =
     put_string (sg_id s) @ put_string (sg_name s)
     @ (if v \<ge> 6 then put_option put_string (sg_image s) else [])
     @ put_list (put_step v) (sg_steps s)
     @ (if v \<ge> 8 then put_list put_artifact (sg_artifacts s) else [])"

definition put_target :: "notify_target \<Rightarrow> byte list" where
  "put_target t =
     (case t of
        GithubStatus mapping_id commit cxt repository \<Rightarrow>
          [1] @ put_string mapping_id @ put_string commit @ put_string cxt @ put_option put_string repository
      | Webhook mapping_id \<Rightarrow> [2] @ put_string mapping_id)"

definition encode_pipeline :: "pipeline_ir \<Rightarrow> byte list" where
  "encode_pipeline p =
     (let v = minor (p_schema p) in
      MAGIC @ be_u16 (major (p_schema p)) @ be_u16 v @ put_string (p_name p)
      @ (if v \<ge> 1
         then put_list put_definition (p_parameters p) @ put_list put_value (p_parameter_values p)
              @ put_list put_binding (p_expressions p)
         else [])
      @ put_list (put_stage v) (p_stages p)
      @ (if v \<ge> 9 then put_list put_target (p_notify p) else []))"

definition canonical_bytes :: "externals \<Rightarrow> pipeline_ir \<Rightarrow> (byte list, ir_validation_error) result" where
  "canonical_bytes ext p = and_then (validate_pipeline ext p) (\<lambda>_. Ok (encode_pipeline p))"

definition semantic_digest :: "externals \<Rightarrow> pipeline_ir \<Rightarrow> (byte list, ir_validation_error) result" where
  "semantic_digest ext p = and_then (canonical_bytes ext p) (\<lambda>bytes. Ok (sha256 ext bytes))"

definition semantic_digest_hex :: "externals \<Rightarrow> pipeline_ir \<Rightarrow> (string, ir_validation_error) result" where
  "semantic_digest_hex ext p = and_then (semantic_digest ext p) (\<lambda>d. Ok (hex d))"

section \<open>The reader\<close>

record canonical_error =
  cx_offset :: nat
  cx_message :: string

definition canonical_error :: "nat \<Rightarrow> string \<Rightarrow> canonical_error" where
  "canonical_error offset message = \<lparr>cx_offset = offset, cx_message = message\<rparr>"

record reader =
  rd_bytes :: "byte list"
  rd_offset :: nat

type_synonym 'a reading = "reader \<Rightarrow> ('a \<times> reader, canonical_error) result"

text \<open>An error at the offset of the reader, less some bytes already read.\<close>

definition fail_back :: "nat \<Rightarrow> string \<Rightarrow> reader \<Rightarrow> ('a, canonical_error) result" where
  "fail_back n message rd = Err (canonical_error (rd_offset rd - n) message)"

definition take_bytes :: "nat \<Rightarrow> byte list reading" where
  "take_bytes n rd =
     (if rd_offset rd + n \<le> length (rd_bytes rd)
      then Ok (take n (drop (rd_offset rd) (rd_bytes rd)), rd\<lparr>rd_offset := rd_offset rd + n\<rparr>)
      else fail_back 0 ''truncated input'' rd)"

definition get_u8 :: "byte reading" where
  "get_u8 rd = and_then (take_bytes 1 rd) (\<lambda>(bs, rd). Ok (hd bs, rd))"

definition get_u16 :: "u16 reading" where
  "get_u16 rd = and_then (take_bytes 2 rd) (\<lambda>(bs, rd). Ok (word_of_nat (nat_of_be bs), rd))"

definition get_u32 :: "u32 reading" where
  "get_u32 rd = and_then (take_bytes 4 rd) (\<lambda>(bs, rd). Ok (word_of_nat (nat_of_be bs), rd))"

definition get_u64 :: "u64 reading" where
  "get_u64 rd = and_then (take_bytes 8 rd) (\<lambda>(bs, rd). Ok (word_of_nat (nat_of_be bs), rd))"

definition get_count :: "nat \<Rightarrow> string \<Rightarrow> nat reading" where
  "get_count maximum description rd =
     and_then (get_u32 rd) (\<lambda>(n, rd).
       if unat n > maximum then fail_back 4 (description @ '' count exceeds limit'') rd else Ok (unat n, rd))"

definition get_string :: "string reading" where
  "get_string rd =
     and_then (get_count MAX_IR_STRING_BYTES ''string byte'' rd) (\<lambda>(n, rd).
     and_then (take_bytes n rd) (\<lambda>(bs, rd').
       case from_utf8 bs of Some s \<Rightarrow> Ok (s, rd') | None \<Rightarrow> fail_back 0 ''string is not UTF-8'' rd))"

definition get_string_after :: "string option \<Rightarrow> string \<Rightarrow> string reading" where
  "get_string_after previous description rd =
     and_then (get_string rd) (\<lambda>(s, rd).
       if (case previous of Some q \<Rightarrow> q \<ge> s | None \<Rightarrow> False)
       then fail_back 0 (description @ '' names are not in canonical order'') rd
       else Ok (s, rd))"

definition get_bool_marker :: "string \<Rightarrow> bool reading" where
  "get_bool_marker description rd =
     and_then (get_u8 rd) (\<lambda>(b, rd).
       if b = 0 then Ok (False, rd) else if b = 1 then Ok (True, rd)
       else fail_back 1 (''invalid '' @ description @ '' boolean marker'') rd)"

definition get_parameter_type :: "parameter_type reading" where
  "get_parameter_type rd =
     and_then (get_u8 rd) (\<lambda>(b, rd).
       if b = 1 then Ok (PT_Bool, rd) else if b = 2 then Ok (PT_Integer, rd) else if b = 3 then Ok (PT_String, rd)
       else fail_back 1 ''unknown parameter type opcode'' rd)"

definition get_parameter_value :: "parameter_value reading" where
  "get_parameter_value rd =
     and_then (get_u8 rd) (\<lambda>(b, rd).
       if b = 1 then and_then (get_bool_marker ''parameter'' rd) (\<lambda>(x, rd). Ok (PV_Bool x, rd))
       else if b = 2 then and_then (get_u64 rd) (\<lambda>(x, rd). Ok (PV_Integer x, rd))
       else if b = 3 then
         and_then (get_string rd) (\<lambda>(s, rd).
           if length s > max_string_bytes default_expression_limits
           then fail_back 0 ''parameter string exceeds expression limit'' rd
           else Ok (PV_String s, rd))
       else fail_back 1 ''unknown parameter value opcode'' rd)"

definition get_option :: "nat \<Rightarrow> string \<Rightarrow> 'a reading \<Rightarrow> 'a option reading" where
  "get_option back message get rd =
     and_then (get_u8 rd) (\<lambda>(b, rd).
       if b = 0 then Ok (None, rd)
       else if b = 1 then and_then (get rd) (\<lambda>(x, rd). Ok (Some x, rd))
       else fail_back back message rd)"

record expression_counts =
  xc_nodes :: nat
  xc_operations :: nat
  xc_references :: "string set"

definition binary_opcode :: "byte \<Rightarrow> (expression \<Rightarrow> expression \<Rightarrow> expression) option" where
  "binary_opcode b =
     (if b = 4 then Some E_Equal else if b = 5 then Some E_NotEqual else if b = 6 then Some E_And
      else if b = 7 then Some E_Or else if b = 8 then Some E_Add else None)"

definition check_operations ::
  "expression \<Rightarrow> expression_counts \<Rightarrow> reader \<Rightarrow> (expression \<times> expression_counts \<times> reader, canonical_error) result" where
  "check_operations e c rd =
     (if xc_operations c > max_operations default_expression_limits
      then fail_back 0 ''expression operation count exceeds limit'' rd
      else Ok (e, c, rd))"

definition count_operation :: "expression_counts \<Rightarrow> expression_counts" where
  "count_operation c = c\<lparr>xc_operations := saturating_add (xc_operations c) 1\<rparr>"

function get_expression ::
  "nat \<Rightarrow> expression_counts \<Rightarrow> reader \<Rightarrow> (expression \<times> expression_counts \<times> reader, canonical_error) result" where
  "get_expression depth c rd =
     (if depth > max_depth default_expression_limits then fail_back 0 ''expression depth exceeds limit'' rd
      else
      let c = c\<lparr>xc_nodes := saturating_add (xc_nodes c) 1\<rparr> in
      if xc_nodes c > max_nodes default_expression_limits
      then fail_back 0 ''expression node count exceeds limit'' rd
      else
      and_then (get_u8 rd) (\<lambda>(b, rd).
        if b = 1 then and_then (get_parameter_value rd) (\<lambda>(v, rd). check_operations (E_Literal v) c rd)
        else if b = 2 then
          and_then (get_string rd) (\<lambda>(n, rd).
            check_operations (E_Parameter n) (c\<lparr>xc_references := insert n (xc_references c)\<rparr>) rd)
        else if b = 3 then
          and_then (get_expression (depth + 1) (count_operation c) rd) (\<lambda>(e, c, rd).
            check_operations (E_Not e) c rd)
        else
          (case binary_opcode b of
             Some build \<Rightarrow>
               and_then (get_expression (depth + 1) (count_operation c) rd) (\<lambda>(l, c, rd).
               and_then (get_expression (depth + 1) c rd) (\<lambda>(r, c, rd).
                 check_operations (build l r) c rd))
           | None \<Rightarrow> fail_back 1 ''unknown expression opcode'' rd)))"
  by pat_completeness auto
termination
  by (relation "measure (\<lambda>(depth, _, _). max_depth default_expression_limits + 1 - depth)") auto

declare get_expression.simps [simp del]

section \<open>The validator: parameters and expressions\<close>

definition is_mapping_identifier :: "string \<Rightarrow> bool" where
  "is_mapping_identifier v \<longleftrightarrow> v \<noteq> [] \<and> list_all is_ir_byte v"

definition is_parameter_identifier :: "string \<Rightarrow> bool" where
  "is_parameter_identifier v \<longleftrightarrow> v \<noteq> [] \<and> list_all is_parameter_byte v"

definition value_type :: "parameter_value \<Rightarrow> parameter_type" where
  "value_type v = (case v of PV_Bool _ \<Rightarrow> PT_Bool | PV_Integer _ \<Rightarrow> PT_Integer | PV_String _ \<Rightarrow> PT_String)"

definition check_sha256_reference :: "string \<Rightarrow> reader \<Rightarrow> (unit, canonical_error) result" where
  "check_sha256_reference v rd =
     (case strip_prefix ''sha256:'' v of
        Some h \<Rightarrow> if length h = 64 \<and> list_all is_lower_hex h then Ok ()
          else fail_back (length v) ''invalid sha256 reference'' rd
      | None \<Rightarrow> fail_back (length v) ''invalid sha256 reference'' rd)"

type_synonym definitions = "(parameter_type \<times> bool) btree_map"

text \<open>The loop \<open>for _ in 0..n\<close> over a reader and the variables that the body changes.\<close>

definition read_times ::
  "nat \<Rightarrow> (nat \<Rightarrow> 's \<Rightarrow> 's reading) \<Rightarrow> 's \<Rightarrow> 's reading" where
  "read_times n body s rd = repeat_index 0 n (\<lambda>i (s, rd). body i s rd) (s, rd)"

definition read_definition ::
  "definitions \<times> string option \<Rightarrow> (definitions \<times> string option) reading" where
  "read_definition state rd =
     (case state of (defs, previous) \<Rightarrow>
      and_then (get_string_after previous ''parameter'' rd) (\<lambda>(name, rd).
      if \<not> is_parameter_identifier name then fail_back (length name) ''invalid parameter identifier'' rd
      else
      and_then (get_parameter_type rd) (\<lambda>(t, rd).
      and_then (get_bool_marker ''secret'' rd) (\<lambda>(secret, rd).
      and_then (get_option 1 ''invalid parameter default marker'' get_parameter_value rd) (\<lambda>(d, rd).
      if secret \<and> d \<noteq> None then fail_back 0 ''secret parameter contains a persisted default'' rd
      else if (case d of Some v \<Rightarrow> value_type v \<noteq> t | None \<Rightarrow> False)
      then fail_back 0 ''parameter default type does not match its definition'' rd
      else Ok ((btree_insert defs name (t, secret), Some name), rd))))))"

definition read_value ::
  "definitions \<Rightarrow> evaluated_value btree_map \<times> string option
     \<Rightarrow> (evaluated_value btree_map \<times> string option) reading" where
  "read_value defs state rd =
     (case state of (cxt, previous) \<Rightarrow>
      and_then (get_string_after previous ''parameter value'' rd) (\<lambda>(name, rd).
      and_then (get_parameter_value rd) (\<lambda>(v, rd).
      case btree_get defs name of
        None \<Rightarrow> fail_back 0 ''parameter value has no definition'' rd
      | Some (t, secret) \<Rightarrow>
          if secret then fail_back 0 ''secret parameter value is persisted in canonical IR'' rd
          else if value_type v \<noteq> t then fail_back 0 ''parameter value type does not match its definition'' rd
          else Ok ((btree_insert cxt name \<lparr>ev_value = v, ev_secret = False\<rparr>, Some name), rd))))"

definition check_bound :: "definitions \<Rightarrow> evaluated_value btree_map \<Rightarrow> reader \<Rightarrow> (unit, canonical_error) result" where
  "check_bound defs cxt rd =
     for_each (\<lambda>(name, (_, secret)).
       if \<not> secret \<and> \<not> btree_contains cxt name
       then fail_back 0 ''public parameter definition has no bound value'' rd else Ok ()) defs"

definition read_binding ::
  "definitions \<Rightarrow> (string \<times> expression) list \<times> string option
     \<Rightarrow> ((string \<times> expression) list \<times> string option) reading" where
  "read_binding defs state rd =
     (case state of (bs, previous) \<Rightarrow>
      and_then (get_string_after previous ''expression path'' rd) (\<lambda>(path, rd).
      and_then (get_expression 0 \<lparr>xc_nodes = 0, xc_operations = 0, xc_references = {}\<rparr> rd) (\<lambda>(e, c, rd).
      if \<exists>n\<in>xc_references c. \<not> btree_contains defs n
      then fail_back 0 ''expression references an undefined parameter'' rd
      else if \<exists>n\<in>xc_references c. (case btree_get defs n of Some (_, secret) \<Rightarrow> secret | None \<Rightarrow> False)
      then fail_back 0 ''expression materializes a secret-tainted parameter'' rd
      else Ok ((bs @ [(path, e)], Some path), rd))))"

record parameter_section =
  ps_parameters :: nat
  ps_expressions :: nat
  ps_context :: "evaluated_value btree_map"
  ps_bindings :: "(string \<times> expression) list"

definition read_parameters :: "u16 \<Rightarrow> parameter_section reading" where
  "read_parameters v rd =
     (if \<not> v \<ge> 1 then Ok (\<lparr>ps_parameters = 0, ps_expressions = 0, ps_context = [], ps_bindings = []\<rparr>, rd)
      else
      and_then (get_count MAX_PARAMETERS ''parameter'' rd) (\<lambda>(n, rd).
      and_then (read_times n (\<lambda>_. read_definition) ([], None) rd) (\<lambda>((defs, _), rd).
      and_then (get_count MAX_PARAMETERS ''parameter value'' rd) (\<lambda>(value_count, rd).
      and_then (read_times value_count (\<lambda>_. read_value defs) ([], None) rd) (\<lambda>((cxt, _), rd).
      and_then (check_bound defs cxt rd) (\<lambda>_.
      and_then (get_count MAX_EXPRESSION_BINDINGS ''expression binding'' rd) (\<lambda>(m, rd).
      and_then (read_times m (\<lambda>_. read_binding defs) ([], None) rd) (\<lambda>((bs, _), rd).
      Ok (\<lparr>ps_parameters = n, ps_expressions = m, ps_context = cxt, ps_bindings = bs\<rparr>, rd)))))))))"

section \<open>The validator: steps\<close>

type_synonym fields_state = "string btree_map"

definition read_argument :: "string \<Rightarrow> nat \<Rightarrow> fields_state \<Rightarrow> fields_state reading" where
  "read_argument base k mf rd =
     and_then (get_string rd) (\<lambda>(a, rd). Ok (btree_insert mf (argument_path base k) a, rd))"

definition read_environment ::
  "string \<Rightarrow> fields_state \<times> string option \<Rightarrow> (fields_state \<times> string option) reading" where
  "read_environment base state rd =
     (case state of (mf, previous) \<Rightarrow>
      and_then (get_string_after previous ''environment'' rd) (\<lambda>(key, rd).
      and_then (get_string rd) (\<lambda>(x, rd).
      Ok ((btree_insert mf (environment_path base key) x, Some key), rd))))"

definition read_process :: "u16 \<Rightarrow> string \<Rightarrow> fields_state \<Rightarrow> fields_state reading" where
  "read_process v base mf rd =
     and_then (if v \<ge> 2
       then and_then (get_u8 rd) (\<lambda>(b, rd). if b \<le> 2 then Ok ((), rd) else fail_back 1 ''invalid process mode'' rd)
       else Ok ((), rd)) (\<lambda>(_, rd).
     and_then (get_string rd) (\<lambda>(program, rd).
     let mf = btree_insert mf (program_path base) program in
     and_then (get_count MAX_STEPS ''argument'' rd) (\<lambda>(n, rd).
     and_then (read_times n (read_argument base) mf rd) (\<lambda>(mf, rd).
     and_then (get_count MAX_STEPS ''environment entry'' rd) (\<lambda>(m, rd).
     and_then (read_times m (\<lambda>_. read_environment base) (mf, None) rd) (\<lambda>((mf, _), rd).
     and_then (get_option 1 ''invalid timeout presence marker'' get_u64 rd) (\<lambda>(_, rd).
     Ok (mf, rd))))))))"

definition read_checkout :: "string \<Rightarrow> fields_state \<Rightarrow> fields_state reading" where
  "read_checkout base mf rd =
     and_then (get_string rd) (\<lambda>(mapping_id, rd).
     and_then (get_string rd) (\<lambda>(mapping_digest, rd).
     and_then (get_string rd) (\<lambda>(reference, rd).
     and_then (get_string rd) (\<lambda>(commit, rd).
     and_then (get_string rd) (\<lambda>(destination, rd).
     and_then (get_u64 rd) (\<lambda>(timeout, rd).
     let spec = \<lparr>co_mapping_id = mapping_id, co_mapping_digest = mapping_digest, co_reference = reference,
           co_commit = commit, co_destination = destination, co_timeout_seconds = timeout\<rparr> in
     and_then (map_err (\<lambda>e. canonical_error (rd_offset rd) (''invalid bounded checkout step or authority: '' @ e))
       (validate_checkout spec)) (\<lambda>_.
     Ok (btree_insert mf (commit_path base) (co_commit spec), rd))))))))"

definition read_input_intent :: "unit reading" where
  "read_input_intent rd =
     and_then (get_string rd) (\<lambda>(mapping_id, rd).
     and_then (get_string rd) (\<lambda>(mapping_digest, rd).
     and_then (get_u64 rd) (\<lambda>(timeout, rd).
     and_then (map_err (\<lambda>e. canonical_error (rd_offset rd) (''invalid bounded input intent or authority: '' @ e))
       (validate_input_intent \<lparr>ii_mapping_id = mapping_id, ii_mapping_digest = mapping_digest, ii_timeout_seconds = timeout\<rparr>))
       (\<lambda>_. Ok ((), rd)))))"

definition read_cache_intent :: "externals \<Rightarrow> unit reading" where
  "read_cache_intent ext rd =
     and_then (get_string rd) (\<lambda>(mapping_id, rd).
     and_then (get_string rd) (\<lambda>(mapping_digest, rd).
     and_then (get_u8 rd) (\<lambda>(b, rd).
     and_then (if b = 1 then Ok Cache_Read else if b = 2 then Ok Cache_Publish
       else fail_back 0 ''invalid cache operation'' rd) (\<lambda>oper.
     and_then (get_string rd) (\<lambda>(logical_key, rd).
     and_then (get_string rd) (\<lambda>(input, rd).
     and_then (get_option 0 ''invalid cache content marker'' get_string rd) (\<lambda>(content, rd).
     and_then (get_u64 rd) (\<lambda>(timeout, rd).
     and_then (map_err (\<lambda>e. canonical_error (rd_offset rd) (''invalid bounded cache intent or authority: '' @ e))
       (validate_cache_intent ext \<lparr>ci_mapping_id = mapping_id, ci_mapping_digest = mapping_digest, ci_operation = oper,
         ci_logical_key_sha256 = logical_key, ci_input_sha256 = input, ci_content_base64 = content,
         ci_timeout_seconds = timeout\<rparr>))
       (\<lambda>_. Ok ((), rd))))))))))"

definition read_schema_field :: "string \<Rightarrow> bool \<Rightarrow> string option \<Rightarrow> string option reading" where
  "read_schema_field description strings_only previous rd =
     and_then (get_string_after previous description rd) (\<lambda>(name, rd).
     if \<not> is_mapping_identifier name then fail_back 0 (''invalid '' @ description @ '' field name'') rd
     else
     and_then (get_u8 rd) (\<lambda>(t, rd).
     if \<not> (1 \<le> t \<and> t \<le> 6) \<or> (strings_only \<and> t \<noteq> 6)
     then fail_back 1 (''invalid '' @ description @ '' field type'') rd
     else Ok (Some name, rd)))"

definition read_schema :: "string \<times> bool \<Rightarrow> unit reading" where
  "read_schema d rd =
     and_then (get_count MAX_PARAMETERS (fst d) rd) (\<lambda>(n, rd).
     and_then (read_times n (\<lambda>_. read_schema_field (fst d) (snd d)) None rd) (\<lambda>(_, rd).
     Ok ((), rd)))"

fun read_schemas :: "(string \<times> bool) list \<Rightarrow> unit reading" where
  "read_schemas [] rd = Ok ((), rd)"
| "read_schemas (d # ds) rd = and_then (read_schema d rd) (\<lambda>(_, rd). read_schemas ds rd)"

definition read_connector :: "unit reading" where
  "read_connector rd =
     and_then (get_string rd) (\<lambda>(mapping_id, rd).
     if \<not> is_mapping_identifier mapping_id
     then fail_back (length mapping_id) ''invalid connector mapping identifier'' rd
     else
     and_then (get_string rd) (\<lambda>(mapping_digest, rd).
     and_then (check_sha256_reference mapping_digest rd) (\<lambda>_.
     and_then (get_u8 rd) (\<lambda>(c, rd).
     if \<not> (1 \<le> c \<and> c \<le> 3) then fail_back 1 ''invalid connector effect class'' rd
     else
     and_then (get_string rd) (\<lambda>(template, rd).
     if trim template = [] then fail_back 0 ''empty connector effect key template'' rd
     else
     and_then (read_schemas [(''public input'', False), (''protected secret reference'', True), (''public result'', False)] rd)
       (\<lambda>(_, rd).
     and_then (get_u64 rd) (\<lambda>(timeout, rd).
     if timeout = 0 \<or> timeout > 86400 then fail_back 8 ''invalid connector timeout'' rd
     else
     and_then (get_u8 rd) (\<lambda>(policy, rd).
     if policy \<noteq> 1 then fail_back 1 ''invalid ambiguity policy'' rd
     else
     and_then (get_string rd) (\<lambda>(downstream, rd).
     and_then (check_sha256_reference downstream rd) (\<lambda>_. Ok ((), rd)))))))))))"

text \<open>The state of a stage: the fields and whether a checkout was seen.\<close>

definition read_step ::
  "externals \<Rightarrow> u16 \<Rightarrow> bool \<Rightarrow> nat \<Rightarrow> nat \<Rightarrow> nat \<Rightarrow> fields_state \<times> nat \<Rightarrow> (fields_state \<times> nat) reading" where
  "read_step ext v container stage_steps i j state rd =
     (case state of (mf, checkouts) \<Rightarrow>
      and_then (get_u8 rd) (\<lambda>(kind, rd).
      if container \<and> \<not> (kind = 1 \<or> kind = 5)
      then fail_back 1 ''a container stage may hold process and checkout steps only'' rd
      else if kind = 1 then and_then (read_process v (step_path i j) mf rd) (\<lambda>(mf, rd). Ok ((mf, checkouts), rd))
      else if kind = 5 \<and> v \<ge> 7 then
        (if checkouts > 0 then fail_back 0 ''a stage may hold at most one checkout step'' rd
         else and_then (read_checkout (step_path i j) mf rd) (\<lambda>(mf, rd). Ok ((mf, checkouts + 1), rd)))
      else if kind = 4 \<and> v \<ge> 5 then
        (if stage_steps \<noteq> 1 then fail_back 0 ''input intent stage must contain exactly one step'' rd
         else and_then (read_input_intent rd) (\<lambda>(_, rd). Ok ((mf, checkouts), rd)))
      else if kind = 3 \<and> v \<ge> 4 then
        (if stage_steps \<noteq> 1 then fail_back 0 ''cache intent stage must contain exactly one step'' rd
         else and_then (read_cache_intent ext rd) (\<lambda>(_, rd). Ok ((mf, checkouts), rd)))
      else if kind = 2 \<and> v \<ge> 3 then
        (if stage_steps \<noteq> 1 then fail_back 1 ''connector intent stage must contain exactly one step'' rd
         else and_then (read_connector rd) (\<lambda>(_, rd). Ok ((mf, checkouts), rd)))
      else fail_back 1 ''unknown step opcode'' rd))"

section \<open>The validator: stages, targets, document\<close>

definition read_image :: "u16 \<Rightarrow> bool reading" where
  "read_image v rd =
     (if v \<ge> 6 then
        and_then (get_u8 rd) (\<lambda>(b, rd).
          if b = 0 then Ok (False, rd)
          else if b = 1 then
            and_then (get_string rd) (\<lambda>(img, rd).
              if \<not> is_digest_pinned_image img then fail_back (length img) ''stage image is not digest-pinned'' rd
              else Ok (True, rd))
          else fail_back 1 ''invalid stage image marker'' rd)
      else Ok (False, rd))"

definition read_pattern :: "string list \<Rightarrow> string list reading" where
  "read_pattern paths rd = and_then (get_string rd) (\<lambda>(s, rd). Ok (paths @ [s], rd))"

definition read_artifact :: "artifact_spec list \<Rightarrow> artifact_spec list reading" where
  "read_artifact specs rd =
     and_then (get_string rd) (\<lambda>(name, rd).
     and_then (get_count 32 ''artifact path pattern'' rd) (\<lambda>(n, rd).
     and_then (read_times n (\<lambda>_. read_pattern) [] rd) (\<lambda>(paths, rd).
     Ok (specs @ [\<lparr>as_name = name, as_paths = paths\<rparr>], rd))))"

definition read_artifacts :: "u16 \<Rightarrow> unit reading" where
  "read_artifacts v rd =
     (if v \<ge> 8 then
        and_then (get_count 16 ''artifact'' rd) (\<lambda>(n, rd).
        and_then (read_times n (\<lambda>_. read_artifact) [] rd) (\<lambda>(specs, rd).
        and_then (map_err (\<lambda>e. canonical_error (rd_offset rd) (''invalid artifact declaration: '' @ e))
          (validate_declarations specs)) (\<lambda>_. Ok ((), rd))))
      else Ok ((), rd))"

definition read_stage ::
  "externals \<Rightarrow> u16 \<Rightarrow> nat \<Rightarrow> fields_state \<times> nat \<Rightarrow> (fields_state \<times> nat) reading" where
  "read_stage ext v i state rd =
     (case state of (mf, steps) \<Rightarrow>
      and_then (get_string rd) (\<lambda>(_, rd).
      and_then (get_string rd) (\<lambda>(_, rd).
      and_then (read_image v rd) (\<lambda>(container, rd).
      and_then (get_count MAX_STEPS ''step'' rd) (\<lambda>(stage_steps, rd).
      if steps + stage_steps > MAX_STEPS then fail_back 0 ''total step count exceeds limit'' rd
      else
      and_then (read_times stage_steps (read_step ext v container stage_steps i) (mf, 0) rd) (\<lambda>((mf, _), rd).
      and_then (read_artifacts v rd) (\<lambda>(_, rd).
      Ok ((mf, steps + stage_steps), rd))))))))"

definition read_target ::
  "nat \<Rightarrow> fields_state \<times> notify_target list \<Rightarrow> (fields_state \<times> notify_target list) reading" where
  "read_target i state rd =
     (case state of (mf, targets) \<Rightarrow>
      and_then (get_u8 rd) (\<lambda>(b, rd).
      if b = 1 then
        and_then (get_string rd) (\<lambda>(mapping_id, rd).
        and_then (get_string rd) (\<lambda>(commit, rd).
        and_then (get_string rd) (\<lambda>(cxt, rd).
        and_then (get_option 1 ''invalid notification repository marker'' get_string rd) (\<lambda>(repository, rd).
        Ok ((btree_insert mf (notify_commit_path i) commit,
             targets @ [GithubStatus mapping_id commit cxt repository]), rd)))))
      else if b = 2 then
        and_then (get_string rd) (\<lambda>(mapping_id, rd). Ok ((mf, targets @ [Webhook mapping_id]), rd))
      else fail_back 1 ''unknown notification target opcode'' rd))"

definition read_notify :: "u16 \<Rightarrow> fields_state \<Rightarrow> fields_state reading" where
  "read_notify v mf rd =
     (if v \<ge> 9 then
        and_then (get_count 8 ''notification target'' rd) (\<lambda>(n, rd).
        and_then (read_times n read_target (mf, []) rd) (\<lambda>((mf, targets), rd).
        and_then (map_err (\<lambda>e. canonical_error (rd_offset rd) (''invalid notification target: '' @ e))
          (validate_targets targets)) (\<lambda>_. Ok (mf, rd))))
      else Ok (mf, rd))"

definition check_binding ::
  "evaluated_value btree_map \<Rightarrow> fields_state \<Rightarrow> reader \<Rightarrow> string \<times> expression \<Rightarrow> (unit, canonical_error) result" where
  "check_binding cxt mf rd b =
     (case btree_get mf (fst b) of
        None \<Rightarrow> fail_back 0 ''expression path does not identify a materializable process field'' rd
      | Some materialized \<Rightarrow>
          and_then (map_err (\<lambda>e. canonical_error (rd_offset rd) (display_expression_error e))
            (evaluate_expression (snd b) cxt default_expression_limits)) (\<lambda>r.
          case ev_value r of
            PV_String s \<Rightarrow>
              if s \<noteq> materialized
              then fail_back 0 ''expression result does not match the materialized process field'' rd
              else Ok ()
          | _ \<Rightarrow> fail_back 0 ''expression binding must evaluate to a string'' rd))"

record canonical_summary =
  cm_schema :: schema_version
  cm_pipeline_name :: string
  cm_parameters :: nat
  cm_expressions :: nat
  cm_stages :: nat
  cm_steps :: nat
  cm_sha256 :: "byte list"

definition validate_canonical_bytes :: "externals \<Rightarrow> byte list \<Rightarrow> (canonical_summary, canonical_error) result" where
  "validate_canonical_bytes ext bytes =
     and_then (take_bytes (length MAGIC) \<lparr>rd_bytes = bytes, rd_offset = 0\<rparr>) (\<lambda>(magic, rd).
     if magic \<noteq> MAGIC then Err (canonical_error 0 ''invalid magic'')
     else
     and_then (get_u16 rd) (\<lambda>(maj, rd).
     and_then (get_u16 rd) (\<lambda>(v, rd).
     if maj \<noteq> 1 \<or> v > 9 then fail_back 4 ''unsupported Pipeline IR schema'' rd
     else
     and_then (get_string rd) (\<lambda>(name, rd).
     and_then (read_parameters v rd) (\<lambda>(params, rd).
     and_then (get_count MAX_STAGES ''stage'' rd) (\<lambda>(stages, rd).
     and_then (read_times stages (read_stage ext v) ([], 0) rd) (\<lambda>((mf, steps), rd).
     and_then (read_notify v mf rd) (\<lambda>(mf, rd).
     and_then (for_each (check_binding (ps_context params) mf rd) (ps_bindings params)) (\<lambda>_.
     if rd_offset rd \<noteq> length bytes then fail_back 0 ''trailing bytes after canonical document'' rd
     else Ok \<lparr>cm_schema = \<lparr>major = maj, minor = v\<rparr>, cm_pipeline_name = name, cm_parameters = ps_parameters params,
              cm_expressions = ps_expressions params, cm_stages = stages, cm_steps = steps,
              cm_sha256 = sha256 ext bytes\<rparr>)))))))))"

end
