(* ===== verification/Model_Validation.thy ===== *)
theory Model_Validation
  imports Model
begin

text \<open>
  What the validation of a pipeline accepts, stated without paths, messages and the order of the
  checks, and what an accepted pipeline guarantees.
\<close>

section \<open>Leaves and steps\<close>

definition ir_identifier :: "string \<Rightarrow> bool" where
  "ir_identifier v \<longleftrightarrow> v \<noteq> [] \<and> list_all is_ir_byte v"

definition ir_string :: "string \<Rightarrow> bool" where
  "ir_string v \<longleftrightarrow> length v \<le> MAX_IR_STRING_BYTES"

definition schema_fields_ok :: "json_field_type btree_map \<Rightarrow> bool" where
  "schema_fields_ok m \<longleftrightarrow> length m \<le> MAX_PARAMETERS \<and> (\<forall>(n, _)\<in>set m. ir_identifier n \<and> ir_string n)"

lemma leaf_checks [ok_simps]:
  "validate_identifier path v = Ok u \<longleftrightarrow> ir_identifier v"
  "validate_string_length path v = Ok u \<longleftrightarrow> ir_string v"
  "validate_sha256_reference path v = Ok u \<longleftrightarrow> sha256_reference v"
  "validate_parameter_value_length path x = Ok u \<longleftrightarrow> bounded_value default_expression_limits x"
  by (simp_all add: validate_identifier_def ir_identifier_def validate_string_length_def ir_string_def not_less
      validate_sha256_reference_def sha256_reference_def canonical_sha256_def
      validate_parameter_value_length_def bounded_value_def split: option.split parameter_value.split)

lemma schema_check [ok_simps]: "validate_field_schema path m = Ok u \<longleftrightarrow> schema_fields_ok m"
  by (simp add: validate_field_schema_def schema_fields_ok_def for_each_eq_Ok and_then_eq_Ok leaf_checks
      case_prod_unfold not_less)

definition process_ok :: "u16 \<Rightarrow> process_step \<Rightarrow> bool" where
  "process_ok v p \<longleftrightarrow> (2 \<le> v \<or> pr_mode p = Direct) \<and> trim (pr_program p) \<noteq> [] \<and> ir_string (pr_program p) \<and>
     length (pr_args p) \<le> MAX_STEPS \<and> length (pr_env p) \<le> MAX_STEPS \<and> (\<forall>a\<in>set (pr_args p). ir_string a) \<and>
     (\<forall>(k, x)\<in>set (pr_env p). k \<noteq> [] \<and> ir_string k \<and> ir_string x)"

definition connector_ok :: "connector_intent_step \<Rightarrow> bool" where
  "connector_ok c \<longleftrightarrow> ir_identifier (cn_mapping_id c) \<and> sha256_reference (cn_mapping_digest c) \<and>
     trim (cn_effect_key_template c) \<noteq> [] \<and> ir_string (cn_effect_key_template c) \<and>
     schema_fields_ok (cn_public_input_schema c) \<and> schema_fields_ok (cn_protected_secret_ref_schema c) \<and>
     (\<forall>(_, k)\<in>set (cn_protected_secret_ref_schema c). k = J_String) \<and>
     schema_fields_ok (cn_expected_public_result_schema c) \<and>
     1 \<le> cn_timeout_seconds c \<and> cn_timeout_seconds c \<le> 86400 \<and> sha256_reference (cn_downstream_control_digest c)"

definition step_ok :: "externals \<Rightarrow> u16 \<Rightarrow> step \<Rightarrow> bool" where
  "step_ok ext v s =
     (case s of
        Process p \<Rightarrow> process_ok v p
      | ConnectorIntent c \<Rightarrow> 3 \<le> v \<and> connector_ok c
      | CacheIntent c \<Rightarrow> 4 \<le> v \<and> validate_cache_intent ext (cs_intent c) = Ok ()
      | InputIntent c \<Rightarrow> 5 \<le> v \<and> validate_input_intent (is_intent c) = Ok ()
      | Checkout c \<Rightarrow> 7 \<le> v \<and> validate_checkout (ck_spec c) = Ok ())"

definition stage_image_ok :: "u16 \<Rightarrow> stage \<Rightarrow> bool" where
  "stage_image_ok v s =
     (case sg_image s of
        None \<Rightarrow> True
      | Some img \<Rightarrow> 6 \<le> v \<and> is_digest_pinned_image img \<and>
          (\<forall>st\<in>set (sg_steps s). case st of
             Process p \<Rightarrow> \<not> list_ex container_environment_entry_refused (pr_env p)
           | Checkout _ \<Rightarrow> True | _ \<Rightarrow> False))"

definition stage_ok :: "externals \<Rightarrow> u16 \<Rightarrow> stage \<Rightarrow> bool" where
  "stage_ok ext v s \<longleftrightarrow> ir_identifier (sg_id s) \<and> ir_string (sg_id s) \<and> trim (sg_name s) \<noteq> [] \<and> ir_string (sg_name s) \<and>
     sg_steps s \<noteq> [] \<and> (list_ex is_single_step (sg_steps s) \<longrightarrow> length (sg_steps s) = 1) \<and>
     length (filter is_checkout (sg_steps s)) \<le> 1 \<and>
     (sg_artifacts s \<noteq> [] \<longrightarrow> 8 \<le> v \<and> validate_declarations (sg_artifacts s) = Ok ()) \<and>
     stage_image_ok v s \<and> (\<forall>st\<in>set (sg_steps s). step_ok ext v st)"

lemma process_check [ok_simps]: "validate_process_step v base p = Ok u \<longleftrightarrow> process_ok v p"
proof -
  have env: "(\<not> list_ex (\<lambda>(k, _). k = []) m \<and> (\<forall>x\<in>set m. case x of (k, y) \<Rightarrow> length k \<le> 16384 \<and> ir_string y)) \<longleftrightarrow>
      (\<forall>(k, y)\<in>set m. k \<noteq> [] \<and> ir_string k \<and> ir_string y)" for m :: "string btree_map"
    by (auto simp: list_ex_iff ir_string_def)
  show ?thesis
    by (simp add: validate_process_step_def process_ok_def and_then_eq_Ok leaf_checks for_each_index_eq_Ok
        for_each_eq_Ok all_set_conv_all_nth [of "pr_args p"] case_prod_unfold not_less if_Err_eq_Ok
        env [unfolded case_prod_unfold, symmetric])
qed

lemma connector_check [ok_simps]: "validate_connector_step v base c = Ok u \<longleftrightarrow> 3 \<le> v \<and> connector_ok c"
proof -
  have "(1::u64) \<le> t \<longleftrightarrow> t \<noteq> 0" for t
    by (simp add: word_le_nat_alt Suc_le_eq unat_gt_0)
  then show ?thesis
    by (simp add: validate_connector_step_def connector_ok_def Let_def and_then_eq_Ok leaf_checks schema_check
        for_each_eq_Ok if_Err_eq_Ok case_prod_unfold not_less)
qed

lemma step_check [ok_simps]: "validate_step ext v i j s = Ok u \<longleftrightarrow> step_ok ext v s"
  by (cases s) (simp_all add: validate_step_def step_ok_def Let_def ok_simps not_less)

lemma container_step_check:
  "container_step st \<and> validate_container_step i j st = Ok u \<longleftrightarrow>
     (case st of Process p \<Rightarrow> \<not> list_ex container_environment_entry_refused (pr_env p)
        | Checkout _ \<Rightarrow> True | _ \<Rightarrow> False)"
proof (cases st)
  case (Process p)
  have "find container_environment_entry_refused (pr_env p) = None \<longleftrightarrow>
      \<not> list_ex container_environment_entry_refused (pr_env p)"
    unfolding find_None_iff list_ex_iff by blast
  with Process show ?thesis
    by (cases "find container_environment_entry_refused (pr_env p)")
      (auto simp: container_step_def validate_container_step_def)
qed (simp_all add: container_step_def validate_container_step_def)

lemma image_check [ok_simps]: "validate_image v i s = Ok u \<longleftrightarrow> stage_image_ok v s"
proof (cases "sg_image s")
  case (Some img)
  have "list_all container_step (sg_steps s) \<and> (\<forall>j<length (sg_steps s). validate_container_step i j (sg_steps s ! j) = Ok ())
      \<longleftrightarrow> (\<forall>j<length (sg_steps s). container_step (sg_steps s ! j) \<and> validate_container_step i j (sg_steps s ! j) = Ok ())"
    unfolding list_all_length by blast
  then show ?thesis
    by (simp only: validate_image_def stage_image_ok_def Some option.case if_Err_eq_Ok not_not for_each_index_eq_Ok
        add_0 container_step_check all_set_conv_all_nth not_less)
qed (simp add: validate_image_def stage_image_ok_def)

section \<open>Stages\<close>

lemma stage_check:
  "validate_stage ext v i (ids, n) s = Ok r \<longleftrightarrow>
     stage_ok ext v s \<and> sg_id s \<notin> ids \<and> saturating_add n (length (sg_steps s)) \<le> MAX_STEPS \<and>
     r = (insert (sg_id s) ids, saturating_add n (length (sg_steps s)))"
proof -
  have artifacts: "(if sg_artifacts s = [] then Ok () else if v < 8 then Err e
      else map_err f (validate_declarations (sg_artifacts s))) = Ok u \<longleftrightarrow>
    (sg_artifacts s \<noteq> [] \<longrightarrow> 8 \<le> v \<and> validate_declarations (sg_artifacts s) = Ok ())" for e f u
    using not_less [of v 8] by auto
  have single: "\<not> (list_ex is_single_step (sg_steps s) \<and> length (sg_steps s) \<noteq> 1) \<longleftrightarrow>
      (list_ex is_single_step (sg_steps s) \<longrightarrow> length (sg_steps s) = 1)" by blast
  have steps: "(\<forall>j<length (sg_steps s). step_ok ext v (sg_steps s ! j)) \<longleftrightarrow> (\<forall>st\<in>set (sg_steps s). step_ok ext v st)"
    by (simp add: all_set_conv_all_nth)
  show ?thesis
    unfolding validate_stage_def stage_ok_def Let_def prod.case and_then_eq_Ok leaf_checks if_Err_eq_Ok artifacts
      image_check for_each_index_eq_Ok step_check single not_less steps result.inject
    by blast
qed

lemma validate_stages:
  "n \<le> MAX_STEPS \<Longrightarrow> (\<exists>r. try_fold_index k (validate_stage ext v) (ids, n) ss = Ok r) \<longleftrightarrow>
     (\<forall>s\<in>set ss. stage_ok ext v s) \<and> distinct (map sg_id ss) \<and> ids \<inter> set (map sg_id ss) = {} \<and>
     n + sum_list (map (length \<circ> sg_steps) ss) \<le> MAX_STEPS"
proof (induction ss arbitrary: k ids n)
  case Nil
  then show ?case by simp
next
  case (Cons s ss)
  let ?m = "n + length (sg_steps s)"
  have sat: "saturating_add n (length (sg_steps s)) \<le> MAX_STEPS \<longleftrightarrow> ?m \<le> MAX_STEPS"
    by (simp add: saturating_add_def usize_max_def min_def)
  show ?case
  proof (cases "stage_ok ext v s \<and> sg_id s \<notin> ids \<and> ?m \<le> MAX_STEPS")
    case True
    then have "validate_stage ext v k (ids, n) s = Ok (insert (sg_id s) ids, ?m)"
      using sat by (simp add: stage_check saturating_add_def usize_max_def)
    with Cons.IH [of ?m "Suc k" "insert (sg_id s) ids"] True show ?thesis by (auto simp: add.assoc)
  next
    case False
    then have "\<not> (\<exists>r. validate_stage ext v k (ids, n) s = Ok r)"
      using sat by (auto simp: stage_check)
    with False show ?thesis by (auto simp: and_then_eq_Ok)
  qed
qed

section \<open>Parameters and expressions\<close>

primrec expr_params :: "expression \<Rightarrow> string set" where
  "expr_params (E_Literal v) = {}"
| "expr_params (E_Parameter n) = {n}"
| "expr_params (E_Not e) = expr_params e"
| "expr_params (E_Equal l r) = expr_params l \<union> expr_params r"
| "expr_params (E_NotEqual l r) = expr_params l \<union> expr_params r"
| "expr_params (E_And l r) = expr_params l \<union> expr_params r"
| "expr_params (E_Or l r) = expr_params l \<union> expr_params r"
| "expr_params (E_Add l r) = expr_params l \<union> expr_params r"

definition public_parameter :: "parameter_definition btree_map \<Rightarrow> string \<Rightarrow> bool" where
  "public_parameter params n \<longleftrightarrow> (\<exists>d. btree_get params n = Some d \<and> \<not> pd_secret d)"

lemma expression_parameters_check [ok_simps]:
  "validate_expression_parameters e params path = Ok u \<longleftrightarrow> (\<forall>n\<in>expr_params e. public_parameter params n)"
  by (induction e) (auto simp: public_parameter_def and_then_eq_Ok split: option.splits)

definition parameter_name :: "string \<Rightarrow> bool" where
  "parameter_name n \<longleftrightarrow> ir_identifier n \<and> CHR ''.'' \<notin> set n"

lemma parameter_name_eq: "parameter_name n \<longleftrightarrow> is_parameter_name n"
  by (induction n) (auto simp: parameter_name_def ir_identifier_def is_parameter_name_def is_ir_byte_def
      is_parameter_byte_def ascii_defs)

definition typed_value :: "parameter_definition \<Rightarrow> parameter_value \<Rightarrow> bool" where
  "typed_value d v \<longleftrightarrow> accepts (pd_type d) v \<and> bounded_value default_expression_limits v"

text \<open>A definition against the bound values: a secret has neither default nor value.\<close>

definition parameter_ok :: "parameter_value btree_map \<Rightarrow> string \<times> parameter_definition \<Rightarrow> bool" where
  "parameter_ok vals nd \<longleftrightarrow> (case nd of (n, d) \<Rightarrow>
     ir_string n \<and> is_parameter_name n \<and> (\<forall>v. pd_default d = Some v \<longrightarrow> typed_value d v) \<and>
     (if pd_secret d then pd_default d = None \<and> btree_get vals n = None
      else \<exists>v. btree_get vals n = Some v \<and> typed_value d v))"

lemma parameter_check [ok_simps]:
  "validate_parameter_definition vals nd = Ok u \<longleftrightarrow> parameter_ok vals nd"
proof (cases nd)
  case (Pair n d)
  have name: "ir_identifier n \<and> CHR ''.'' \<notin> set n \<longleftrightarrow> is_parameter_name n"
    using parameter_name_eq [of n] by (simp add: parameter_name_def)
  show ?thesis
  proof (cases "pd_secret d")
    case True
    then show ?thesis
      by (cases "pd_default d")
        (simp_all add: Pair validate_parameter_definition_def parameter_ok_def Let_def and_then_eq_Ok leaf_checks
          if_Err_eq_Ok btree_contains_def name [symmetric] conj_ac)
  next
    case False
    then show ?thesis
      by (cases "pd_default d")
        (auto simp: Pair validate_parameter_definition_def parameter_ok_def Let_def and_then_eq_Ok leaf_checks
          if_Err_eq_Ok typed_value_def name [symmetric])
  qed
qed

text \<open>A binding: the field exists and holds what the expression evaluates to.\<close>

definition binding_ok ::
  "parameter_definition btree_map \<Rightarrow> evaluated_value btree_map \<Rightarrow> string btree_map \<Rightarrow> expression_binding \<Rightarrow> bool" where
  "binding_ok params cxt mf b \<longleftrightarrow> ir_string (eb_path b) \<and> eb_path b \<noteq> [] \<and>
     valid_expr default_expression_limits (eb_expression b) \<and>
     (\<forall>n\<in>expr_params (eb_expression b). public_parameter params n) \<and>
     (\<exists>s r. btree_get mf (eb_path b) = Some s \<and> sem cxt default_expression_limits (eb_expression b) = Ok r \<and>
        ev_value r = PV_String s)"

lemma binding_check:
  "validate_binding params cxt mf i previous b = Ok r \<longleftrightarrow>
     binding_ok params cxt mf b \<and> (\<forall>q. previous = Some q \<longrightarrow> q < eb_path b) \<and> r = Some (eb_path b)"
proof -
  have prev: "\<not> (case previous of None \<Rightarrow> False | Some q \<Rightarrow> q \<ge> eb_path b) \<longleftrightarrow>
      (\<forall>q. previous = Some q \<longrightarrow> q < eb_path b)"
    by (cases previous) auto
  have value_case: "(case ev_value e of PV_String s \<Rightarrow> if s \<noteq> m then Err er else Ok (Some (eb_path b)) | _ \<Rightarrow> Err er') = Ok r
      \<longleftrightarrow> ev_value e = PV_String m \<and> r = Some (eb_path b)" for e m er er'
    by (cases "ev_value e") auto
  show ?thesis
    unfolding validate_binding_def Let_def and_then_eq_Ok leaf_checks if_Err_eq_Ok prev map_err_eq_Ok
      validate_expression_eq_Ok expression_parameters_check
    by (cases "btree_get mf (eb_path b)")
      (auto simp: binding_ok_def and_then_eq_Ok value_case evaluate_expression_Ok)
qed

lemma validate_bindings:
  "(\<exists>r. try_fold_index k (validate_binding params cxt mf) previous bs = Ok r) \<longleftrightarrow>
     (\<forall>b\<in>set bs. binding_ok params cxt mf b) \<and> sorted_wrt (<) (map eb_path bs) \<and>
     (\<forall>q. previous = Some q \<longrightarrow> (\<forall>b\<in>set bs. q < eb_path b))"
proof (induction bs arbitrary: k previous)
  case Nil
  then show ?case by simp
next
  case (Cons b bs)
  have "(\<exists>r. try_fold_index k (validate_binding params cxt mf) previous (b # bs) = Ok r) \<longleftrightarrow>
      binding_ok params cxt mf b \<and> (\<forall>q. previous = Some q \<longrightarrow> q < eb_path b) \<and>
      (\<exists>r. try_fold_index (Suc k) (validate_binding params cxt mf) (Some (eb_path b)) bs = Ok r)"
    by (auto simp: and_then_eq_Ok binding_check)
  also have "\<dots> \<longleftrightarrow> (\<forall>x\<in>set (b # bs). binding_ok params cxt mf x) \<and> sorted_wrt (<) (map eb_path (b # bs)) \<and>
     (\<forall>q. previous = Some q \<longrightarrow> (\<forall>x\<in>set (b # bs). q < eb_path x))"
    unfolding Cons.IH by (auto dest: less_trans)
  finally show ?case .
qed

section \<open>The pipeline\<close>

definition valid_parameters :: "pipeline_ir \<Rightarrow> bool" where
  "valid_parameters p \<longleftrightarrow> length (p_parameters p) \<le> MAX_PARAMETERS \<and>
     (\<forall>nd\<in>set (p_parameters p). parameter_ok (p_parameter_values p) nd) \<and>
     (\<forall>n\<in>fst ` set (p_parameter_values p). btree_get (p_parameters p) n \<noteq> None) \<and>
     length (p_expressions p) \<le> MAX_EXPRESSION_BINDINGS \<and> sorted_wrt (<) (map eb_path (p_expressions p)) \<and>
     (\<forall>b\<in>set (p_expressions p). binding_ok (p_parameters p) (public_context (p_parameter_values p))
        (expression_materialized_fields p) b)"

lemma parameters_check: "validate_parameters_and_expressions p = Ok u \<longleftrightarrow> valid_parameters p"
proof -
  have found: "find (\<lambda>name. \<not> btree_contains (p_parameters p) name) (map fst (p_parameter_values p)) = None \<longleftrightarrow>
      (\<forall>n\<in>fst ` set (p_parameter_values p). btree_get (p_parameters p) n \<noteq> None)"
    by (auto simp: find_None_iff btree_contains_def)
  have bindings: "(\<exists>r. try_fold_index 0 (validate_binding (p_parameters p) (public_context (p_parameter_values p))
        (expression_materialized_fields p)) None (p_expressions p) = Ok r) \<longleftrightarrow>
      (\<forall>b\<in>set (p_expressions p). binding_ok (p_parameters p) (public_context (p_parameter_values p))
        (expression_materialized_fields p) b) \<and> sorted_wrt (<) (map eb_path (p_expressions p))"
    by (simp add: validate_bindings)
  show ?thesis
    unfolding validate_parameters_and_expressions_def valid_parameters_def if_Err_eq_Ok and_then_eq_Ok
      for_each_eq_Ok parameter_check found [symmetric]
    by (cases "find (\<lambda>name. \<not> btree_contains (p_parameters p) name) (map fst (p_parameter_values p))")
      (use bindings in \<open>auto simp: and_then_eq_Ok not_less\<close>)
qed

definition valid_pipeline :: "externals \<Rightarrow> pipeline_ir \<Rightarrow> bool" where
  "valid_pipeline ext p \<longleftrightarrow>
     major (p_schema p) = 1 \<and> minor (p_schema p) \<le> 9 \<and>
     (minor (p_schema p) = 0 \<longrightarrow> p_parameters p = [] \<and> p_parameter_values p = [] \<and> p_expressions p = []) \<and>
     ir_identifier (p_name p) \<and> ir_string (p_name p) \<and> valid_parameters p \<and>
     p_stages p \<noteq> [] \<and> length (p_stages p) \<le> MAX_STAGES \<and>
     (p_notify p \<noteq> [] \<longrightarrow> 9 \<le> minor (p_schema p) \<and> validate_targets (p_notify p) = Ok ()) \<and>
     (\<forall>s\<in>set (p_stages p). stage_ok ext (minor (p_schema p)) s) \<and> distinct (map sg_id (p_stages p)) \<and>
     sum_list (map (length \<circ> sg_steps) (p_stages p)) \<le> MAX_STEPS"

lemma supported_schema_iff: "supported_schema v \<longleftrightarrow> major v = 1 \<and> minor v \<le> 9"
proof -
  have "minor v \<le> 9 \<longleftrightarrow> minor v \<in> {0, 1, 2, 3, 4, 5, 6, 7, 8, 9}"
  proof
    assume "minor v \<le> 9"
    then have "unat (minor v) \<le> 9" by (simp add: word_le_nat_alt)
    then have "unat (minor v) \<in> {0, 1, 2, 3, 4, 5, 6, 7, 8, 9}" by auto
    then have "word_of_nat (unat (minor v)) \<in> (word_of_nat ` {0, 1, 2, 3, 4, 5, 6, 7, 8, 9} :: u16 set)" by blast
    then show "minor v \<in> {0, 1, 2, 3, 4, 5, 6, 7, 8, 9}" by simp
  qed (auto simp: word_le_nat_alt)
  then show ?thesis by (cases v) (auto simp: supported_schema_def IR_V1_minor_def)
qed

lemma validate_pipeline_eq_Ok: "validate_pipeline ext p = Ok u \<longleftrightarrow> valid_pipeline ext p"
proof -
  have zero: "p_schema p = IR_V1_minor 0 \<longleftrightarrow> major (p_schema p) = 1 \<and> minor (p_schema p) = 0"
    by (cases "p_schema p") (simp add: IR_V1_minor_def)
  have notify: "(if p_notify p = [] then Ok () else if minor (p_schema p) < 9 then Err e
      else map_err f (validate_targets (p_notify p))) = Ok w \<longleftrightarrow>
    (p_notify p \<noteq> [] \<longrightarrow> 9 \<le> minor (p_schema p) \<and> validate_targets (p_notify p) = Ok ())" for e f w
    using not_less [of "minor (p_schema p)" 9] by auto
  have stages: "(\<exists>r. try_fold_index 0 (validate_stage ext (minor (p_schema p))) ({}, 0) (p_stages p) = Ok r) \<longleftrightarrow>
      (\<forall>s\<in>set (p_stages p). stage_ok ext (minor (p_schema p)) s) \<and> distinct (map sg_id (p_stages p)) \<and>
      sum_list (map (length \<circ> sg_steps) (p_stages p)) \<le> MAX_STEPS"
    using validate_stages [of 0 0 ext "minor (p_schema p)" "{}" "p_stages p"] by simp
  show ?thesis
    unfolding validate_pipeline_def valid_pipeline_def if_Err_eq_Ok and_then_eq_Ok leaf_checks parameters_check
      notify supported_schema_iff zero not_not
    using stages by (auto simp: not_less)
qed

section \<open>What an accepted pipeline guarantees\<close>

lemma btree_get_map:
  "btree_get (map (\<lambda>(n, v). (n, f v)) m) k = map_option f (btree_get m k)"
  by (induction m) (auto simp: btree_get_def)

lemma btree_insert_all_wf: "btree_wf m \<Longrightarrow> btree_insert_all [] m = m"
proof (induction m rule: rev_induct)
  case Nil
  then show ?case by simp
next
  case (snoc x m)
  obtain k v where x: "x = (k, v)" by (cases x)
  from snoc.prems x have m: "btree_wf m" "\<forall>j\<in>fst ` set m. j < k"
    by (auto simp: btree_wf_def sorted_wrt_append)
  with snoc.IH x show ?case
    by (simp add: btree_insert_all_append btree_insert_last)
qed

lemma public_context_wf:
  "btree_wf vals \<Longrightarrow> public_context vals = map (\<lambda>(n, v). (n, \<lparr>ev_value = v, ev_secret = False\<rparr>)) vals"
  unfolding public_context_def
  by (rule btree_insert_all_wf) (auto simp: btree_wf_def case_prod_unfold comp_def)

lemma get_public_context:
  "btree_wf vals \<Longrightarrow>
    btree_get (public_context vals) n = map_option (\<lambda>v. \<lparr>ev_value = v, ev_secret = False\<rparr>) (btree_get vals n)"
  by (simp add: public_context_wf btree_get_map)

lemma sem_not_secret:
  "(\<And>n v. btree_get cxt n = Some v \<Longrightarrow> \<not> ev_secret v) \<Longrightarrow> sem cxt lim e = Ok r \<Longrightarrow> \<not> ev_secret r"
proof (induction e arbitrary: r)
  case (E_Parameter n)
  then show ?case by (auto simp: evaluate_parameter_Ok)
qed (auto simp: ok_simps dest!: apply_secret)

text \<open>
  C1. Validation as a specification: \<open>validate_pipeline\<close>, with its ordered checks, its set of seen
  stage identifiers and its running step count, accepts exactly the pipelines that satisfy
  \<open>valid_pipeline\<close>: supported schema, every feature at its minimum version, well-formed and distinct
  stage identifiers, bounded sizes, parameters with a typed value exactly when public, and every
  expression binding equal to the field it names.
\<close>

theorem validate_pipeline_accepts: "validate_pipeline ext p = Ok () \<longleftrightarrow> valid_pipeline ext p"
  by (rule validate_pipeline_eq_Ok)

lemma valid_parameters_public:
  assumes p: "valid_parameters p" and wf: "btree_wf (p_parameters p)" "btree_wf (p_parameter_values p)"
  shows "btree_get (p_parameter_values p) n \<noteq> None \<longleftrightarrow> public_parameter (p_parameters p) n"
proof
  assume n: "btree_get (p_parameter_values p) n \<noteq> None"
  then have "n \<in> fst ` set (p_parameter_values p)"
    using bt.contains_iff_key [OF wf(2)] by auto
  with p obtain d where d: "btree_get (p_parameters p) n = Some d" by (auto simp: valid_parameters_def)
  then have "parameter_ok (p_parameter_values p) (n, d)"
    using p bt.get_iff_entry [OF wf(1)] by (auto simp: valid_parameters_def)
  with n d show "public_parameter (p_parameters p) n"
    by (auto simp: parameter_ok_def public_parameter_def split: if_splits)
next
  assume "public_parameter (p_parameters p) n"
  then obtain d where "(n, d) \<in> set (p_parameters p)" "\<not> pd_secret d"
    using bt.get_iff_entry [OF wf(1)] by (auto simp: public_parameter_def)
  with p show "btree_get (p_parameter_values p) n \<noteq> None"
    by (force simp: valid_parameters_def parameter_ok_def)
qed

text \<open>
  C2. Secrets stay out of an accepted pipeline: values are stored exactly for the public parameters,
  and every field that an expression supplies equals the value of that expression in any context
  that extends the public values, whatever it holds for the secret parameters, and that value is not secret.
\<close>

theorem validated_pipeline_public:
  assumes valid: "validate_pipeline ext p = Ok ()"
    and wf: "btree_wf (p_parameters p)" "btree_wf (p_parameter_values p)"
    and cxt: "\<And>n v. btree_get (p_parameter_values p) n = Some v \<Longrightarrow>
      btree_get cxt n = Some \<lparr>ev_value = v, ev_secret = False\<rparr>"
  shows "(\<forall>n. btree_get (p_parameter_values p) n \<noteq> None \<longleftrightarrow> public_parameter (p_parameters p) n) \<and>
    (\<forall>b\<in>set (p_expressions p). \<exists>s. btree_get (expression_materialized_fields p) (eb_path b) = Some s \<and>
      evaluate_expression (eb_expression b) cxt default_expression_limits = Ok \<lparr>ev_value = PV_String s, ev_secret = False\<rparr>)"
proof -
  from valid have p: "valid_parameters p" by (simp add: validate_pipeline_eq_Ok valid_pipeline_def)
  have "\<exists>s. btree_get (expression_materialized_fields p) (eb_path b) = Some s \<and>
      evaluate_expression (eb_expression b) cxt default_expression_limits = Ok \<lparr>ev_value = PV_String s, ev_secret = False\<rparr>"
    if "b \<in> set (p_expressions p)" for b
  proof -
    from that p obtain s r where b: "valid_expr default_expression_limits (eb_expression b)"
        "btree_get (expression_materialized_fields p) (eb_path b) = Some s"
        "sem (public_context (p_parameter_values p)) default_expression_limits (eb_expression b) = Ok r"
        "ev_value r = PV_String s"
      by (auto simp: valid_parameters_def binding_ok_def)
    moreover from b(3) have "\<not> ev_secret r"
      by (rule sem_not_secret [rotated]) (auto simp: get_public_context wf)
    moreover have "public_eq (public_context (p_parameter_values p)) cxt"
      using cxt by (auto simp: public_eq_def get_public_context wf)
    ultimately show ?thesis
      by (intro exI [of _ s]) (auto simp: evaluate_expression_Ok intro: sem_public)
  qed
  with valid_parameters_public [OF p wf] show ?thesis by blast
qed

text \<open>A pipeline with a public and a secret parameter, whose program is an expression.\<close>

definition sample_process :: "string \<Rightarrow> process_step" where
  "sample_process program = \<lparr>pr_mode = Direct, pr_program = program, pr_args = [''-x''], pr_env = [(''E'', ''1'')],
     pr_timeout_seconds = Some 5, pr_source_span = default_span\<rparr>"

definition sample_stage :: "string \<Rightarrow> stage" where
  "sample_stage program = \<lparr>sg_id = ''s'', sg_name = ''S'', sg_image = None, sg_steps = [Process (sample_process program)],
     sg_artifacts = [], sg_source_span = default_span\<rparr>"

definition sample_parameters :: "parameter_definition btree_map" where
  "sample_parameters = [(''k'', \<lparr>pd_type = PT_String, pd_default = None, pd_secret = True\<rparr>),
     (''v'', \<lparr>pd_type = PT_String, pd_default = Some (PV_String ''a''), pd_secret = False\<rparr>)]"

definition sample_pipeline :: "string \<Rightarrow> pipeline_ir" where
  "sample_pipeline v = \<lparr>p_schema = IR_V1_minor 1, p_name = ''p'', p_parameters = sample_parameters,
     p_parameter_values = [(''v'', PV_String v)],
     p_expressions = [\<lparr>eb_path = ''$.stages[0].steps[0].process.program'', eb_expression = E_Parameter ''v''\<rparr>],
     p_stages = [sample_stage v], p_notify = [],
     p_provenance = \<lparr>source_id = ''src'', source_sha256 = [], prov_compiler = \<lparr>compiler_name = [], compiler_version = []\<rparr>\<rparr>,
     p_source_span = default_span\<rparr>"

lemma trim_single:
  "length c = 1 \<Longrightarrow> is_ascii c \<Longrightarrow> \<not> is_whitespace c \<Longrightarrow> trim c = c"
  by (cases c) (auto simp: trim_def trim_chars_def is_ascii_def chars_Cons_ascii)

lemma show_nat_0: "show_nat 0 = ''0''"
  by code_simp

lemma sample_fields:
  "expression_materialized_fields (sample_pipeline v) =
     btree_insert_all [] [(''$.stages[0].steps[0].process.program'', v),
       (''$.stages[0].steps[0].process.args[0]'', ''-x''), (''$.stages[0].steps[0].process.env.E'', ''1'')]"
  by (simp add: expression_materialized_fields_def sample_pipeline_def sample_stage_def sample_process_def
      stage_fields_def step_fields_def program_path_def argument_path_def environment_path_def step_path_def
      stage_path_def show_nat_0)

lemma sample_stage_ok: "stage_ok ext 1 (sample_stage ''b'')"
  by (simp add: stage_ok_def sample_stage_def sample_process_def ir_identifier_def is_ir_byte_def ir_string_def
      is_single_step_def is_checkout_def stage_image_ok_def step_ok_def process_ok_def trim_single is_ascii_def
      is_whitespace_def ascii_defs)

lemma sample_expression_ok:
  "valid_expr default_expression_limits (E_Parameter ''v'')"
  by (simp add: valid_expr_def default_expression_limits_def saturating_add_def usize_max_def is_parameter_name_def
      is_parameter_byte_def ascii_defs)

lemma default_string_limit: "max_string_bytes default_expression_limits = 4096"
  by (simp add: default_expression_limits_def)

lemma sample_parameters_ok: "valid_parameters (sample_pipeline ''b'')"
  unfolding valid_parameters_def binding_ok_def sample_fields
  by (simp add: sample_pipeline_def sample_parameters_def parameter_ok_def btree_get_def typed_value_def accepts_def
      bounded_value_def default_string_limit ir_string_def is_parameter_name_def is_parameter_byte_def ascii_defs
      public_parameter_def public_context_def evaluate_parameter_def map_of_btree_insert sample_expression_ok)

lemma sample_pipeline_valid: "validate_pipeline sample_externals (sample_pipeline ''b'') = Ok ()"
  using sample_parameters_ok sample_stage_ok
  by (simp add: validate_pipeline_eq_Ok valid_pipeline_def sample_pipeline_def IR_V1_minor_def ir_identifier_def
      is_ir_byte_def ir_string_def ascii_defs) (simp add: sample_stage_def)

theorem validated_pipeline_public_witness:
  "\<exists>s. btree_get (expression_materialized_fields (sample_pipeline ''b'')) ''$.stages[0].steps[0].process.program'' = Some s \<and>
     evaluate_expression (E_Parameter ''v'') [(''v'', \<lparr>ev_value = PV_String ''b'', ev_secret = False\<rparr>)]
       default_expression_limits = Ok \<lparr>ev_value = PV_String s, ev_secret = False\<rparr>"
proof -
  let ?cxt = "[(''v'', \<lparr>ev_value = PV_String ''b'', ev_secret = False\<rparr>)]"
  have p: "p_parameters (sample_pipeline v) = sample_parameters"
    "p_parameter_values (sample_pipeline v) = [(''v'', PV_String v)]"
    "p_expressions (sample_pipeline v) =
      [\<lparr>eb_path = ''$.stages[0].steps[0].process.program'', eb_expression = E_Parameter ''v''\<rparr>]" for v
    by (simp_all add: sample_pipeline_def)
  have "btree_get (p_parameter_values (sample_pipeline ''b'')) n = Some v \<Longrightarrow>
      btree_get ?cxt n = Some \<lparr>ev_value = v, ev_secret = False\<rparr>" for n v
    by (simp add: p btree_get_def split: if_splits)
  then show ?thesis
    using validated_pipeline_public [of sample_externals "sample_pipeline ''b''" ?cxt, OF sample_pipeline_valid]
    by (simp add: p sample_parameters_def btree_wf_def)
qed

end
