(* ===== verification/Canonical_Codec.thy ===== *)
theory Canonical_Codec
  imports Canonical Model_Validation
begin

text \<open>
  The writer and the reader as inverse to each other. The contract of a pair of a writer and a
  reading is the locale \<open>codec\<close>; every codec is a prefix code. The interpretations discharge it for the
  machine integers, strings, markers, parameter types and values.
\<close>

section \<open>The contract\<close>

definition reader_at :: "byte list \<Rightarrow> byte list \<Rightarrow> reader" where
  "reader_at pre post = \<lparr>rd_bytes = pre @ post, rd_offset = length pre\<rparr>"

locale codec =
  fixes put :: "'a \<Rightarrow> byte list" and get :: "'a reading" and fits :: "'a \<Rightarrow> bool"
  assumes reads: "fits x \<Longrightarrow> get (reader_at pre (put x @ post)) = Ok (x, reader_at (pre @ put x) post)"
begin

lemma prefix_free: "fits x \<Longrightarrow> fits y \<Longrightarrow> put x @ r = put y @ s \<Longrightarrow> x = y \<and> r = s"
  using reads [of x "[]" r] reads [of y "[]" s] by (auto simp: reader_at_def)

lemma reads_last: "fits x \<Longrightarrow> get (reader_at pre (put x)) = Ok (x, reader_at (pre @ put x) [])"
  using reads [of x pre "[]"] by simp

text \<open>A count and that many values, read by a loop that appends to a vector.\<close>

lemma reads_list:
  "list_all fits xs \<Longrightarrow>
    repeat_index i (length xs) (\<lambda>_ (ys, rd). and_then (get rd) (\<lambda>(y, rd). Ok (ys @ [y], rd)))
      (ys, reader_at pre (concat (map put xs) @ post)) = Ok (ys @ xs, reader_at (pre @ concat (map put xs)) post)"
  by (induction xs arbitrary: i ys pre) (simp_all add: reads)

end

sublocale codec \<subseteq> prefix_code put fits
  by unfold_locales (rule prefix_free)

section \<open>Integers and strings\<close>

lemma take_bytes_reads: "length bs = n \<Longrightarrow> take_bytes n (reader_at pre (bs @ post)) = Ok (bs, reader_at (pre @ bs) post)"
  by (auto simp: take_bytes_def reader_at_def)

lemma get_u8_reads [simp]: "get_u8 (reader_at pre (b # post)) = Ok (b, reader_at (pre @ [b]) post)"
  using take_bytes_reads [of "[b]" 1 pre post] by (simp add: get_u8_def)

interpretation u16_codec: codec be_u16 get_u16 "\<lambda>_. True"
  by unfold_locales (simp add: get_u16_def take_bytes_reads)

interpretation u64_codec: codec be_u64 get_u64 "\<lambda>_. True"
  by unfold_locales (simp add: get_u64_def take_bytes_reads)

lemma get_count_reads:
  "n \<le> m \<Longrightarrow> m < 2 ^ 32 \<Longrightarrow> get_count m d (reader_at pre (put_u32 n @ post)) = Ok (n, reader_at (pre @ put_u32 n) post)"
proof -
  assume "n \<le> m" "m < 2 ^ 32"
  then have "unat (word_of_nat n :: u32) = n" by (simp add: unat_of_nat)
  with \<open>n \<le> m\<close> show ?thesis
    by (simp add: get_count_def get_u32_def put_u32_def take_bytes_reads)
qed

definition rust_string :: "string \<Rightarrow> bool" where
  "rust_string s \<longleftrightarrow> is_utf8 s \<and> ir_string s"

interpretation string_codec: codec put_string get_string rust_string
proof
  fix s pre post assume s: "rust_string s"
  then have "get_count MAX_IR_STRING_BYTES ''string byte'' (reader_at pre (put_u32 (length s) @ as_bytes s @ post)) =
      Ok (length s, reader_at (pre @ put_u32 (length s)) (as_bytes s @ post))"
    by (intro get_count_reads) (auto simp: rust_string_def ir_string_def)
  with s show "get_string (reader_at pre (put_string s @ post)) = Ok (s, reader_at (pre @ put_string s) post)"
    by (simp add: get_string_def put_string_def take_bytes_reads rust_string_def)
qed

lemma get_string_after_reads:
  "rust_string s \<Longrightarrow> (\<And>q. previous = Some q \<Longrightarrow> q < s) \<Longrightarrow>
    get_string_after previous d (reader_at pre (put_string s @ post)) = Ok (s, reader_at (pre @ put_string s) post)"
  by (cases previous) (auto simp: get_string_after_def string_codec.reads dest: leD)

section \<open>Markers, types, values\<close>

interpretation flag_codec: codec put_flag "get_bool_marker d" "\<lambda>_. True" for d
  by unfold_locales (simp add: put_flag_def get_bool_marker_def)

interpretation type_codec: codec put_parameter_type get_parameter_type "\<lambda>_. True"
  by unfold_locales (auto simp: put_parameter_type_def get_parameter_type_def split: parameter_type.split)

definition rust_value :: "parameter_value \<Rightarrow> bool" where
  "rust_value v \<longleftrightarrow> bounded_value default_expression_limits v \<and> (case v of PV_String s \<Rightarrow> is_utf8 s | _ \<Rightarrow> True)"

interpretation value_codec: codec put_parameter_value get_parameter_value rust_value
proof
  fix v pre post assume v: "rust_value v"
  show "get_parameter_value (reader_at pre (put_parameter_value v @ post)) =
      Ok (v, reader_at (pre @ put_parameter_value v) post)"
  proof (cases v)
    case (PV_String s)
    with v have "rust_string s" "length s \<le> max_string_bytes default_expression_limits"
      by (auto simp: rust_value_def rust_string_def ir_string_def bounded_value_def default_string_limit)
    with PV_String show ?thesis
      by (simp add: put_parameter_value_def get_parameter_value_def string_codec.reads)
  qed (simp_all add: put_parameter_value_def get_parameter_value_def flag_codec.reads u64_codec.reads)
qed

lemma codec_option:
  assumes "codec put get fits"
  shows "codec (put_option put) (get_option back message get) (\<lambda>v. \<forall>x. v = Some x \<longrightarrow> fits x)"
proof
  fix v pre post assume "\<forall>x. v = Some x \<longrightarrow> fits x"
  with codec.reads [OF assms] show "get_option back message get (reader_at pre (put_option put v @ post)) =
      Ok (v, reader_at (pre @ put_option put v) post)"
    by (cases v) (simp_all add: put_option_def get_option_def)
qed

interpretation value_option_codec: codec "put_option put_parameter_value" "get_option n message get_parameter_value"
    "\<lambda>v. \<forall>x. v = Some x \<longrightarrow> rust_value x" for n message
  by (rule codec_option) (rule value_codec.codec_axioms)

interpretation string_option_codec: codec "put_option put_string" "get_option n message get_string"
    "\<lambda>v. \<forall>x. v = Some x \<longrightarrow> rust_string x" for n message
  by (rule codec_option) (rule string_codec.codec_axioms)

interpretation u64_option_codec: codec "put_option be_u64" "get_option n message get_u64"
    "\<lambda>v. \<forall>x. v = Some x \<longrightarrow> True" for n message
  by (rule codec_option) (rule u64_codec.codec_axioms)

lemmas reads_simps = u16_codec.reads u64_codec.reads string_codec.reads flag_codec.reads type_codec.reads
  value_codec.reads value_option_codec.reads string_option_codec.reads u64_option_codec.reads get_count_reads

section \<open>Expressions\<close>

primrec rust_expression :: "expression \<Rightarrow> bool" where
  "rust_expression (E_Literal v) \<longleftrightarrow> rust_value v"
| "rust_expression (E_Parameter n) \<longleftrightarrow> rust_string n"
| "rust_expression (E_Not e) \<longleftrightarrow> rust_expression e"
| "rust_expression (E_Equal l r) \<longleftrightarrow> rust_expression l \<and> rust_expression r"
| "rust_expression (E_NotEqual l r) \<longleftrightarrow> rust_expression l \<and> rust_expression r"
| "rust_expression (E_And l r) \<longleftrightarrow> rust_expression l \<and> rust_expression r"
| "rust_expression (E_Or l r) \<longleftrightarrow> rust_expression l \<and> rust_expression r"
| "rust_expression (E_Add l r) \<longleftrightarrow> rust_expression l \<and> rust_expression r"

definition counted_expression :: "expression \<Rightarrow> expression_counts \<Rightarrow> expression_counts" where
  "counted_expression e c = \<lparr>xc_nodes = xc_nodes c + expr_nodes e, xc_operations = xc_operations c + expr_ops e,
     xc_references = xc_references c \<union> expr_params e\<rparr>"

definition fits_expression :: "nat \<Rightarrow> expression_counts \<Rightarrow> expression \<Rightarrow> bool" where
  "fits_expression depth c e \<longleftrightarrow> depth + expr_height e \<le> max_depth default_expression_limits \<and>
     xc_nodes c + expr_nodes e \<le> max_nodes default_expression_limits \<and>
     xc_operations c + expr_ops e \<le> max_operations default_expression_limits \<and> rust_expression e"

lemma default_limits:
  "max_depth default_expression_limits = 16" "max_nodes default_expression_limits = 128"
  "max_operations default_expression_limits = 128"
  by (simp_all add: default_expression_limits_def)

lemma expr_nodes_positive: "1 \<le> expr_nodes e"
  by (cases e) simp_all

lemma small_saturating_add: "a + b \<le> 128 \<Longrightarrow> saturating_add a b = a + b"
  by (simp add: saturating_add_def usize_max_def)

definition reads_expression :: "expression \<Rightarrow> bool" where
  "reads_expression e \<longleftrightarrow> (\<forall>depth c pre post. fits_expression depth c e \<longrightarrow>
     get_expression depth c (reader_at pre (put_expression e @ post)) =
       Ok (e, counted_expression e c, reader_at (pre @ put_expression e) post))"

lemma reads_operands:
  assumes "reads_expression l" and "reads_expression r" and "binary_opcode b = Some build" and "b \<notin> {1, 2, 3}"
    and "expr_height (build l r) = Suc (max (expr_height l) (expr_height r))"
    and "expr_nodes (build l r) = Suc (expr_nodes l + expr_nodes r)"
    and "expr_ops (build l r) = Suc (expr_ops l + expr_ops r)"
    and "expr_params (build l r) = expr_params l \<union> expr_params r"
    and "put_expression (build l r) = [b] @ put_expression l @ put_expression r"
    and "rust_expression (build l r) \<longleftrightarrow> rust_expression l \<and> rust_expression r"
  shows "reads_expression (build l r)"
  unfolding reads_expression_def
proof (intro allI impI)
  fix depth c pre post assume f: "fits_expression depth c (build l r)"
  define c0 where "c0 = count_operation (c\<lparr>xc_nodes := saturating_add (xc_nodes c) 1\<rparr>)"
  have c0: "xc_nodes c0 = xc_nodes c + 1" "xc_operations c0 = xc_operations c + 1" "xc_references c0 = xc_references c"
    using f by (simp_all add: c0_def count_operation_def small_saturating_add fits_expression_def assms default_limits)
  define c1 where "c1 = counted_expression l c0"
  have "fits_expression (depth + 1) c0 l" "fits_expression (depth + 1) c1 r"
    using f by (auto simp: fits_expression_def assms c1_def counted_expression_def c0 default_limits)
  with assms(1,2) have lr: "get_expression (depth + 1) c0 (reader_at pre' (put_expression l @ post')) =
        Ok (l, c1, reader_at (pre' @ put_expression l) post')"
      "get_expression (depth + 1) c1 (reader_at pre' (put_expression r @ post')) =
        Ok (r, counted_expression r c1, reader_at (pre' @ put_expression r) post')" for pre' post'
    by (simp_all add: reads_expression_def c1_def)
  have fin: "counted_expression r c1 = counted_expression (build l r) c"
    by (simp add: counted_expression_def c1_def c0 assms Un_assoc)
  have lim: "\<not> depth > 16" "\<not> xc_nodes c > 127" "\<not> xc_operations (counted_expression (build l r) c) > 128"
    using f by (simp_all add: fits_expression_def assms counted_expression_def default_limits)
  then have step: "count_operation (c\<lparr>xc_nodes := Suc (xc_nodes c)\<rparr>) = c0"
    by (simp add: c0_def small_saturating_add)
  from lim step assms(3,4,9) lr show "get_expression depth c (reader_at pre (put_expression (build l r) @ post)) =
      Ok (build l r, counted_expression (build l r) c, reader_at (pre @ put_expression (build l r)) post)"
    by (subst get_expression.simps)
      (simp add: Let_def check_operations_def fin default_limits small_saturating_add)
qed

lemma reads_leaf:
  assumes "fits_expression depth c e" and "expr_height e = 0" and "expr_nodes e = 1" and "expr_ops e = 0"
    and "put_expression e = [b] @ bs"
    and "\<And>c' pre. (if b = 1 then and_then (get_parameter_value (reader_at pre (bs @ post))) (\<lambda>(v, rd). check_operations (E_Literal v) c' rd)
      else and_then (get_string (reader_at pre (bs @ post))) (\<lambda>(n, rd).
        check_operations (E_Parameter n) (c'\<lparr>xc_references := insert n (xc_references c')\<rparr>) rd)) =
      check_operations e (c'\<lparr>xc_references := xc_references c' \<union> expr_params e\<rparr>) (reader_at (pre @ bs) post)"
    and "b = 1 \<or> b = 2"
  shows "get_expression depth c (reader_at pre (put_expression e @ post)) =
    Ok (e, counted_expression e c, reader_at (pre @ put_expression e) post)"
proof -
  have lim: "\<not> depth > 16" "xc_nodes c + 1 \<le> 128" "xc_operations c \<le> 128"
    using assms(1) by (simp_all add: fits_expression_def assms default_limits)
  have c: "(c\<lparr>xc_nodes := saturating_add (xc_nodes c) 1\<rparr>)\<lparr>xc_references := xc_references c \<union> expr_params e\<rparr> =
      counted_expression e c"
    using lim by (simp add: counted_expression_def small_saturating_add assms)
  show ?thesis
    using assms(6) [of "pre @ [b]" "c\<lparr>xc_nodes := saturating_add (xc_nodes c) 1\<rparr>"] assms(7) lim c
    by (subst get_expression.simps)
      (auto simp: assms(5) Let_def small_saturating_add default_limits check_operations_def counted_expression_def assms(4))
qed

lemma get_expression_reads: "reads_expression e"
proof (induction e)
  case (E_Literal v)
  show ?case unfolding reads_expression_def
  proof (intro allI impI)
    fix depth c pre post assume f: "fits_expression depth c (E_Literal v)"
    then have v: "rust_value v" by (simp add: fits_expression_def)
    show "get_expression depth c (reader_at pre (put_expression (E_Literal v) @ post)) =
        Ok (E_Literal v, counted_expression (E_Literal v) c, reader_at (pre @ put_expression (E_Literal v)) post)"
      by (rule reads_leaf [OF f, where b = 1 and bs = "put_parameter_value v"]) (simp_all add: v value_codec.reads)
  qed
next
  case (E_Parameter n)
  show ?case unfolding reads_expression_def
  proof (intro allI impI)
    fix depth c pre post assume f: "fits_expression depth c (E_Parameter n)"
    then have n: "rust_string n" by (simp add: fits_expression_def)
    show "get_expression depth c (reader_at pre (put_expression (E_Parameter n) @ post)) =
        Ok (E_Parameter n, counted_expression (E_Parameter n) c, reader_at (pre @ put_expression (E_Parameter n)) post)"
      by (rule reads_leaf [OF f, where b = 2 and bs = "put_string n"]) (simp_all add: n string_codec.reads)
  qed
next
  case (E_Not e)
  show ?case unfolding reads_expression_def
  proof (intro allI impI)
    fix depth c pre post assume f: "fits_expression depth c (E_Not e)"
    define c0 where "c0 = count_operation (c\<lparr>xc_nodes := saturating_add (xc_nodes c) 1\<rparr>)"
    have c0: "xc_nodes c0 = xc_nodes c + 1" "xc_operations c0 = xc_operations c + 1" "xc_references c0 = xc_references c"
      using f by (simp_all add: c0_def count_operation_def small_saturating_add fits_expression_def default_limits)
    have "fits_expression (depth + 1) c0 e" using f by (simp add: fits_expression_def c0 default_limits)
    with E_Not have e: "get_expression (depth + 1) c0 (reader_at pre' (put_expression e @ post')) =
        Ok (e, counted_expression e c0, reader_at (pre' @ put_expression e) post')" for pre' post'
      by (simp add: reads_expression_def)
    have fin: "counted_expression e c0 = counted_expression (E_Not e) c"
      by (simp add: counted_expression_def c0)
    have lim: "\<not> depth > 16" "\<not> xc_nodes c > 127" "\<not> xc_operations (counted_expression (E_Not e) c) > 128"
      using f by (simp_all add: fits_expression_def counted_expression_def default_limits)
    then have step: "count_operation (c\<lparr>xc_nodes := Suc (xc_nodes c)\<rparr>) = c0"
      by (simp add: c0_def small_saturating_add)
    from lim step e show "get_expression depth c (reader_at pre (put_expression (E_Not e) @ post)) =
        Ok (E_Not e, counted_expression (E_Not e) c, reader_at (pre @ put_expression (E_Not e)) post)"
      by (subst get_expression.simps)
        (simp add: Let_def check_operations_def fin default_limits small_saturating_add)
  qed
qed (rule reads_operands; simp add: binary_opcode_def)+

lemma valid_expression_fits:
  assumes "valid_expr default_expression_limits e" and "rust_expression e"
  shows "fits_expression 0 \<lparr>xc_nodes = 0, xc_operations = 0, xc_references = {}\<rparr> e"
  using assms by (simp add: valid_expr_def fits_expression_def saturating_add_def usize_max_def default_limits min_def
      split: if_splits)

end
