(* ===== verification/Instantiate.thy ===== *)
theory Instantiate
  imports Model_Validation
begin

text \<open>
  Binding parameters and instantiating templates: the paths of the fields are unambiguous, the loop
  that removes resolved values one by one is a substitution, instantiating a pipeline with its own
  values gives it back, and secret inputs have no influence.
\<close>

section \<open>Paths\<close>

lemma show_nat_then:
  assumes "\<not> is_ascii_digit c" and "\<not> is_ascii_digit d"
  shows "show_nat i @ c # r = show_nat j @ d # s \<longleftrightarrow> i = j \<and> c = d \<and> r = s"
proof
  assume eq: "show_nat i @ c # r = show_nat j @ d # s"
  have digits: "takeWhile is_ascii_digit (show_nat k @ e # t) = show_nat k" if "\<not> is_ascii_digit e" for k e t
    using that by (simp add: takeWhile_append2 show_nat_digits)
  from digits [OF assms(1), of i r] digits [OF assms(2), of j s] eq have "show_nat i = show_nat j" by simp
  then have "i = j" using show_nat_inject by blast
  with eq show "i = j \<and> c = d \<and> r = s" by simp
qed simp

lemma bracket_not_digit [simp]: "\<not> is_ascii_digit (CHR '']'')"
  by (simp add: is_ascii_digit_def)

lemma step_path_inject: "step_path i j @ x = step_path k l @ y \<longleftrightarrow> i = k \<and> j = l \<and> x = y"
  by (auto simp: step_path_def stage_path_def show_nat_then)

lemma notify_path_inject: "notify_commit_path i = notify_commit_path j \<longleftrightarrow> i = j"
  by (auto simp: notify_commit_path_def show_nat_then)

lemma field_path_inject:
  "argument_path base k = argument_path base l \<longleftrightarrow> k = l"
  "environment_path base m = environment_path base n \<longleftrightarrow> m = n"
  "program_path base \<noteq> argument_path base k" "program_path base \<noteq> environment_path base n"
  "argument_path base k \<noteq> environment_path base n"
  by (auto simp: argument_path_def environment_path_def program_path_def show_nat_then)

lemma step_fields_prefix: "e \<in> fst ` set (step_fields base s) \<Longrightarrow> \<exists>x. e = base @ x"
  by (auto simp: step_fields_def program_path_def argument_path_def environment_path_def commit_path_def
      split: step.splits)

definition process_maps_wf :: "step \<Rightarrow> bool" where
  "process_maps_wf s = (case s of Process p \<Rightarrow> btree_wf (pr_env p) | _ \<Rightarrow> True)"

lemma distinct_step_fields: "process_maps_wf s \<Longrightarrow> distinct (map fst (step_fields base s))"
proof (cases s)
  case (Process p)
  assume "process_maps_wf s"
  with Process have "distinct (map fst (pr_env p))"
    by (simp add: process_maps_wf_def btree_wf_def strict_sorted_iff)
  then have "distinct (map (environment_path base \<circ> fst) (pr_env p))"
    by (subst map_map [symmetric]) (simp add: distinct_map inj_on_def field_path_inject)
  moreover have "distinct (map (argument_path base \<circ> fst) (enumerate 0 (pr_args p)))"
    by (subst map_map [symmetric]) (simp add: distinct_map inj_on_def field_path_inject)
  ultimately show ?thesis
    using Process by (auto simp: step_fields_def comp_def case_prod_unfold field_path_inject
        field_path_inject [symmetric])
qed (auto simp: step_fields_def)

text \<open>Lists built from the elements of a list and their indices.\<close>

definition indexed :: "nat \<Rightarrow> (nat \<Rightarrow> 'a \<Rightarrow> 'b list) \<Rightarrow> 'a list \<Rightarrow> 'b list" where
  "indexed n f xs = concat (map (\<lambda>(k, x). f k x) (enumerate n xs))"

lemma indexed_simps [simp]:
  "indexed n f [] = []"
  "indexed n f (x # xs) = f n x @ indexed (Suc n) f xs"
  by (simp_all add: indexed_def)

lemma in_indexed: "e \<in> set (indexed n f xs) \<Longrightarrow> \<exists>k x. n \<le> k \<and> x \<in> set xs \<and> e \<in> set (f k x)"
proof (induction xs arbitrary: n)
  case (Cons x xs)
  then consider "e \<in> set (f n x)" | "e \<in> set (indexed (Suc n) f xs)" by auto
  then show ?case
  proof cases
    case 1
    then show ?thesis by (intro exI [of _ n] exI [of _ x]) simp
  next
    case 2
    from Cons.IH [OF this] show ?thesis by (meson Suc_leD list.set_intros(2))
  qed
qed simp

lemma distinct_indexed:
  assumes "\<And>k x. x \<in> set xs \<Longrightarrow> distinct (f k x)" and "\<And>k l x y. k \<noteq> l \<Longrightarrow> set (f k x) \<inter> set (f l y) = {}"
  shows "distinct (indexed n f xs)"
  using assms(1)
proof (induction xs arbitrary: n)
  case (Cons x xs)
  have "e \<notin> set (indexed (Suc n) f xs)" if "e \<in> set (f n x)" for e
  proof
    assume "e \<in> set (indexed (Suc n) f xs)"
    then obtain k y where "Suc n \<le> k" "e \<in> set (f k y)" by (blast dest: in_indexed)
    with that assms(2) [of n k x y] show False by auto
  qed
  with Cons show ?case by auto
qed simp

lemma map_indexed: "map g (indexed n f xs) = indexed n (\<lambda>k x. map g (f k x)) xs"
  by (induction xs arbitrary: n) simp_all

definition pipeline_fields :: "pipeline_ir \<Rightarrow> (string \<times> string) list" where
  "pipeline_fields p = indexed 0 stage_fields (p_stages p) @ indexed 0 notify_fields (p_notify p)"

lemma stage_fields_indexed: "stage_fields i s = indexed 0 (\<lambda>j. step_fields (step_path i j)) (sg_steps s)"
  by (simp add: stage_fields_def indexed_def)

lemma materialized_fields_eq: "expression_materialized_fields p = btree_insert_all [] (pipeline_fields p)"
  by (simp add: expression_materialized_fields_def pipeline_fields_def indexed_def)

definition stage_maps_wf :: "stage \<Rightarrow> bool" where
  "stage_maps_wf s \<longleftrightarrow> (\<forall>st\<in>set (sg_steps s). process_maps_wf st)"

lemma stage_field_path:
  "e \<in> set (map fst (stage_fields i s)) \<Longrightarrow> \<exists>j x. e = step_path i j @ x"
  unfolding stage_fields_indexed map_indexed by (fastforce dest!: in_indexed step_fields_prefix)

lemma distinct_stage_fields: "stage_maps_wf s \<Longrightarrow> distinct (map fst (stage_fields i s))"
  unfolding stage_fields_indexed map_indexed
proof (rule distinct_indexed)
  fix k l x y assume "k \<noteq> (l::nat)"
  then show "set (map fst (step_fields (step_path i k) x)) \<inter> set (map fst (step_fields (step_path i l) y)) = {}"
    by (auto dest!: step_fields_prefix [OF imageI, simplified] simp: step_path_inject)
qed (simp add: stage_maps_wf_def distinct_step_fields)

lemma distinct_pipeline_fields:
  assumes "\<forall>s\<in>set (p_stages p). stage_maps_wf s"
  shows "distinct (map fst (pipeline_fields p))"
proof -
  have "set (map fst (stage_fields k x)) \<inter> set (map fst (stage_fields l y)) = {}" if "k \<noteq> l" for k l x y
  proof -
    have False if "e \<in> set (map fst (stage_fields k x))" "e \<in> set (map fst (stage_fields l y))" for e
      using stage_field_path [OF that(1)] stage_field_path [OF that(2)] \<open>k \<noteq> l\<close> by (auto simp: step_path_inject)
    then show ?thesis by blast
  qed
  then have stages: "distinct (map fst (indexed 0 stage_fields (p_stages p)))"
    using assms unfolding map_indexed by (intro distinct_indexed distinct_stage_fields) auto
  have notify: "distinct (map fst (indexed 0 notify_fields (p_notify p)))"
    unfolding map_indexed
    by (rule distinct_indexed) (auto simp: notify_fields_def notify_path_inject split: notify_target.splits)
  have "e \<notin> set (map fst (indexed 0 notify_fields (p_notify p)))"
    if "e \<in> set (map fst (indexed 0 stage_fields (p_stages p)))" for e
  proof
    assume "e \<in> set (map fst (indexed 0 notify_fields (p_notify p)))"
    then obtain i where "e = notify_commit_path i"
      unfolding map_indexed by (auto dest!: in_indexed simp: notify_fields_def split: notify_target.splits)
    moreover from that obtain k j x where "e = step_path k j @ x"
      unfolding map_indexed by (blast dest: in_indexed stage_field_path)
    ultimately show False by (simp add: notify_commit_path_def step_path_def stage_path_def)
  qed
  with stages notify show ?thesis by (auto simp: pipeline_fields_def)
qed

lemma get_materialized_fields:
  assumes "\<forall>s\<in>set (p_stages p). stage_maps_wf s"
  shows "btree_get (expression_materialized_fields p) k = map_of (pipeline_fields p) k"
proof -
  have "map_of (rev (pipeline_fields p)) = map_of (pipeline_fields p)"
    using distinct_pipeline_fields [OF assms] by (intro map_of_eqI) (auto simp: rev_map [symmetric])
  then show ?thesis
    by (simp add: materialized_fields_eq btree_get_insert_all) (simp add: btree_get_def map_add_def split: option.split)
qed

section \<open>Materializing is substitution\<close>

definition without :: "string set \<Rightarrow> 'v btree_map \<Rightarrow> 'v btree_map" where
  "without S m = filter (\<lambda>(k, _). k \<notin> S) m"

definition supplied :: "string btree_map \<Rightarrow> string \<Rightarrow> string \<Rightarrow> string" where
  "supplied r path field = (case btree_get r path of Some v \<Rightarrow> v | None \<Rightarrow> field)"

lemma without_without [simp]: "without S (without T m) = without (T \<union> S) m"
  by (simp add: without_def case_prod_unfold conj_commute cong: conj_cong)

lemma without_empty [simp]: "without {} m = m"
  by (simp add: without_def case_prod_unfold)

lemma without_wf: "btree_wf m \<Longrightarrow> btree_wf (without S m)"
  by (induction m) (auto simp: without_def btree_wf_Cons)

lemma get_without: "btree_get (without S m) k = (if k \<in> S then None else btree_get m k)"
  by (induction m) (auto simp: without_def btree_get_def)

lemma supplied_without: "path \<notin> S \<Longrightarrow> supplied (without S r) path v = supplied r path v"
  by (simp add: supplied_def get_without)

lemma btree_remove_without: "btree_wf m \<Longrightarrow> btree_remove m k = without {k} m"
proof (induction m)
  case Nil
  then show ?case by (simp add: without_def)
next
  case (Cons e m)
  obtain a b where e: "e = (a, b)" by (cases e)
  with Cons.prems have "filter (\<lambda>(j, _). j \<noteq> a) m = m"
    by (auto simp: btree_wf_Cons filter_id_conv)
  with e Cons show ?case by (auto simp: without_def btree_wf_Cons)
qed

lemma without_absent: "btree_get m k = None \<Longrightarrow> without {k} m = m"
  by (induction m) (auto simp: without_def btree_get_def split: if_splits)

lemma materialize_eq: "btree_wf r \<Longrightarrow> materialize r path v = (supplied r path v, without {path} r)"
  by (cases "btree_get r path") (simp_all add: materialize_def supplied_def btree_remove_without without_absent)

lemma materialize_args_eq:
  "btree_wf r \<Longrightarrow> materialize_args base k r as =
     (map (\<lambda>(j, a). supplied r (argument_path base j) a) (enumerate k as),
      without (argument_path base ` {k..<k + length as}) r)"
proof (induction as arbitrary: k r)
  case Nil
  then show ?case by simp
next
  case (Cons a as)
  have "map (\<lambda>(j, a). supplied (without {argument_path base k} r) (argument_path base j) a) (enumerate (Suc k) as) =
      map (\<lambda>(j, a). supplied r (argument_path base j) a) (enumerate (Suc k) as)"
    by (rule map_cong [OF refl])
      (auto simp: supplied_without field_path_inject in_set_enumerate_eq)
  moreover have "insert (argument_path base k) (argument_path base ` {Suc k..<Suc (k + length as)}) =
      argument_path base ` {k..<Suc (k + length as)}"
  proof -
    have "{k..<Suc (k + length as)} = insert k {Suc k..<Suc (k + length as)}" by auto
    then show ?thesis by simp
  qed
  ultimately show ?case
    using Cons.IH [OF without_wf [OF Cons.prems], of "Suc k" "{argument_path base k}"] Cons.prems
    by (simp add: materialize_eq)
qed

lemma materialize_env_eq:
  "btree_wf r \<Longrightarrow> distinct (map fst env) \<Longrightarrow> materialize_env base r env =
     (map (\<lambda>(n, v). (n, supplied r (environment_path base n) v)) env,
      without (environment_path base ` fst ` set env) r)"
proof (induction env arbitrary: r)
  case Nil
  then show ?case by simp
next
  case (Cons e env)
  obtain n v where e: "e = (n, v)" by (cases e)
  have "map (\<lambda>(m, v). (m, supplied (without {environment_path base n} r) (environment_path base m) v)) env =
      map (\<lambda>(m, v). (m, supplied r (environment_path base m) v)) env"
    using Cons.prems(2) e by (auto simp: supplied_without field_path_inject image_iff)
  then show ?case
    using Cons.IH [OF without_wf [OF Cons.prems(1)], of "{environment_path base n}"] Cons.prems e
    by (simp add: materialize_eq)
qed

definition subst_step :: "string btree_map \<Rightarrow> string \<Rightarrow> step \<Rightarrow> step" where
  "subst_step r base s =
     (case s of
        Process p \<Rightarrow> Process (p\<lparr>pr_program := supplied r (program_path base) (pr_program p),
          pr_args := map (\<lambda>(j, a). supplied r (argument_path base j) a) (enumerate 0 (pr_args p)),
          pr_env := map (\<lambda>(n, v). (n, supplied r (environment_path base n) v)) (pr_env p)\<rparr>)
      | Checkout c \<Rightarrow> Checkout (c\<lparr>ck_spec := (ck_spec c)
          \<lparr>co_commit := supplied r (commit_path base) (co_commit (ck_spec c))\<rparr>\<rparr>)
      | _ \<Rightarrow> s)"

definition subst_stage :: "string btree_map \<Rightarrow> nat \<Rightarrow> stage \<Rightarrow> stage" where
  "subst_stage r i s = s\<lparr>sg_steps := map (\<lambda>(j, st). subst_step r (step_path i j) st) (enumerate 0 (sg_steps s))\<rparr>"

definition subst_target :: "string btree_map \<Rightarrow> nat \<Rightarrow> notify_target \<Rightarrow> notify_target" where
  "subst_target r i t =
     (case t of GithubStatus m c x y \<Rightarrow> GithubStatus m (supplied r (notify_commit_path i) c) x y | Webhook _ \<Rightarrow> t)"

lemma materialize_step_eq:
  assumes r: "btree_wf r" and s: "process_maps_wf s"
  shows "materialize_step base r s = (subst_step r base s, without (fst ` set (step_fields base s)) r)"
proof (cases s)
  case (Process p)
  let ?r1 = "without {program_path base} r"
  let ?A = "argument_path base ` {0..<length (pr_args p)}"
  let ?r2 = "without ?A ?r1"
  have d: "distinct (map fst (pr_env p))"
    using s Process by (simp add: process_maps_wf_def btree_wf_def strict_sorted_iff)
  have args: "materialize_args base 0 ?r1 (pr_args p) =
      (map (\<lambda>(j, a). supplied r (argument_path base j) a) (enumerate 0 (pr_args p)), ?r2)"
    using materialize_args_eq [OF without_wf [OF r], of base 0 "{program_path base}" "pr_args p"]
    by (simp add: supplied_without field_path_inject [symmetric])
  have env: "materialize_env base ?r2 (pr_env p) =
      (map (\<lambda>(n, v). (n, supplied r (environment_path base n) v)) (pr_env p),
       without (environment_path base ` fst ` set (pr_env p)) ?r2)"
    using materialize_env_eq [OF without_wf [OF without_wf [OF r]] d, of base ?A "{program_path base}"]
    by (simp add: supplied_without field_path_inject [symmetric] image_iff)
  have "fst ` set (step_fields base s) =
      {program_path base} \<union> ?A \<union> environment_path base ` fst ` set (pr_env p)"
    using Process by (force simp: step_fields_def in_set_enumerate_eq image_iff)
  then show ?thesis
    using Process args env r by (simp add: materialize_step_def subst_step_def materialize_eq Un_assoc)
next
  case (Checkout c)
  then show ?thesis using r by (simp add: materialize_step_def subst_step_def step_fields_def materialize_eq)
qed (simp_all add: materialize_step_def subst_step_def step_fields_def)

text \<open>The same for the lists of steps, stages and targets, which share one argument.\<close>

lemma materialize_list_eq:
  assumes nil: "\<And>i r. mat i r [] = ([], r)"
    and cons: "\<And>i r x xs. x \<in> A \<Longrightarrow> btree_wf r \<Longrightarrow> mat i r (x # xs) =
      (let (ys, r') = mat (Suc i) (without (fst ` set (flds i x)) r) xs in (sub r i x # ys, r'))"
    and disjoint: "\<And>i j x y. i \<noteq> j \<Longrightarrow> set (map fst (flds i x)) \<inter> set (map fst (flds j y)) = {}"
    and local: "\<And>r i x S. S \<inter> set (map fst (flds i x)) = {} \<Longrightarrow> sub (without S r) i x = sub r i x"
  shows "btree_wf r \<Longrightarrow> set xs \<subseteq> A \<Longrightarrow> mat n r xs =
    (map (\<lambda>(i, x). sub r i x) (enumerate n xs), without (fst ` set (indexed n flds xs)) r)"
proof (induction xs arbitrary: n r)
  case Nil
  then show ?case by (simp add: nil)
next
  case (Cons x xs)
  let ?S = "fst ` set (flds n x)"
  have "sub (without ?S r) i y = sub r i y" if "i \<noteq> n" for i y
    using local disjoint [of n i x y] that by simp
  then have "map (\<lambda>(i, x). sub (without ?S r) i x) (enumerate (Suc n) xs) =
      map (\<lambda>(i, x). sub r i x) (enumerate (Suc n) xs)"
    by (intro map_cong [OF refl]) (auto simp: in_set_enumerate_eq)
  with Cons.IH [OF without_wf [OF Cons.prems(1)], of "Suc n" ?S] Cons.prems show ?case
    by (simp add: cons image_Un)
qed

lemma subst_step_local:
  "S \<inter> set (map fst (step_fields base s)) = {} \<Longrightarrow> subst_step (without S r) base s = subst_step r base s"
proof (cases s)
  case (Process p)
  assume S: "S \<inter> set (map fst (step_fields base s)) = {}"
  have "program_path base \<notin> S" using S Process by (auto simp: step_fields_def)
  moreover have arg: "argument_path base j \<notin> S" if "(j, a) \<in> set (enumerate 0 (pr_args p))" for j a
    using S Process that by (force simp: step_fields_def)
  have "map (\<lambda>(j, a). supplied (without S r) (argument_path base j) a) (enumerate 0 (pr_args p)) =
      map (\<lambda>(j, a). supplied r (argument_path base j) a) (enumerate 0 (pr_args p))"
    by (rule map_cong [OF refl]) (clarsimp simp: supplied_without arg simp del: in_set_enumerate_eq)
  moreover have env: "environment_path base n \<notin> S" if "(n, v) \<in> set (pr_env p)" for n v
    using S Process that by (force simp: step_fields_def)
  have "map (\<lambda>(n, v). (n, supplied (without S r) (environment_path base n) v)) (pr_env p) =
      map (\<lambda>(n, v). (n, supplied r (environment_path base n) v)) (pr_env p)"
    by (rule map_cong [OF refl]) (clarsimp simp: supplied_without env)
  ultimately show ?thesis
    using Process by (simp add: subst_step_def supplied_without)
qed (auto simp: subst_step_def step_fields_def supplied_without)

lemma step_fields_disjoint:
  "j \<noteq> k \<Longrightarrow> set (map fst (step_fields (step_path i j) x)) \<inter> set (map fst (step_fields (step_path i k) y)) = {}"
  by (auto dest!: step_fields_prefix [OF imageI, simplified] simp: step_path_inject)

lemma materialize_steps_eq:
  "btree_wf r \<Longrightarrow> \<forall>s\<in>set ss. process_maps_wf s \<Longrightarrow> materialize_steps i n r ss =
     (map (\<lambda>(j, s). subst_step r (step_path i j) s) (enumerate n ss),
      without (fst ` set (indexed n (\<lambda>j. step_fields (step_path i j)) ss)) r)"
proof (rule materialize_list_eq [where A = "{s. process_maps_wf s}" and flds = "\<lambda>j. step_fields (step_path i j)"
      and mat = "materialize_steps i" and sub = "\<lambda>r j. subst_step r (step_path i j)"])
  fix j k x y assume "j \<noteq> (k::nat)"
  then show "set (map fst (step_fields (step_path i j) x)) \<inter> set (map fst (step_fields (step_path i k) y)) = {}"
    by (rule step_fields_disjoint)
qed (auto simp: materialize_step_eq subst_step_local)

lemma subst_stage_local:
  assumes "S \<inter> set (map fst (stage_fields i s)) = {}"
  shows "subst_stage (without S r) i s = subst_stage r i s"
proof -
  have "S \<inter> set (map fst (step_fields (step_path i j) st)) = {}" if "(j, st) \<in> set (enumerate 0 (sg_steps s))" for j st
    using assms that by (fastforce simp: stage_fields_def)
  then have "map (\<lambda>(j, st). subst_step (without S r) (step_path i j) st) (enumerate 0 (sg_steps s)) =
      map (\<lambda>(j, st). subst_step r (step_path i j) st) (enumerate 0 (sg_steps s))"
    by (intro map_cong [OF refl]) (auto simp: subst_step_local)
  then show ?thesis by (simp add: subst_stage_def)
qed

lemma stage_fields_disjoint:
  assumes "k \<noteq> l"
  shows "set (map fst (stage_fields k x)) \<inter> set (map fst (stage_fields l y)) = {}"
proof -
  have False if "e \<in> set (map fst (stage_fields k x))" "e \<in> set (map fst (stage_fields l y))" for e
    using stage_field_path [OF that(1)] stage_field_path [OF that(2)] assms by (auto simp: step_path_inject)
  then show ?thesis by blast
qed

lemma materialize_stages_eq:
  "btree_wf r \<Longrightarrow> \<forall>s\<in>set ss. stage_maps_wf s \<Longrightarrow> materialize_stages n r ss =
     (map (\<lambda>(i, s). subst_stage r i s) (enumerate n ss), without (fst ` set (indexed n stage_fields ss)) r)"
proof (rule materialize_list_eq [where A = "{s. stage_maps_wf s}" and sub = subst_stage])
  fix i j x y assume "i \<noteq> (j::nat)"
  then show "set (map fst (stage_fields i x)) \<inter> set (map fst (stage_fields j y)) = {}"
    by (rule stage_fields_disjoint)
next
  fix i x xs and r :: "string btree_map" assume "x \<in> {s. stage_maps_wf s}" "btree_wf r"
  then show "materialize_stages i r (x # xs) =
    (let (ys, r') = materialize_stages (Suc i) (without (fst ` set (stage_fields i x)) r) xs in (subst_stage r i x # ys, r'))"
    by (simp add: stage_maps_wf_def materialize_steps_eq subst_stage_def stage_fields_indexed)
qed (auto simp: subst_stage_local)

lemma materialize_notify_eq:
  "btree_wf r \<Longrightarrow> materialize_notify n r ts =
     (map (\<lambda>(i, t). subst_target r i t) (enumerate n ts), without (fst ` set (indexed n notify_fields ts)) r)"
  by (rule materialize_list_eq [where A = UNIV and sub = subst_target])
    (auto simp: notify_fields_def notify_path_inject subst_target_def materialize_eq supplied_without
      split: notify_target.splits)

section \<open>Binding parameters\<close>

definition bound_value :: "parameter_value btree_map \<Rightarrow> string \<times> parameter_definition \<Rightarrow> parameter_value option" where
  "bound_value inputs nd =
     (case btree_get inputs (fst nd) of Some v \<Rightarrow> Some v | None \<Rightarrow> pd_default (snd nd))"

definition well_bound :: "parameter_definition btree_map \<Rightarrow> parameter_value btree_map \<Rightarrow> bool" where
  "well_bound defs inputs \<longleftrightarrow> (\<forall>nd\<in>set defs. \<exists>v. bound_value inputs nd = Some v \<and> accepts (pd_type (snd nd)) v)"

definition public_bindings ::
  "parameter_definition btree_map \<Rightarrow> parameter_value btree_map \<Rightarrow> parameter_value btree_map" where
  "public_bindings defs inputs =
     map (\<lambda>nd. (fst nd, the (bound_value inputs nd))) (filter (\<lambda>nd. \<not> pd_secret (snd nd)) defs)"

definition context_bindings ::
  "parameter_definition btree_map \<Rightarrow> parameter_value btree_map \<Rightarrow> evaluated_value btree_map" where
  "context_bindings defs inputs =
     map (\<lambda>nd. (fst nd, \<lparr>ev_value = the (bound_value inputs nd), ev_secret = pd_secret (snd nd)\<rparr>)) defs"

lemma bindings_unaffected:
  assumes "n \<notin> fst ` set defs" and "btree_wf inputs"
  shows "well_bound defs (btree_remove inputs n) = well_bound defs inputs"
    "public_bindings defs (btree_remove inputs n) = public_bindings defs inputs"
    "context_bindings defs (btree_remove inputs n) = context_bindings defs inputs"
proof -
  have "bound_value (btree_remove inputs n) nd = bound_value inputs nd" if "nd \<in> set defs" for nd
    using assms that by (auto simp: bound_value_def bt.get_remove image_iff)
  then show "well_bound defs (btree_remove inputs n) = well_bound defs inputs"
    "public_bindings defs (btree_remove inputs n) = public_bindings defs inputs"
    "context_bindings defs (btree_remove inputs n) = context_bindings defs inputs"
    by (simp_all add: well_bound_def public_bindings_def context_bindings_def)
qed

lemma bind_parameter_Ok:
  "bind_parameter s nd = Ok t \<longleftrightarrow>
     (\<exists>v. bound_value (bs_inputs s) nd = Some v \<and> accepts (pd_type (snd nd)) v \<and>
        t = \<lparr>bs_inputs = btree_remove (bs_inputs s) (fst nd),
             bs_public = (if pd_secret (snd nd) then bs_public s else btree_insert (bs_public s) (fst nd) v),
             bs_context = btree_insert (bs_context s) (fst nd) \<lparr>ev_value = v, ev_secret = pd_secret (snd nd)\<rparr>\<rparr>)"
  by (auto simp: bind_parameter_def bound_value_def Let_def and_then_eq_Ok if_Err_eq_Ok)

lemma bind_parameters:
  "btree_wf (bs_inputs s) \<Longrightarrow> distinct (map fst defs) \<Longrightarrow>
    (\<exists>t. try_fold bind_parameter s defs = Ok t \<and> bs_public t = pub \<and> bs_context t = cxt) \<longleftrightarrow>
    well_bound defs (bs_inputs s) \<and> pub = btree_insert_all (bs_public s) (public_bindings defs (bs_inputs s)) \<and>
    cxt = btree_insert_all (bs_context s) (context_bindings defs (bs_inputs s))"
proof (induction defs arbitrary: s)
  case Nil
  then show ?case by (auto simp: well_bound_def public_bindings_def context_bindings_def)
next
  case (Cons nd defs)
  from Cons.prems(2) have fresh: "fst nd \<notin> fst ` set defs" and d: "distinct (map fst defs)" by auto
  note unaffected = bindings_unaffected [OF fresh Cons.prems(1)]
  show ?case
  proof (cases "\<exists>v. bound_value (bs_inputs s) nd = Some v \<and> accepts (pd_type (snd nd)) v")
    case True
    then obtain v where v: "bound_value (bs_inputs s) nd = Some v" "accepts (pd_type (snd nd)) v" by blast
    define s' where "s' = \<lparr>bs_inputs = btree_remove (bs_inputs s) (fst nd),
        bs_public = (if pd_secret (snd nd) then bs_public s else btree_insert (bs_public s) (fst nd) v),
        bs_context = btree_insert (bs_context s) (fst nd) \<lparr>ev_value = v, ev_secret = pd_secret (snd nd)\<rparr>\<rparr>"
    with v have s': "bind_parameter s nd = Ok s'" "bs_inputs s' = btree_remove (bs_inputs s) (fst nd)"
        "bs_public s' = (if pd_secret (snd nd) then bs_public s else btree_insert (bs_public s) (fst nd) v)"
        "bs_context s' = btree_insert (bs_context s) (fst nd) \<lparr>ev_value = v, ev_secret = pd_secret (snd nd)\<rparr>"
      by (simp_all add: bind_parameter_Ok)
    have "btree_wf (bs_inputs s')" using Cons.prems(1) s'(2) by (simp add: btree_wf_remove)
    from Cons.IH [OF this d] v s' unaffected show ?thesis
      by (simp add: well_bound_def [of "nd # defs"] well_bound_def [of defs, symmetric])
        (simp add: public_bindings_def context_bindings_def)
  next
    case False
    then have "\<nexists>t. bind_parameter s nd = Ok t" by (auto simp: bind_parameter_Ok)
    with False show ?thesis by (auto simp: well_bound_def and_then_eq_Ok)
  qed
qed

lemma bind_parameter_values_Ok:
  assumes "btree_wf defs" and "btree_wf inputs"
  shows "bind_parameter_values defs inputs = Ok (pub, cxt) \<longleftrightarrow>
    (\<forall>n\<in>fst ` set inputs. btree_get defs n \<noteq> None) \<and> well_bound defs inputs \<and>
    pub = public_bindings defs inputs \<and> cxt = context_bindings defs inputs"
proof -
  have d: "distinct (map fst defs)" using assms(1) by (simp add: btree_wf_def strict_sorted_iff)
  have "btree_wf (public_bindings defs inputs)"
    using assms(1) by (induction defs) (auto simp: public_bindings_def btree_wf_def)
  moreover have "btree_wf (context_bindings defs inputs)"
    using assms(1) by (simp add: context_bindings_def btree_wf_def comp_def)
  ultimately have "btree_insert_all [] (public_bindings defs inputs) = public_bindings defs inputs"
      "btree_insert_all [] (context_bindings defs inputs) = context_bindings defs inputs"
    by (simp_all add: btree_insert_all_wf)
  with bind_parameters [OF _ d, of "\<lparr>bs_inputs = inputs, bs_public = [], bs_context = []\<rparr>"] assms(2)
  have fold: "(\<exists>t. try_fold bind_parameter \<lparr>bs_inputs = inputs, bs_public = [], bs_context = []\<rparr> defs = Ok t \<and>
      bs_public t = pub \<and> bs_context t = cxt) \<longleftrightarrow> well_bound defs inputs \<and>
      pub = public_bindings defs inputs \<and> cxt = context_bindings defs inputs" by simp
  have found: "find (\<lambda>name. \<not> btree_contains defs name) (map fst inputs) = None \<longleftrightarrow>
      (\<forall>n\<in>fst ` set inputs. btree_get defs n \<noteq> None)"
    by (auto simp: find_None_iff btree_contains_def)
  show ?thesis
    unfolding bind_parameter_values_def found [symmetric] fold [symmetric]
    by (auto simp: and_then_eq_Ok split: option.split)
qed

section \<open>Resolving the bindings\<close>

definition binding_value :: "evaluated_value btree_map \<Rightarrow> expression_binding \<Rightarrow> string option" where
  "binding_value cxt b =
     (case evaluate_expression (eb_expression b) cxt default_expression_limits of
        Ok v \<Rightarrow> if ev_secret v then None else (case ev_value v of PV_String s \<Rightarrow> Some s | _ \<Rightarrow> None)
      | Err _ \<Rightarrow> None)"

definition resolved_bindings :: "evaluated_value btree_map \<Rightarrow> expression_binding list \<Rightarrow> string btree_map" where
  "resolved_bindings cxt bs = map (\<lambda>b. (eb_path b, the (binding_value cxt b))) bs"

lemma resolve_binding_Ok:
  "resolve_binding cxt r b = Ok r' \<longleftrightarrow> (\<exists>s. binding_value cxt b = Some s \<and> r' = btree_insert r (eb_path b) s)"
proof (cases "evaluate_expression (eb_expression b) cxt default_expression_limits")
  case (Ok v)
  then show ?thesis by (cases "ev_value v") (auto simp: resolve_binding_def binding_value_def)
qed (auto simp: resolve_binding_def binding_value_def)

lemma resolve_bindings_Ok:
  "try_fold (resolve_binding cxt) r bs = Ok r' \<longleftrightarrow>
     (\<forall>b\<in>set bs. binding_value cxt b \<noteq> None) \<and> r' = btree_insert_all r (resolved_bindings cxt bs)"
  by (induction bs arbitrary: r) (auto simp: resolved_bindings_def and_then_eq_Ok resolve_binding_Ok)

lemma resolved_bindings_wf:
  "sorted_wrt (<) (map eb_path bs) \<Longrightarrow> btree_wf (resolved_bindings cxt bs)"
  by (simp add: resolved_bindings_def btree_wf_def comp_def)

lemma binding_value_public:
  "public_eq p q \<Longrightarrow> binding_value p b = Some s \<Longrightarrow> binding_value q b = Some s"
  by (auto simp: binding_value_def evaluate_expression_Ok dest: sem_public
      split: result.splits parameter_value.splits if_splits)
    (metis evaluate_expression_Ok result.distinct(1) sem_public)

section \<open>The instance\<close>

text \<open>The type invariant of the maps in a pipeline.\<close>

definition maps_wf :: "pipeline_ir \<Rightarrow> bool" where
  "maps_wf p \<longleftrightarrow> btree_wf (p_parameters p) \<and> btree_wf (p_parameter_values p) \<and> (\<forall>s\<in>set (p_stages p). stage_maps_wf s)"

definition instance_of :: "pipeline_ir \<Rightarrow> parameter_value btree_map \<Rightarrow> string btree_map \<Rightarrow> pipeline_ir" where
  "instance_of t vals r = t\<lparr>p_parameter_values := vals,
     p_stages := map (\<lambda>(i, s). subst_stage r i s) (enumerate 0 (p_stages t)),
     p_notify := map (\<lambda>(i, x). subst_target r i x) (enumerate 0 (p_notify t))\<rparr>"

lemma without_eq_Nil: "without S m = [] \<longleftrightarrow> fst ` set m \<subseteq> S"
  by (auto simp: without_def filter_empty_conv)

lemma instantiate_Ok:
  assumes t: "maps_wf t" and i: "btree_wf inputs"
  defines "cxt \<equiv> context_bindings (p_parameters t) inputs"
  defines "r \<equiv> resolved_bindings cxt (p_expressions t)"
  shows "instantiate_pipeline ext t inputs = Ok p \<longleftrightarrow>
    validate_pipeline ext t = Ok () \<and> (\<forall>n\<in>fst ` set inputs. btree_get (p_parameters t) n \<noteq> None) \<and>
    well_bound (p_parameters t) inputs \<and> (\<forall>b\<in>set (p_expressions t). binding_value cxt b \<noteq> None) \<and>
    p = instance_of t (public_bindings (p_parameters t) inputs) r \<and> validate_pipeline ext p = Ok ()"
proof (cases "validate_pipeline ext t = Ok ()")
  case False
  then show ?thesis by (auto simp: instantiate_pipeline_def and_then_eq_Ok)
next
  case True
  then have valid: "valid_parameters t" by (simp add: validate_pipeline_eq_Ok valid_pipeline_def)
  from valid have wf: "btree_wf r"
    by (simp add: r_def valid_parameters_def resolved_bindings_wf)
  have stages: "\<forall>s\<in>set (p_stages t). stage_maps_wf s" using t by (simp add: maps_wf_def)
  have mat: "materialize_stages 0 r (p_stages t) = (map (\<lambda>(i, s). subst_stage r i s) (enumerate 0 (p_stages t)),
      without (fst ` set (indexed 0 stage_fields (p_stages t))) r)"
    "materialize_notify 0 (without S r) (p_notify t) = (map (\<lambda>(i, x). subst_target (without S r) i x) (enumerate 0 (p_notify t)),
      without (S \<union> fst ` set (indexed 0 notify_fields (p_notify t))) r)" for S
    using materialize_stages_eq [OF wf stages] materialize_notify_eq [OF without_wf [OF wf]] by simp_all
  have "fst ` set r \<subseteq> fst ` set (pipeline_fields t)"
  proof -
    have "eb_path b \<in> fst ` set (pipeline_fields t)" if "b \<in> set (p_expressions t)" for b
      using valid that get_materialized_fields [OF stages]
      by (auto simp: valid_parameters_def binding_ok_def image_iff dest!: map_of_SomeD) (metis fst_conv map_of_SomeD)
    then show ?thesis by (auto simp: r_def resolved_bindings_def)
  qed
  then have rest: "without (fst ` set (indexed 0 stage_fields (p_stages t)) \<union>
      fst ` set (indexed 0 notify_fields (p_notify t))) r = []"
    by (simp add: without_eq_Nil pipeline_fields_def image_Un)
  let ?S = "fst ` set (indexed 0 stage_fields (p_stages t))"
  have "subst_target (without ?S r) i x = subst_target r i x" for i x
  proof -
    have "notify_commit_path i \<notin> ?S"
    proof
      assume "notify_commit_path i \<in> ?S"
      then have "notify_commit_path i \<in> set (indexed 0 (\<lambda>k x. map fst (stage_fields k x)) (p_stages t))"
        by (simp flip: map_indexed)
      then obtain k j x where "notify_commit_path i = step_path k j @ x"
        by (blast dest: in_indexed stage_field_path)
      then show False by (simp add: notify_commit_path_def step_path_def stage_path_def)
    qed
    then show ?thesis by (simp add: subst_target_def supplied_without split: notify_target.split)
  qed
  note notify = this
  have bind: "bind_parameter_values (p_parameters t) inputs = Ok (pub, c) \<longleftrightarrow>
    (\<forall>n\<in>fst ` set inputs. btree_get (p_parameters t) n \<noteq> None) \<and> well_bound (p_parameters t) inputs \<and>
    pub = public_bindings (p_parameters t) inputs \<and> c = cxt" for pub c
    using t i unfolding cxt_def by (intro bind_parameter_values_Ok) (auto simp: maps_wf_def)
  have resolve: "try_fold (resolve_binding cxt) [] (p_expressions t) = Ok r' \<longleftrightarrow>
      (\<forall>b\<in>set (p_expressions t). binding_value cxt b \<noteq> None) \<and> r' = r" for r'
    using wf by (simp add: resolve_bindings_Ok r_def btree_insert_all_wf)
  show ?thesis
    using True by (auto simp: instantiate_pipeline_def and_then_eq_Ok bind resolve mat rest notify instance_of_def
        Let_def)
qed

lemma get_context_bindings:
  "btree_get (context_bindings defs i) n =
     map_option (\<lambda>d. \<lparr>ev_value = the (bound_value i (n, d)), ev_secret = pd_secret d\<rparr>) (btree_get defs n)"
  unfolding context_bindings_def btree_get_def by (induction defs) auto

lemma btree_eqI: "btree_wf m \<Longrightarrow> btree_wf m' \<Longrightarrow> (\<And>k. btree_get m k = btree_get m' k) \<Longrightarrow> m = m'"
proof (rule map_sorted_distinct_set_unique [of fst])
  assume wf: "btree_wf m" "btree_wf m'" and eq: "\<And>k. btree_get m k = btree_get m' k"
  show set_eq: "set m = set m'"
    using bt.get_iff_entry [OF wf(1)] bt.get_iff_entry [OF wf(2)] eq by auto
  have "inj_on fst (set m)" using wf(1) by (simp add: btree_wf_def strict_sorted_iff distinct_map)
  with set_eq show "inj_on fst (set m \<union> set m')" by simp
qed (simp_all add: btree_wf_def strict_sorted_iff)

lemma get_public_bindings:
  assumes "btree_wf defs"
  shows "btree_get (public_bindings defs i) n =
    (case btree_get defs n of Some d \<Rightarrow> if pd_secret d then None else Some (the (bound_value i (n, d))) | None \<Rightarrow> None)"
  using assms unfolding public_bindings_def btree_get_def
proof (induction defs)
  case (Cons nd defs)
  obtain m d where nd: "nd = (m, d)" by (cases nd)
  then have "map_of defs m = None" using Cons.prems by (auto simp: btree_wf_Cons map_of_eq_None_iff)
  with nd Cons show ?case by (auto simp: btree_wf_Cons)
qed simp

lemma public_bindings_wf: "btree_wf defs \<Longrightarrow> btree_wf (public_bindings defs inputs)"
  by (induction defs) (auto simp: public_bindings_def btree_wf_def)

text \<open>A substitution that supplies the values already there changes nothing.\<close>

lemma subst_step_id:
  assumes "\<And>path f. (path, f) \<in> set (step_fields base s) \<Longrightarrow> supplied r path f = f"
  shows "subst_step r base s = s"
proof (cases s)
  case (Process p)
  have arg: "supplied r (argument_path base j) a = a" if "(j, a) \<in> set (enumerate 0 (pr_args p))" for j a
  proof (rule assms)
    show "(argument_path base j, a) \<in> set (step_fields base s)"
      using Process that by (force simp: step_fields_def simp del: in_set_enumerate_eq)
  qed
  then have "map (\<lambda>(j, a). supplied r (argument_path base j) a) (enumerate 0 (pr_args p)) = map snd (enumerate 0 (pr_args p))"
    by (intro map_cong [OF refl]) (clarsimp simp del: in_set_enumerate_eq)
  moreover have env: "supplied r (environment_path base n) v = v" if "(n, v) \<in> set (pr_env p)" for n v
  proof (rule assms)
    show "(environment_path base n, v) \<in> set (step_fields base s)"
      using Process that by (force simp: step_fields_def)
  qed
  then have "map (\<lambda>(n, v). (n, supplied r (environment_path base n) v)) (pr_env p) = map id (pr_env p)"
    by (intro map_cong [OF refl]) clarsimp
  moreover have "supplied r (program_path base) (pr_program p) = pr_program p"
    using assms Process by (simp add: step_fields_def)
  ultimately show ?thesis using Process by (simp add: subst_step_def)
qed (use assms in \<open>auto simp: subst_step_def step_fields_def\<close>)

lemma subst_list_id:
  "(\<And>i x. (i, x) \<in> set (enumerate n xs) \<Longrightarrow> f i x = x) \<Longrightarrow> map (\<lambda>(i, x). f i x) (enumerate n xs) = xs"
proof -
  assume "\<And>i x. (i, x) \<in> set (enumerate n xs) \<Longrightarrow> f i x = x"
  then have "map (\<lambda>(i, x). f i x) (enumerate n xs) = map snd (enumerate n xs)"
    by (intro map_cong [OF refl]) (auto simp del: in_set_enumerate_eq)
  then show ?thesis by simp
qed

lemma in_indexedI: "(i, x) \<in> set (enumerate n xs) \<Longrightarrow> e \<in> set (f i x) \<Longrightarrow> e \<in> set (indexed n f xs)"
  by (force simp: indexed_def simp del: in_set_enumerate_eq)

lemma instance_of_id:
  assumes r: "\<And>path f. (path, f) \<in> set (pipeline_fields t) \<Longrightarrow> supplied r path f = f"
  shows "instance_of t (p_parameter_values t) r = t"
proof -
  have "subst_stage r i s = s" if s: "(i, s) \<in> set (enumerate 0 (p_stages t))" for i s
  proof -
    have "subst_step r (step_path i j) st = st" if "(j, st) \<in> set (enumerate 0 (sg_steps s))" for j st
    proof (intro subst_step_id r)
      fix path f assume "(path, f) \<in> set (step_fields (step_path i j) st)"
      with that have "(path, f) \<in> set (stage_fields i s)"
        unfolding stage_fields_indexed by (rule in_indexedI)
      with s have "(path, f) \<in> set (indexed 0 stage_fields (p_stages t))" by (rule in_indexedI)
      then show "(path, f) \<in> set (pipeline_fields t)" by (simp add: pipeline_fields_def)
    qed
    then show ?thesis by (simp add: subst_stage_def subst_list_id)
  qed
  moreover have "subst_target r i x = x" if "(i, x) \<in> set (enumerate 0 (p_notify t))" for i x
    using r in_indexedI [OF that, of _ notify_fields]
    by (cases x) (auto simp: subst_target_def notify_fields_def pipeline_fields_def)
  ultimately show ?thesis by (simp add: instance_of_def subst_list_id)
qed

lemma own_binding:
  assumes "valid_parameters t" and vals: "btree_wf (p_parameter_values t)" and "\<forall>s\<in>set (p_stages t). stage_maps_wf s"
    and "b \<in> set (p_expressions t)"
  shows "\<exists>s. binding_value (public_context (p_parameter_values t)) b = Some s \<and>
    map_of (pipeline_fields t) (eb_path b) = Some s"
proof -
  let ?cxt = "public_context (p_parameter_values t)"
  from assms obtain s v where b: "valid_expr default_expression_limits (eb_expression b)"
      "map_of (pipeline_fields t) (eb_path b) = Some s"
      "sem ?cxt default_expression_limits (eb_expression b) = Ok v" "ev_value v = PV_String s"
    by (auto simp: valid_parameters_def binding_ok_def get_materialized_fields)
  moreover from b(3) have "\<not> ev_secret v"
    by (rule sem_not_secret [rotated]) (auto simp: get_public_context vals)
  moreover from b(1,3) have "evaluate_expression (eb_expression b) ?cxt default_expression_limits = Ok v"
    by (simp add: evaluate_expression_Ok)
  ultimately show ?thesis by (simp add: binding_value_def)
qed

lemma own_instance:
  assumes valid: "validate_pipeline ext t = Ok ()" and wf: "maps_wf t" "btree_wf inputs"
    and public: "\<And>n d. btree_get (p_parameters t) n = Some d \<Longrightarrow> \<not> pd_secret d \<Longrightarrow>
      btree_get inputs n = btree_get (p_parameter_values t) n"
    and secret: "\<And>n d. btree_get (p_parameters t) n = Some d \<Longrightarrow> pd_secret d \<Longrightarrow>
      \<exists>v. btree_get inputs n = Some v \<and> accepts (pd_type d) v"
    and defined: "\<And>n. btree_get inputs n \<noteq> None \<Longrightarrow> btree_get (p_parameters t) n \<noteq> None"
  shows "instantiate_pipeline ext t inputs = Ok t"
proof -
  let ?defs = "p_parameters t" and ?vals = "p_parameter_values t"
  let ?cxt = "context_bindings ?defs inputs"
  have p: "valid_parameters t" using valid by (simp add: validate_pipeline_eq_Ok valid_pipeline_def)
  have defs: "btree_wf ?defs" and vals: "btree_wf ?vals" and stages: "\<forall>s\<in>set (p_stages t). stage_maps_wf s"
    using wf(1) by (simp_all add: maps_wf_def)
  note public_iff = valid_parameters_public [OF p defs vals]
  have typed: "\<exists>v. btree_get ?vals n = Some v \<and> accepts (pd_type d) v"
    if "btree_get ?defs n = Some d" "\<not> pd_secret d" for n d
    using p that bt.get_iff_entry [OF defs, of n d]
    by (force simp: valid_parameters_def parameter_ok_def typed_value_def)
  have bound: "bound_value inputs (n, d) = btree_get ?vals n" if "btree_get ?defs n = Some d" "\<not> pd_secret d" for n d
    using typed [OF that] public [OF that] by (auto simp: bound_value_def)
  have well: "well_bound ?defs inputs"
  proof -
    have "\<exists>v. bound_value inputs (n, d) = Some v \<and> accepts (pd_type d) v" if "btree_get ?defs n = Some d" for n d
      using typed [OF that] bound [OF that] secret [OF that] by (cases "pd_secret d") (auto simp: bound_value_def)
    then show ?thesis using bt.get_iff_entry [OF defs] by (force simp: well_bound_def)
  qed
  have pub: "public_bindings ?defs inputs = ?vals"
  proof (rule btree_eqI [OF public_bindings_wf [OF defs] vals])
    fix n show "btree_get (public_bindings ?defs inputs) n = btree_get ?vals n"
    proof (cases "public_parameter ?defs n")
      case True
      then obtain d where d: "btree_get ?defs n = Some d" "\<not> pd_secret d" by (auto simp: public_parameter_def)
      from typed [OF d] bound [OF d] d show ?thesis by (auto simp: get_public_bindings [OF defs])
    next
      case False
      then have "btree_get ?vals n = None" using public_iff [of n] by simp
      with False show ?thesis
        by (auto simp: get_public_bindings [OF defs] public_parameter_def split: option.split)
    qed
  qed
  have "btree_get ?cxt n = Some \<lparr>ev_value = v, ev_secret = False\<rparr>" if "btree_get ?vals n = Some v" for n v
  proof -
    from that public_iff [of n] obtain d where d: "btree_get ?defs n = Some d" "\<not> pd_secret d"
      by (auto simp: public_parameter_def)
    with bound [OF d] that show ?thesis by (simp add: get_context_bindings)
  qed
  then have "public_eq (public_context ?vals) ?cxt" by (auto simp: public_eq_def get_public_context [OF vals])
  then have vl: "\<exists>s. binding_value ?cxt b = Some s \<and> map_of (pipeline_fields t) (eb_path b) = Some s"
    if "b \<in> set (p_expressions t)" for b
    using own_binding [OF p vals stages that] binding_value_public by blast
  have "instance_of t ?vals (resolved_bindings ?cxt (p_expressions t)) = t"
  proof (rule instance_of_id)
    fix path f assume f: "(path, f) \<in> set (pipeline_fields t)"
    then have "map_of (pipeline_fields t) path = Some f"
      using distinct_pipeline_fields [OF stages] by simp
    moreover have "\<exists>b\<in>set (p_expressions t). eb_path b = path \<and> s = the (binding_value ?cxt b)"
      if "btree_get (resolved_bindings ?cxt (p_expressions t)) path = Some s" for s
      using that unfolding btree_get_def by (auto simp: resolved_bindings_def dest!: map_of_SomeD)
    ultimately show "supplied (resolved_bindings ?cxt (p_expressions t)) path f = f"
      using vl by (fastforce simp: supplied_def split: option.split)
  qed
  moreover have "\<forall>n\<in>fst ` set inputs. btree_get ?defs n \<noteq> None"
    using defined bt.contains_iff_key [OF wf(2)] by blast
  moreover have "\<forall>b\<in>set (p_expressions t). binding_value ?cxt b \<noteq> None" using vl by fastforce
  ultimately show ?thesis
    using instantiate_Ok [OF wf, of ext t, THEN iffD2] valid well pub by auto
qed

section \<open>Properties\<close>

text \<open>
  C3. Secret inputs have no influence: if instantiating a template succeeds, then instantiating it with
  inputs that agree on the public parameters, and give the secret ones any other values of their
  types, succeeds with the same pipeline.
\<close>

theorem instantiate_noninterference:
  assumes ok: "instantiate_pipeline ext t inputs = Ok p"
    and wf: "maps_wf t" "btree_wf inputs" "btree_wf inputs'"
    and public: "\<And>n d. btree_get (p_parameters t) n = Some d \<Longrightarrow> \<not> pd_secret d \<Longrightarrow>
      btree_get inputs' n = btree_get inputs n"
    and secret: "\<And>n d. btree_get (p_parameters t) n = Some d \<Longrightarrow> pd_secret d \<Longrightarrow>
      \<exists>v. btree_get inputs' n = Some v \<and> accepts (pd_type d) v"
    and defined: "\<And>n. btree_get inputs' n \<noteq> None \<Longrightarrow> btree_get (p_parameters t) n \<noteq> None"
  shows "instantiate_pipeline ext t inputs' = Ok p"
proof -
  let ?defs = "p_parameters t"
  have defs: "btree_wf ?defs" using wf(1) by (simp add: maps_wf_def)
  then have entry: "(n, d) \<in> set ?defs \<longleftrightarrow> btree_get ?defs n = Some d" for n d
    by (simp add: bt.get_iff_entry)
  note inst = instantiate_Ok [OF wf(1,2), of ext p, THEN iffD1, OF ok]
  have same: "bound_value inputs' (n, d) = bound_value inputs (n, d)" if "(n, d) \<in> set ?defs" "\<not> pd_secret d" for n d
    using that public by (simp add: entry bound_value_def)
  have "\<exists>v. bound_value inputs' (n, d) = Some v \<and> accepts (pd_type d) v" if nd: "(n, d) \<in> set ?defs" for n d
  proof (cases "pd_secret d")
    case True
    with secret nd show ?thesis by (fastforce simp: entry bound_value_def)
  next
    case False
    with inst same nd show ?thesis by (fastforce simp: well_bound_def)
  qed
  then have bound: "well_bound ?defs inputs'" by (force simp: well_bound_def)
  have pub: "public_bindings ?defs inputs' = public_bindings ?defs inputs"
    unfolding public_bindings_def by (rule map_cong [OF refl]) (auto simp: same)
  have "public_eq (context_bindings ?defs inputs) (context_bindings ?defs inputs')"
    using same by (auto simp: public_eq_def get_context_bindings entry)
  then have vals: "binding_value (context_bindings ?defs inputs') b = binding_value (context_bindings ?defs inputs) b"
    if "b \<in> set (p_expressions t)" for b
    using inst that binding_value_public by fastforce
  then have "resolved_bindings (context_bindings ?defs inputs') (p_expressions t) =
      resolved_bindings (context_bindings ?defs inputs) (p_expressions t)"
    by (simp add: resolved_bindings_def)
  moreover have "\<forall>n\<in>fst ` set inputs'. btree_get ?defs n \<noteq> None"
    using defined bt.contains_iff_key [OF wf(3)] by blast
  ultimately show ?thesis
    using instantiate_Ok [OF wf(1,3), of ext p, THEN iffD2] inst bound pub vals by auto
qed

definition sample_inputs :: "string \<Rightarrow> string \<Rightarrow> parameter_value btree_map" where
  "sample_inputs k v = [(''k'', PV_String k), (''v'', PV_String v)]"

lemmas sample_simps = sample_inputs_def sample_pipeline_def sample_parameters_def maps_wf_def btree_wf_def btree_get_def
  accepts_def sample_stage_def sample_process_def stage_maps_wf_def process_maps_wf_def

lemma sample_instance:
  "instantiate_pipeline sample_externals (sample_pipeline ''b'') (sample_inputs k ''b'') = Ok (sample_pipeline ''b'')"
  by (rule own_instance [OF sample_pipeline_valid]) (auto simp: sample_simps split: if_splits)

theorem instantiate_noninterference_witness:
  "instantiate_pipeline sample_externals (sample_pipeline ''b'') (sample_inputs ''other'' ''b'') = Ok (sample_pipeline ''b'')"
  by (rule instantiate_noninterference [OF sample_instance [of "''key''"]]) (auto simp: sample_simps split: if_splits)

text \<open>
  C4. A pipeline is an instance of itself: instantiating an accepted pipeline with its own public
  values, and any values for its secret parameters, gives back exactly that pipeline.
\<close>

theorem instantiate_identity:
  assumes valid: "validate_pipeline ext t = Ok ()" and wf: "maps_wf t" "btree_wf inputs"
    and public: "\<And>n d. btree_get (p_parameters t) n = Some d \<Longrightarrow> \<not> pd_secret d \<Longrightarrow>
      btree_get inputs n = btree_get (p_parameter_values t) n"
    and secret: "\<And>n d. btree_get (p_parameters t) n = Some d \<Longrightarrow> pd_secret d \<Longrightarrow>
      \<exists>v. btree_get inputs n = Some v \<and> accepts (pd_type d) v"
    and defined: "\<And>n. btree_get inputs n \<noteq> None \<Longrightarrow> btree_get (p_parameters t) n \<noteq> None"
  shows "instantiate_pipeline ext t inputs = Ok t"
  by (rule own_instance [OF assms])

theorem instantiate_identity_witness:
  "instantiate_pipeline sample_externals (sample_pipeline ''b'') (sample_inputs ''key'' ''b'') = Ok (sample_pipeline ''b'')"
  by (rule instantiate_identity [OF sample_pipeline_valid]) (auto simp: sample_simps split: if_splits)

end
