(* ===== verification/Canonical_Roundtrip.thy ===== *)
theory Canonical_Roundtrip
  imports Canonical_Codec Instantiate
begin

text \<open>
  The validator accepts what the writer writes: on the canonical bytes of an accepted pipeline it
  returns the summary of that pipeline. One lemma per part of the document says that the reading of
  that part succeeds, consumes exactly its bytes, and leaves the fields and bindings of the pipeline.
\<close>

section \<open>Loops\<close>

lemma repeat_index_reads:
  assumes "\<And>i pre post. i < length xs \<Longrightarrow> body i (S i) (reader_at pre (put (xs ! i) @ post)) =
      Ok (S (Suc i), reader_at (pre @ put (xs ! i)) post)"
  shows "k + n = length xs \<Longrightarrow> repeat_index k n (\<lambda>i (s, rd). body i s rd) (S k, reader_at pre (concat (map put (drop k xs)) @ post)) =
    Ok (S (length xs), reader_at (pre @ concat (map put (drop k xs))) post)"
proof (induction n arbitrary: k pre)
  case 0
  then show ?case by simp
next
  case (Suc n)
  then have k: "k < length xs" and d: "drop k xs = xs ! k # drop (Suc k) xs" by (simp_all add: Cons_nth_drop_Suc)
  show ?case using assms [OF k] Suc.IH [of "Suc k" "pre @ put (xs ! k)"] Suc.prems by (simp add: d)
qed

lemma read_times_reads:
  assumes "\<And>i pre post. i < length xs \<Longrightarrow> body i (S i) (reader_at pre (put (xs ! i) @ post)) =
      Ok (S (Suc i), reader_at (pre @ put (xs ! i)) post)" and "S 0 = s"
  shows "read_times (length xs) body s (reader_at pre (concat (map put xs) @ post)) =
    Ok (S (length xs), reader_at (pre @ concat (map put xs)) post)"
  using repeat_index_reads [where S = S and body = body and xs = xs and put = put, OF assms(1), of 0 "length xs" pre post]
    assms(2)
  by (simp add: read_times_def)

text \<open>The previous name of a loop over entries in ascending order.\<close>

definition previous_name :: "('a \<Rightarrow> string) \<Rightarrow> 'a list \<Rightarrow> nat \<Rightarrow> string option" where
  "previous_name f xs i = (if i = 0 then None else Some (f (xs ! (i - 1))))"

lemma previous_name_less:
  "sorted_wrt (<) (map f xs) \<Longrightarrow> i < length xs \<Longrightarrow> previous_name f xs i = Some q \<Longrightarrow> q < f (xs ! i)"
  by (auto simp: previous_name_def sorted_wrt_iff_nth_less split: if_splits)

lemma previous_name_simps [simp]: "previous_name f xs 0 = None" "previous_name f xs (Suc i) = Some (f (xs ! i))"
  by (simp_all add: previous_name_def)

definition inserted :: "'v btree_map \<Rightarrow> ('a \<Rightarrow> (string \<times> 'v) list) \<Rightarrow> 'a list \<Rightarrow> nat \<Rightarrow> 'v btree_map" where
  "inserted m f xs i = btree_insert_all m (concat (map f (take i xs)))"

lemma inserted_simps [simp]:
  "inserted m f xs 0 = m"
  "i < length xs \<Longrightarrow> inserted m f xs (Suc i) = btree_insert_all (inserted m f xs i) (f (xs ! i))"
  "inserted m f xs (length xs) = btree_insert_all m (concat (map f xs))"
  by (simp_all add: inserted_def take_Suc_conv_app_nth btree_insert_all_append)

section \<open>Parameters\<close>

text \<open>The type invariants of Rust: strings are UTF-8, maps are sorted.\<close>

definition rust_definition :: "string \<times> parameter_definition \<Rightarrow> bool" where
  "rust_definition nd \<longleftrightarrow> is_utf8 (fst nd) \<and> (\<forall>v. pd_default (snd nd) = Some v \<longrightarrow> rust_value v)"

definition declared :: "string \<times> parameter_definition \<Rightarrow> (string \<times> parameter_type \<times> bool) list" where
  "declared nd = [(fst nd, pd_type (snd nd), pd_secret (snd nd))]"

lemma accepts_value_type: "accepts t v \<longleftrightarrow> value_type v = t"
  by (cases t; cases v) (simp_all add: accepts_def value_type_def)

lemma read_definition_reads:
  assumes "parameter_ok vals nd" and "rust_definition nd" and "\<And>q. previous = Some q \<Longrightarrow> q < fst nd"
  shows "read_definition (defs, previous) (reader_at pre (put_definition nd @ post)) =
    Ok ((btree_insert_all defs (declared nd), Some (fst nd)), reader_at (pre @ put_definition nd) post)"
proof -
  obtain n d where nd: "nd = (n, d)" by (cases nd)
  have n: "rust_string n" "is_parameter_identifier n" "pd_secret d \<longrightarrow> pd_default d = None"
      "\<forall>v. pd_default d = Some v \<longrightarrow> value_type v = pd_type d \<and> rust_value v"
    using assms(1,2)
    by (auto simp: nd parameter_ok_def rust_definition_def rust_string_def typed_value_def accepts_value_type
        is_parameter_identifier_def is_parameter_name_def split: if_splits)
  then show ?thesis
    using assms(3)
    by (cases "pd_default d")
      (simp_all add: nd read_definition_def put_definition_def get_string_after_reads reads_simps declared_def)
qed

lemma read_definitions_reads:
  assumes "btree_wf params" and "\<forall>nd\<in>set params. parameter_ok vals nd \<and> rust_definition nd"
  shows "read_times (length params) (\<lambda>_. read_definition) ([], None) (reader_at pre (concat (map put_definition params) @ post)) =
    Ok ((map (\<lambda>(n, d). (n, pd_type d, pd_secret d)) params, previous_name fst params (length params)),
      reader_at (pre @ concat (map put_definition params)) post)"
proof -
  have "btree_wf (map (\<lambda>(n, d). (n, pd_type d, pd_secret d)) params)"
    using assms(1) by (simp add: btree_wf_def comp_def case_prod_unfold)
  then have fin: "inserted [] declared params (length params) = map (\<lambda>(n, d). (n, pd_type d, pd_secret d)) params"
    by (simp add: declared_def [abs_def] concat_map_singleton case_prod_unfold btree_insert_all_wf)
  have "read_times (length params) (\<lambda>_. read_definition) ([], None) (reader_at pre (concat (map put_definition params) @ post)) =
    Ok ((inserted [] declared params (length params), previous_name fst params (length params)),
      reader_at (pre @ concat (map put_definition params)) post)"
    by (rule read_times_reads [where S = "\<lambda>i. (inserted [] declared params i, previous_name fst params i)"])
      (use assms in \<open>auto intro!: read_definition_reads [of vals] dest: previous_name_less simp: btree_wf_def\<close>)
  then show ?thesis by (simp only: fin)
qed

definition bound_entry :: "string \<times> parameter_value \<Rightarrow> (string \<times> evaluated_value) list" where
  "bound_entry nv = [(fst nv, \<lparr>ev_value = snd nv, ev_secret = False\<rparr>)]"

lemma read_value_reads:
  assumes "btree_get defs (fst nv) = Some (value_type (snd nv), False)" and "rust_string (fst nv)" and "rust_value (snd nv)"
    and "\<And>q. previous = Some q \<Longrightarrow> q < fst nv"
  shows "read_value defs (cxt, previous) (reader_at pre (put_value nv @ post)) =
    Ok ((btree_insert_all cxt (bound_entry nv), Some (fst nv)), reader_at (pre @ put_value nv) post)"
  using assms by (simp add: read_value_def put_value_def get_string_after_reads reads_simps bound_entry_def)

lemma read_values_reads:
  assumes "btree_wf vals" and "\<forall>nv\<in>set vals. rust_string (fst nv) \<and> rust_value (snd nv) \<and>
      btree_get defs (fst nv) = Some (value_type (snd nv), False)"
  shows "read_times (length vals) (\<lambda>_. read_value defs) ([], None) (reader_at pre (concat (map put_value vals) @ post)) =
    Ok ((public_context vals, previous_name fst vals (length vals)), reader_at (pre @ concat (map put_value vals)) post)"
proof -
  have fin: "inserted [] bound_entry vals (length vals) = public_context vals"
    by (simp add: bound_entry_def [abs_def] concat_map_singleton public_context_def case_prod_unfold)
  have "read_times (length vals) (\<lambda>_. read_value defs) ([], None) (reader_at pre (concat (map put_value vals) @ post)) =
    Ok ((inserted [] bound_entry vals (length vals), previous_name fst vals (length vals)),
      reader_at (pre @ concat (map put_value vals)) post)"
    by (rule read_times_reads [where S = "\<lambda>i. (inserted [] bound_entry vals i, previous_name fst vals i)"])
      (use assms in \<open>auto intro!: read_value_reads dest: previous_name_less simp: btree_wf_def\<close>)
  then show ?thesis by (simp only: fin)
qed

definition rust_binding :: "expression_binding \<Rightarrow> bool" where
  "rust_binding b \<longleftrightarrow> is_utf8 (eb_path b) \<and> rust_expression (eb_expression b)"

definition bound_expression :: "expression_binding \<Rightarrow> string \<times> expression" where
  "bound_expression b = (eb_path b, eb_expression b)"

lemma read_binding_reads:
  assumes "rust_binding b" and "ir_string (eb_path b)" and "valid_expr default_expression_limits (eb_expression b)"
    and "\<forall>n\<in>expr_params (eb_expression b). \<exists>t. btree_get defs n = Some (t, False)"
    and "\<And>q. previous = Some q \<Longrightarrow> q < eb_path b"
  shows "read_binding defs (bs, previous) (reader_at pre (put_binding b @ post)) =
    Ok ((bs @ [bound_expression b], Some (eb_path b)), reader_at (pre @ put_binding b) post)"
proof -
  let ?c = "\<lparr>xc_nodes = 0, xc_operations = 0, xc_references = {}\<rparr>"
  have "fits_expression 0 ?c (eb_expression b)" using assms by (simp add: valid_expression_fits rust_binding_def)
  with get_expression_reads have e: "get_expression 0 ?c (reader_at pre (put_expression (eb_expression b) @ post)) =
      Ok (eb_expression b, counted_expression (eb_expression b) ?c, reader_at (pre @ put_expression (eb_expression b)) post)"
    for pre post by (simp add: reads_expression_def)
  have refs: "\<not> (\<exists>n\<in>expr_params (eb_expression b). \<not> btree_contains defs n)"
      "\<not> (\<exists>n\<in>expr_params (eb_expression b). case btree_get defs n of Some (_, secret) \<Rightarrow> secret | None \<Rightarrow> False)"
    using assms(4) by (fastforce simp: btree_contains_def)+
  from assms(1,2) have "rust_string (eb_path b)" by (simp add: rust_binding_def rust_string_def)
  with assms(5) e refs show ?thesis
    by (simp add: read_binding_def put_binding_def get_string_after_reads counted_expression_def bound_expression_def)
qed

lemma read_bindings_reads:
  assumes "sorted_wrt (<) (map eb_path bs)" and "\<forall>b\<in>set bs. rust_binding b \<and> ir_string (eb_path b) \<and>
      valid_expr default_expression_limits (eb_expression b) \<and>
      (\<forall>n\<in>expr_params (eb_expression b). \<exists>t. btree_get defs n = Some (t, False))"
  shows "read_times (length bs) (\<lambda>_. read_binding defs) ([], None) (reader_at pre (concat (map put_binding bs) @ post)) =
    Ok ((map bound_expression bs, previous_name eb_path bs (length bs)), reader_at (pre @ concat (map put_binding bs)) post)"
proof -
  have "read_times (length bs) (\<lambda>_. read_binding defs) ([], None) (reader_at pre (concat (map put_binding bs) @ post)) =
    Ok ((map bound_expression (take (length bs) bs), previous_name eb_path bs (length bs)),
      reader_at (pre @ concat (map put_binding bs)) post)"
  proof (rule read_times_reads [where S = "\<lambda>i. (map bound_expression (take i bs), previous_name eb_path bs i)"])
    fix i pre post assume i: "i < length bs"
    then have "bs ! i \<in> set bs" by simp
    with assms i show "read_binding defs (map bound_expression (take i bs), previous_name eb_path bs i)
          (reader_at pre (put_binding (bs ! i) @ post)) =
        Ok ((map bound_expression (take (Suc i) bs), previous_name eb_path bs (Suc i)), reader_at (pre @ put_binding (bs ! i)) post)"
      by (subst read_binding_reads) (auto dest: previous_name_less simp: take_Suc_conv_app_nth)
  qed simp
  then show ?thesis by simp
qed

lemma valid_public_entry:
  assumes valid: "valid_parameters p" and wf: "btree_wf (p_parameters p)" "btree_wf (p_parameter_values p)"
    and "(n, v) \<in> set (p_parameter_values p)"
  shows "\<exists>d. btree_get (p_parameters p) n = Some d \<and> \<not> pd_secret d \<and> typed_value d v \<and> ir_string n"
proof -
  from assms(4) have v: "btree_get (p_parameter_values p) n = Some v" by (simp add: bt.get_iff_entry [OF wf(2)])
  then obtain d where d: "btree_get (p_parameters p) n = Some d" "\<not> pd_secret d"
    using valid_parameters_public [OF valid wf, of n] by (auto simp: public_parameter_def)
  then have "parameter_ok (p_parameter_values p) (n, d)"
    using valid by (auto simp: valid_parameters_def bt.get_iff_entry [OF wf(1)])
  with v d show ?thesis by (auto simp: parameter_ok_def)
qed

lemma values_within_parameters:
  assumes valid: "valid_parameters p" and wf: "btree_wf (p_parameters p)" "btree_wf (p_parameter_values p)"
  shows "length (p_parameter_values p) \<le> length (p_parameters p)"
proof -
  have "fst ` set (p_parameter_values p) \<subseteq> fst ` set (p_parameters p)"
    using valid bt.contains_iff_key [OF wf(1)] by (auto simp: valid_parameters_def)
  moreover have "card (fst ` set m) = length m" if "btree_wf m" for m :: "'a btree_map"
    using that by (metis btree_wf_def distinct_card length_map list.set_map strict_sorted_iff)
  ultimately show ?thesis using wf by (metis card_mono finite_imageI List.finite_set)
qed

text \<open>The section as a whole.\<close>

definition put_parameters :: "u16 \<Rightarrow> pipeline_ir \<Rightarrow> byte list" where
  "put_parameters v p =
     (if v \<ge> 1 then put_list put_definition (p_parameters p) @ put_list put_value (p_parameter_values p)
        @ put_list put_binding (p_expressions p) else [])"

definition rust_parameters :: "pipeline_ir \<Rightarrow> bool" where
  "rust_parameters p \<longleftrightarrow> btree_wf (p_parameters p) \<and> btree_wf (p_parameter_values p) \<and>
     (\<forall>nd\<in>set (p_parameters p). rust_definition nd) \<and>
     (\<forall>nv\<in>set (p_parameter_values p). is_utf8 (fst nv) \<and> (case snd nv of PV_String s \<Rightarrow> is_utf8 s | _ \<Rightarrow> True)) \<and>
     (\<forall>b\<in>set (p_expressions p). rust_binding b)"

lemma read_parameters_reads:
  assumes valid: "valid_parameters p" and rust: "rust_parameters p"
    and zero: "v = 0 \<longrightarrow> p_parameters p = [] \<and> p_parameter_values p = [] \<and> p_expressions p = []"
  shows "read_parameters v (reader_at pre (put_parameters v p @ post)) =
    Ok (\<lparr>ps_parameters = length (p_parameters p), ps_expressions = length (p_expressions p),
         ps_context = public_context (p_parameter_values p), ps_bindings = map bound_expression (p_expressions p)\<rparr>,
      reader_at (pre @ put_parameters v p) post)"
proof (cases "1 \<le> v")
  case False
  then have "v = 0" by (simp add: word_le_nat_alt Suc_le_eq unat_gt_0)
  with zero show ?thesis by (simp add: read_parameters_def put_parameters_def public_context_def)
next
  case True
  let ?defs = "map (\<lambda>(n, d). (n, pd_type d, pd_secret d)) (p_parameters p)"
  have wf: "btree_wf (p_parameters p)" "btree_wf (p_parameter_values p)" using rust by (simp_all add: rust_parameters_def)
  have get: "btree_get ?defs n = map_option (\<lambda>d. (pd_type d, pd_secret d)) (btree_get (p_parameters p) n)" for n
    by (simp add: btree_get_map [symmetric] case_prod_unfold)
  have d: "read_times (length (p_parameters p)) (\<lambda>_. read_definition) ([], None)
      (reader_at pre (concat (map put_definition (p_parameters p)) @ post)) =
    Ok ((?defs, previous_name fst (p_parameters p) (length (p_parameters p))),
      reader_at (pre @ concat (map put_definition (p_parameters p))) post)" for pre post
    by (rule read_definitions_reads [OF wf(1), of "p_parameter_values p"])
      (use valid rust in \<open>auto simp: valid_parameters_def rust_parameters_def\<close>)
  have public: "\<exists>d. btree_get (p_parameters p) (fst nv) = Some d \<and> \<not> pd_secret d \<and> typed_value d (snd nv) \<and> ir_string (fst nv)"
    if "nv \<in> set (p_parameter_values p)" for nv
    using that valid_public_entry [OF valid wf] by (cases nv) auto
  have v: "read_times (length (p_parameter_values p)) (\<lambda>_. read_value ?defs) ([], None)
      (reader_at pre (concat (map put_value (p_parameter_values p)) @ post)) =
    Ok ((public_context (p_parameter_values p), previous_name fst (p_parameter_values p) (length (p_parameter_values p))),
      reader_at (pre @ concat (map put_value (p_parameter_values p))) post)" for pre post
  proof (rule read_values_reads [OF wf(2)], rule ballI)
    fix nv assume nv: "nv \<in> set (p_parameter_values p)"
    with rust have "is_utf8 (fst nv)" "case snd nv of PV_String s \<Rightarrow> is_utf8 s | _ \<Rightarrow> True"
      by (auto simp: rust_parameters_def)
    with public [OF nv] show "rust_string (fst nv) \<and> rust_value (snd nv) \<and>
        btree_get ?defs (fst nv) = Some (value_type (snd nv), False)"
      by (auto simp: rust_string_def rust_value_def typed_value_def accepts_value_type get)
  qed
  have b: "read_times (length (p_expressions p)) (\<lambda>_. read_binding ?defs) ([], None)
      (reader_at pre (concat (map put_binding (p_expressions p)) @ post)) =
    Ok ((map bound_expression (p_expressions p), previous_name eb_path (p_expressions p) (length (p_expressions p))),
      reader_at (pre @ concat (map put_binding (p_expressions p))) post)" for pre post
    by (rule read_bindings_reads)
      (use valid rust in \<open>auto simp: valid_parameters_def binding_ok_def rust_parameters_def public_parameter_def get\<close>)
  have c: "check_bound ?defs (public_context (p_parameter_values p)) rd = Ok ()" for rd
    using valid by (auto simp: check_bound_def ok_simps valid_parameters_def parameter_ok_def btree_contains_def
        get_public_context [OF wf(2)] split: if_splits)
  have "length (p_parameter_values p) \<le> length (p_parameters p)"
    using values_within_parameters [OF valid wf] .
  with True valid d v b c show ?thesis
    by (simp add: read_parameters_def put_parameters_def put_list_def get_count_reads valid_parameters_def)
qed

section \<open>Steps\<close>

lemma bounded_strings:
  "sha256_reference s \<Longrightarrow> ir_string s"
  "canonical_sha256 s \<Longrightarrow> ir_string s"
  "canonical_mapping_id s \<Longrightarrow> ir_string s"
  "is_valid_reference s \<Longrightarrow> ir_string s"
  "is_object_id s \<Longrightarrow> ir_string s"
  "is_valid_destination s \<Longrightarrow> ir_string s"
  "is_digest_pinned_image s \<Longrightarrow> ir_string s"
  "is_commit_id s \<Longrightarrow> ir_string s"
  "is_status_context s \<Longrightarrow> ir_string s"
  by (auto simp: ir_string_def sha256_reference_def canonical_sha256_def canonical_mapping_id_def is_valid_reference_def
      is_object_id_def is_valid_destination_def is_digest_pinned_image_def is_commit_id_def is_status_context_def
      dest!: strip_prefix_eq_Some [THEN iffD1] split: option.splits if_splits)

definition rust_process :: "process_step \<Rightarrow> bool" where
  "rust_process p \<longleftrightarrow> is_utf8 (pr_program p) \<and> (\<forall>a\<in>set (pr_args p). is_utf8 a) \<and>
     (\<forall>(k, x)\<in>set (pr_env p). is_utf8 k \<and> is_utf8 x) \<and> btree_wf (pr_env p)"

definition rust_connector :: "connector_intent_step \<Rightarrow> bool" where
  "rust_connector c \<longleftrightarrow> is_utf8 (cn_mapping_id c) \<and> is_utf8 (cn_mapping_digest c) \<and> is_utf8 (cn_effect_key_template c) \<and>
     is_utf8 (cn_downstream_control_digest c) \<and>
     (\<forall>m\<in>{cn_public_input_schema c, cn_protected_secret_ref_schema c, cn_expected_public_result_schema c}.
        btree_wf m \<and> (\<forall>(k, _)\<in>set m. is_utf8 k))"

definition rust_cache :: "cache_intent_spec \<Rightarrow> bool" where
  "rust_cache c \<longleftrightarrow> is_utf8 (ci_mapping_id c) \<and> is_utf8 (ci_mapping_digest c) \<and> is_utf8 (ci_logical_key_sha256 c) \<and>
     is_utf8 (ci_input_sha256 c) \<and> (\<forall>s. ci_content_base64 c = Some s \<longrightarrow> is_utf8 s)"

definition rust_input :: "input_intent_spec \<Rightarrow> bool" where
  "rust_input i \<longleftrightarrow> is_utf8 (ii_mapping_id i) \<and> is_utf8 (ii_mapping_digest i)"

definition rust_checkout :: "checkout_step_spec \<Rightarrow> bool" where
  "rust_checkout c \<longleftrightarrow> is_utf8 (co_mapping_id c) \<and> is_utf8 (co_mapping_digest c) \<and> is_utf8 (co_reference c) \<and>
     is_utf8 (co_commit c) \<and> is_utf8 (co_destination c)"

definition rust_step :: "step \<Rightarrow> bool" where
  "rust_step s =
     (case s of
        Process p \<Rightarrow> rust_process p
      | ConnectorIntent c \<Rightarrow> rust_connector c
      | CacheIntent c \<Rightarrow> rust_cache (cs_intent c)
      | InputIntent c \<Rightarrow> rust_input (is_intent c)
      | Checkout c \<Rightarrow> rust_checkout (ck_spec c))"

text \<open>The one string that validation does not bound.\<close>

definition bounded_mapping :: "step \<Rightarrow> bool" where
  "bounded_mapping s = (case s of ConnectorIntent c \<Rightarrow> ir_string (cn_mapping_id c) | _ \<Rightarrow> True)"

lemma indexed_take_Suc: "i < length xs \<Longrightarrow> indexed n f (take (Suc i) xs) = indexed n f (take i xs) @ f (n + i) (xs ! i)"
proof (induction xs arbitrary: n i)
  case (Cons x xs)
  then show ?case by (cases i) auto
qed simp

lemma read_arguments_reads:
  assumes "\<forall>a\<in>set as. rust_string a"
  shows "read_times (length as) (read_argument base) mf (reader_at pre (concat (map put_string as) @ post)) =
    Ok (btree_insert_all mf (map (\<lambda>(k, a). (argument_path base k, a)) (enumerate 0 as)),
      reader_at (pre @ concat (map put_string as)) post)"
proof -
  let ?f = "\<lambda>k a. [(argument_path base k, a)]"
  have all: "indexed 0 ?f as = map (\<lambda>(k, a). (argument_path base k, a)) (enumerate 0 as)"
    by (simp add: indexed_def case_prod_unfold concat_map_singleton)
  have "read_times (length as) (read_argument base) mf (reader_at pre (concat (map put_string as) @ post)) =
    Ok (btree_insert_all mf (indexed 0 ?f (take (length as) as)), reader_at (pre @ concat (map put_string as)) post)"
    by (rule read_times_reads [where S = "\<lambda>i. btree_insert_all mf (indexed 0 ?f (take i as))"])
      (use assms in \<open>simp_all add: read_argument_def reads_simps indexed_take_Suc btree_insert_all_append\<close>)
  then show ?thesis by (simp add: all)
qed

lemma read_environment_reads:
  assumes "btree_wf env" and "\<forall>(k, x)\<in>set env. rust_string k \<and> rust_string x"
  shows "read_times (length env) (\<lambda>_. read_environment base) (mf, None)
      (reader_at pre (concat (map (\<lambda>(k, x). put_string k @ put_string x) env) @ post)) =
    Ok ((btree_insert_all mf (map (\<lambda>(n, v). (environment_path base n, v)) env), previous_name fst env (length env)),
      reader_at (pre @ concat (map (\<lambda>(k, x). put_string k @ put_string x) env)) post)"
proof -
  let ?f = "\<lambda>(n, v). [(environment_path base n, v)]"
  have all: "concat (map ?f env) = map (\<lambda>(n, v). (environment_path base n, v)) env"
    by (simp add: case_prod_unfold concat_map_singleton)
  have "read_times (length env) (\<lambda>_. read_environment base) (mf, None)
      (reader_at pre (concat (map (\<lambda>(k, x). put_string k @ put_string x) env) @ post)) =
    Ok ((inserted mf ?f env (length env), previous_name fst env (length env)),
      reader_at (pre @ concat (map (\<lambda>(k, x). put_string k @ put_string x) env)) post)"
  proof (rule read_times_reads [where S = "\<lambda>i. (inserted mf ?f env i, previous_name fst env i)"])
    fix i pre post assume i: "i < length env"
    obtain k x where kx: "env ! i = (k, x)" by (cases "env ! i")
    have "(k, x) \<in> set env" using i kx nth_mem by metis
    with assms(2) have s: "rust_string k" "rust_string x" by auto
    have "q < k" if "previous_name fst env i = Some q" for q
      using previous_name_less [of fst env i q] assms(1) i that kx by (simp add: btree_wf_def)
    with s i kx show "read_environment base (inserted mf ?f env i, previous_name fst env i)
          (reader_at pre ((\<lambda>(k, x). put_string k @ put_string x) (env ! i) @ post)) =
        Ok ((inserted mf ?f env (Suc i), previous_name fst env (Suc i)),
          reader_at (pre @ (\<lambda>(k, x). put_string k @ put_string x) (env ! i)) post)"
      by (simp add: read_environment_def get_string_after_reads reads_simps)
  qed simp
  then show ?thesis by (simp only: inserted_simps all)
qed

lemma read_process_reads:
  assumes ok: "process_ok v p" and rust: "rust_process p"
  shows "read_process v base mf (reader_at pre (put_process v p @ post)) =
    Ok (btree_insert_all mf (step_fields base (Process p)), reader_at (pre @ put_process v p) post)"
proof -
  have strings: "rust_string (pr_program p)" "\<forall>a\<in>set (pr_args p). rust_string a"
      "\<forall>(k, x)\<in>set (pr_env p). rust_string k \<and> rust_string x"
    using assms by (auto simp: process_ok_def rust_process_def rust_string_def)
  have mode: "put_process_mode (pr_mode p) = [b] \<Longrightarrow> b \<le> 2" for b
    by (auto simp: put_process_mode_def word_le_nat_alt split: process_mode.splits)
  obtain b where b: "put_process_mode (pr_mode p) = [b]" by (simp add: put_process_mode_def)
  have len: "length (pr_args p) \<le> MAX_STEPS" "length (pr_env p) \<le> MAX_STEPS" and wf: "btree_wf (pr_env p)"
    using assms by (simp_all add: process_ok_def rust_process_def)
  show ?thesis
    using strings mode [OF b] len
    by (simp add: read_process_def put_process_def put_list_def b reads_simps read_arguments_reads
        read_environment_reads [OF wf] step_fields_def btree_insert_all_append)
qed

lemma read_checkout_reads:
  assumes "validate_checkout c = Ok ()" and "rust_checkout c"
  shows "read_checkout base mf (reader_at pre (put_checkout c @ post)) =
    Ok (btree_insert mf (commit_path base) (co_commit c), reader_at (pre @ put_checkout c) post)"
proof -
  have "rust_string (co_mapping_id c)" "rust_string (co_mapping_digest c)" "rust_string (co_reference c)"
      "rust_string (co_commit c)" "rust_string (co_destination c)"
    using assms by (auto simp: validate_checkout_def rust_checkout_def rust_string_def intro: bounded_strings split: if_splits)
  with assms(1) show ?thesis by (cases c) (simp add: read_checkout_def put_checkout_def reads_simps)
qed

lemma read_input_intent_reads:
  assumes "validate_input_intent c = Ok ()" and "rust_input c"
  shows "read_input_intent (reader_at pre (put_input_intent c @ post)) = Ok ((), reader_at (pre @ put_input_intent c) post)"
proof -
  have "rust_string (ii_mapping_id c)" "rust_string (ii_mapping_digest c)"
    using assms by (auto simp: validate_input_intent_def rust_input_def rust_string_def intro: bounded_strings split: if_splits)
  with assms(1) show ?thesis by (cases c) (simp add: read_input_intent_def put_input_intent_def reads_simps)
qed

lemma read_cache_intent_reads:
  assumes "validate_cache_intent ext c = Ok ()" and "rust_cache c"
  shows "read_cache_intent ext (reader_at pre (put_cache_intent c @ post)) = Ok ((), reader_at (pre @ put_cache_intent c) post)"
proof -
  have "\<forall>s. ci_content_base64 c = Some s \<longrightarrow> length s \<le> 16384"
    using assms(1) by (auto simp: validate_cache_intent_def decoded_content_def and_then_eq_Ok
        split: if_splits cache_operation.splits option.splits)
  then have "rust_string (ci_mapping_id c)" "rust_string (ci_mapping_digest c)" "rust_string (ci_logical_key_sha256 c)"
      "rust_string (ci_input_sha256 c)" "\<forall>s. ci_content_base64 c = Some s \<longrightarrow> rust_string s"
    using assms by (auto simp: validate_cache_intent_def rust_cache_def rust_string_def ir_string_def [of "the (ci_content_base64 c)"]
        intro: bounded_strings split: if_splits) (simp add: ir_string_def)
  with assms(1) show ?thesis
    by (cases "ci_operation c"; cases c) (simp_all add: read_cache_intent_def put_cache_intent_def reads_simps)
qed

lemma read_schema_reads:
  assumes ok: "schema_fields_ok m" and wf: "btree_wf m" and utf8: "\<forall>(k, _)\<in>set m. is_utf8 k"
    and only: "strings_only \<Longrightarrow> \<forall>(_, t)\<in>set m. t = J_String"
  shows "read_schema (d, strings_only) (reader_at pre (put_field_schema m @ post)) =
    Ok ((), reader_at (pre @ put_field_schema m) post)"
proof -
  let ?put = "\<lambda>(name, t). put_string name @ [field_type_code t]"
  have code: "1 \<le> field_type_code t" "field_type_code t \<le> 6" "field_type_code J_String = 6" for t
    by (cases t; simp add: field_type_code_def word_le_nat_alt)+
  have "read_times (length m) (\<lambda>_. read_schema_field d strings_only) None (reader_at pre (concat (map ?put m) @ post)) =
    Ok (previous_name fst m (length m), reader_at (pre @ concat (map ?put m)) post)" for pre
  proof (rule read_times_reads [where S = "previous_name fst m"])
    fix i pre post assume i: "i < length m"
    obtain k t where kt: "m ! i = (k, t)" by (cases "m ! i")
    have "(k, t) \<in> set m" using i kt nth_mem by metis
    with ok utf8 only have k: "rust_string k" "is_mapping_identifier k" "strings_only \<longrightarrow> t = J_String"
      by (auto simp: schema_fields_ok_def rust_string_def is_mapping_identifier_def ir_identifier_def)
    have "q < k" if "previous_name fst m i = Some q" for q
      using previous_name_less [of fst m i q] wf i that kt by (simp add: btree_wf_def)
    with k kt code show "read_schema_field d strings_only (previous_name fst m i) (reader_at pre (?put (m ! i) @ post)) =
        Ok (previous_name fst m (Suc i), reader_at (pre @ ?put (m ! i)) post)"
      by (auto simp: read_schema_field_def get_string_after_reads)
  qed simp
  moreover have "length m \<le> MAX_PARAMETERS" using ok by (simp add: schema_fields_ok_def)
  ultimately show ?thesis
    by (simp add: read_schema_def put_field_schema_def put_list_def get_count_reads)
qed

lemma check_sha256_reference_Ok: "sha256_reference s \<Longrightarrow> check_sha256_reference s rd = Ok ()"
  by (auto simp: check_sha256_reference_def sha256_reference_def canonical_sha256_def split: option.splits)

lemma read_connector_reads:
  assumes ok: "connector_ok c" and rust: "rust_connector c" and "ir_string (cn_mapping_id c)"
  shows "read_connector (reader_at pre (put_connector c @ post)) = Ok ((), reader_at (pre @ put_connector c) post)"
proof -
  have strings: "rust_string (cn_mapping_id c)" "rust_string (cn_mapping_digest c)" "rust_string (cn_effect_key_template c)"
      "rust_string (cn_downstream_control_digest c)" "is_mapping_identifier (cn_mapping_id c)"
    using assms by (auto simp: connector_ok_def rust_connector_def rust_string_def is_mapping_identifier_def ir_identifier_def
        intro: bounded_strings)
  obtain b where b: "put_effect_class (cn_effect_class c) = [b]" "1 \<le> b" "b \<le> 3"
    by (cases "cn_effect_class c") (simp_all add: put_effect_class_def word_le_nat_alt)
  have policy: "put_ambiguity_policy (cn_ambiguity_policy c) = [1]"
    by (cases "cn_ambiguity_policy c") (simp add: put_ambiguity_policy_def)
  have timeout: "\<not> (cn_timeout_seconds c = 0 \<or> cn_timeout_seconds c > 86400)"
    using ok by (auto simp: connector_ok_def)
  have only: "\<forall>(_, t)\<in>set (cn_protected_secret_ref_schema c). t = J_String" using ok by (simp add: connector_ok_def)
  have schemas: "read_schemas [(''public input'', False), (''protected secret reference'', True), (''public result'', False)]
      (reader_at pre (put_field_schema (cn_public_input_schema c) @ put_field_schema (cn_protected_secret_ref_schema c)
        @ put_field_schema (cn_expected_public_result_schema c) @ post)) =
    Ok ((), reader_at (pre @ put_field_schema (cn_public_input_schema c) @ put_field_schema (cn_protected_secret_ref_schema c)
        @ put_field_schema (cn_expected_public_result_schema c)) post)" for pre post
    using ok rust only by (simp add: read_schema_reads connector_ok_def rust_connector_def)
  show ?thesis
    using strings b policy timeout schemas ok
    by (simp add: read_connector_def put_connector_def reads_simps check_sha256_reference_Ok connector_ok_def
        del: read_schemas.simps)
qed

definition checkout_count :: "step \<Rightarrow> nat" where
  "checkout_count s = (if is_checkout s then 1 else 0)"

lemma read_step_reads:
  assumes ok: "step_ok ext v s" and rust: "rust_step s" and bounded: "bounded_mapping s"
    and container: "container \<longrightarrow> container_step s" and single: "is_single_step s \<longrightarrow> n = 1"
    and checkouts: "is_checkout s \<longrightarrow> k = 0"
  shows "read_step ext v container n i j (mf, k) (reader_at pre (put_step v s @ post)) =
    Ok ((btree_insert_all mf (step_fields (step_path i j) s), k + checkout_count s), reader_at (pre @ put_step v s) post)"
proof (cases s)
  case (Process p)
  with ok rust show ?thesis
    by (simp add: read_step_def put_step_def read_process_reads step_ok_def rust_step_def checkout_count_def is_checkout_def)
next
  case (ConnectorIntent c)
  with assms show ?thesis
    by (simp add: read_step_def put_step_def read_connector_reads step_ok_def rust_step_def bounded_mapping_def
        container_step_def is_single_step_def checkout_count_def is_checkout_def step_fields_def)
next
  case (CacheIntent c)
  with assms show ?thesis
    by (simp add: read_step_def put_step_def read_cache_intent_reads step_ok_def rust_step_def
        container_step_def is_single_step_def checkout_count_def is_checkout_def step_fields_def)
next
  case (InputIntent c)
  with assms show ?thesis
    by (simp add: read_step_def put_step_def read_input_intent_reads step_ok_def rust_step_def
        container_step_def is_single_step_def checkout_count_def is_checkout_def step_fields_def)
next
  case (Checkout c)
  with assms show ?thesis
    by (simp add: read_step_def put_step_def read_checkout_reads step_ok_def rust_step_def
        container_step_def is_single_step_def checkout_count_def is_checkout_def step_fields_def)
qed

section \<open>Stages\<close>

definition checkouts_before :: "step list \<Rightarrow> nat \<Rightarrow> nat" where
  "checkouts_before ss j = length (filter is_checkout (take j ss))"

lemma checkouts_before_simps [simp]:
  "checkouts_before ss 0 = 0"
  "j < length ss \<Longrightarrow> checkouts_before ss (Suc j) = checkouts_before ss j + checkout_count (ss ! j)"
  by (simp_all add: checkouts_before_def checkout_count_def take_Suc_conv_app_nth)

lemma first_checkout:
  assumes "length (filter is_checkout ss) \<le> 1" and "j < length ss" and "is_checkout (ss ! j)"
  shows "checkouts_before ss j = 0"
proof -
  have "filter is_checkout ss = filter is_checkout (take j ss) @ filter is_checkout (ss ! j # drop (Suc j) ss)"
    using assms(2) by (metis filter_append id_take_nth_drop)
  with assms show ?thesis by (simp add: checkouts_before_def)
qed

lemma read_steps_reads:
  assumes steps: "\<forall>st\<in>set ss. step_ok ext v st \<and> rust_step st \<and> bounded_mapping st \<and> (container \<longrightarrow> container_step st)"
    and single: "list_ex is_single_step ss \<longrightarrow> length ss = 1" and one: "length (filter is_checkout ss) \<le> 1"
  shows "read_times (length ss) (read_step ext v container (length ss) i) (mf, 0) (reader_at pre (concat (map (put_step v) ss) @ post)) =
    Ok ((btree_insert_all mf (indexed 0 (\<lambda>j. step_fields (step_path i j)) ss), checkouts_before ss (length ss)),
      reader_at (pre @ concat (map (put_step v) ss)) post)"
proof -
  let ?S = "\<lambda>j. (btree_insert_all mf (indexed 0 (\<lambda>j. step_fields (step_path i j)) (take j ss)), checkouts_before ss j)"
  have "read_times (length ss) (read_step ext v container (length ss) i) (mf, 0) (reader_at pre (concat (map (put_step v) ss) @ post)) =
    Ok (?S (length ss), reader_at (pre @ concat (map (put_step v) ss)) post)"
  proof (rule read_times_reads [where S = ?S])
    fix j pre post assume j: "j < length ss"
    then have "ss ! j \<in> set ss" by simp
    then show "read_step ext v container (length ss) i j (?S j) (reader_at pre (put_step v (ss ! j) @ post)) =
        Ok (?S (Suc j), reader_at (pre @ put_step v (ss ! j)) post)"
      using steps single j first_checkout [OF one j]
      by (subst read_step_reads) (auto simp: indexed_take_Suc btree_insert_all_append list_ex_iff)
  qed simp
  then show ?thesis by simp
qed

lemma read_image_reads:
  assumes "stage_image_ok v s" and "\<forall>x. sg_image s = Some x \<longrightarrow> is_utf8 x"
  shows "read_image v (reader_at pre ((if v \<ge> 6 then put_option put_string (sg_image s) else []) @ post)) =
    Ok (sg_image s \<noteq> None, reader_at (pre @ (if v \<ge> 6 then put_option put_string (sg_image s) else [])) post)"
proof (cases "sg_image s")
  case None
  then show ?thesis by (simp add: read_image_def put_option_def reads_simps)
next
  case (Some x)
  with assms have "is_digest_pinned_image x" "rust_string x" "6 \<le> v"
    by (auto simp: stage_image_ok_def rust_string_def intro: bounded_strings)
  with Some show ?thesis by (simp add: read_image_def put_option_def reads_simps)
qed

definition rust_artifact :: "artifact_spec \<Rightarrow> bool" where
  "rust_artifact a \<longleftrightarrow> is_utf8 (as_name a) \<and> (\<forall>x\<in>set (as_paths a). is_utf8 x)"

lemma read_artifact_reads:
  assumes "validate_artifact a = Ok ()" and "rust_artifact a"
  shows "read_artifact specs (reader_at pre (put_artifact a @ post)) = Ok (specs @ [a], reader_at (pre @ put_artifact a) post)"
proof -
  have s: "rust_string (as_name a)" "\<forall>x\<in>set (as_paths a). rust_string x" "length (as_paths a) \<le> 32"
    using assms by (auto simp: validate_artifact_def validate_name_def validate_pattern_def rust_artifact_def rust_string_def
        ir_string_def ok_simps split: if_splits)
  have "read_times (length (as_paths a)) (\<lambda>_. read_pattern) [] (reader_at pre (concat (map put_string (as_paths a)) @ post)) =
      Ok (take (length (as_paths a)) (as_paths a), reader_at (pre @ concat (map put_string (as_paths a))) post)" for pre
    by (rule read_times_reads [where S = "\<lambda>i. take i (as_paths a)"])
      (use s(2) in \<open>simp_all add: read_pattern_def reads_simps take_Suc_conv_app_nth\<close>)
  with s show ?thesis by (simp add: read_artifact_def put_artifact_def put_list_def get_count_reads reads_simps)
qed

lemma read_artifacts_reads:
  assumes ok: "as \<noteq> [] \<longrightarrow> 8 \<le> v \<and> validate_declarations as = Ok ()" and rust: "\<forall>a\<in>set as. rust_artifact a"
  shows "read_artifacts v (reader_at pre ((if v \<ge> 8 then put_list put_artifact as else []) @ post)) =
    Ok ((), reader_at (pre @ (if v \<ge> 8 then put_list put_artifact as else [])) post)"
proof -
  have valid: "validate_declarations as = Ok ()" using ok by (cases "as = []") (simp_all add: validate_declarations_def)
  then have as: "length as \<le> 16" "\<forall>a\<in>set as. validate_artifact a = Ok ()"
    by (auto simp: validate_declarations_def ok_simps all_set_conv_all_nth split: if_splits)
  have "read_times (length as) (\<lambda>_. read_artifact) [] (reader_at pre (concat (map put_artifact as) @ post)) =
      Ok (take (length as) as, reader_at (pre @ concat (map put_artifact as)) post)" for pre
    by (rule read_times_reads [where S = "\<lambda>i. take i as"])
      (use as rust in \<open>simp_all add: read_artifact_reads take_Suc_conv_app_nth\<close>)
  with as valid show ?thesis by (simp add: read_artifacts_def put_list_def get_count_reads)
qed

definition rust_stage :: "stage \<Rightarrow> bool" where
  "rust_stage s \<longleftrightarrow> is_utf8 (sg_id s) \<and> is_utf8 (sg_name s) \<and> (\<forall>x. sg_image s = Some x \<longrightarrow> is_utf8 x) \<and>
     (\<forall>st\<in>set (sg_steps s). rust_step st) \<and> (\<forall>a\<in>set (sg_artifacts s). rust_artifact a)"

lemma image_steps: "stage_image_ok v s \<Longrightarrow> sg_image s \<noteq> None \<Longrightarrow> st \<in> set (sg_steps s) \<Longrightarrow> container_step st"
  by (fastforce simp: stage_image_ok_def container_step_def split: step.splits)

lemma read_stage_reads:
  assumes ok: "stage_ok ext v s" and rust: "rust_stage s" and bounded: "\<forall>st\<in>set (sg_steps s). bounded_mapping st"
    and steps: "n + length (sg_steps s) \<le> MAX_STEPS"
  shows "read_stage ext v i (mf, n) (reader_at pre (put_stage v s @ post)) =
    Ok ((btree_insert_all mf (stage_fields i s), n + length (sg_steps s)), reader_at (pre @ put_stage v s) post)"
proof -
  have strings: "rust_string (sg_id s)" "rust_string (sg_name s)"
    using ok rust by (auto simp: stage_ok_def rust_stage_def rust_string_def)
  have img: "stage_image_ok v s" "\<forall>x. sg_image s = Some x \<longrightarrow> is_utf8 x"
    using ok rust by (auto simp: stage_ok_def rust_stage_def)
  have body: "read_times (length (sg_steps s)) (read_step ext v (sg_image s \<noteq> None) (length (sg_steps s)) i) (mf, 0)
      (reader_at pre (concat (map (put_step v) (sg_steps s)) @ post)) =
    Ok ((btree_insert_all mf (stage_fields i s), checkouts_before (sg_steps s) (length (sg_steps s))),
      reader_at (pre @ concat (map (put_step v) (sg_steps s))) post)" for pre post
    unfolding stage_fields_indexed
    by (rule read_steps_reads) (use ok rust bounded image_steps [OF img(1)] in \<open>auto simp: stage_ok_def rust_stage_def\<close>)
  have arts: "read_artifacts v (reader_at pre ((if v \<ge> 8 then put_list put_artifact (sg_artifacts s) else []) @ post)) =
    Ok ((), reader_at (pre @ (if v \<ge> 8 then put_list put_artifact (sg_artifacts s) else [])) post)" for pre post
    by (rule read_artifacts_reads) (use ok rust in \<open>auto simp: stage_ok_def rust_stage_def\<close>)
  have count: "length (sg_steps s) \<le> MAX_STEPS" using steps by simp
  show ?thesis
    unfolding read_stage_def put_stage_def prod.case
    using strings body arts steps count read_image_reads [OF img]
    by (simp add: reads_simps put_list_def [of "put_step v"] get_count_reads del: if_image_distrib if_split)
qed

section \<open>Notification targets\<close>

definition rust_target :: "notify_target \<Rightarrow> bool" where
  "rust_target t =
     (case t of
        GithubStatus m c x r \<Rightarrow> is_utf8 m \<and> is_utf8 c \<and> is_utf8 x \<and> (\<forall>y. r = Some y \<longrightarrow> is_utf8 y)
      | Webhook m \<Rightarrow> is_utf8 m)"

lemma repository_bounded: "is_repository_identity s \<Longrightarrow> ir_string s"
  by (auto simp: is_repository_identity_def repository_part_ok_def ir_string_def split_once_eq_Some split: option.splits)

lemma read_target_reads:
  assumes "validate_target t = Ok ()" and "rust_target t"
  shows "read_target i (mf, ts) (reader_at pre (put_target t @ post)) =
    Ok ((btree_insert_all mf (notify_fields i t), ts @ [t]), reader_at (pre @ put_target t) post)"
proof (cases t)
  case (GithubStatus m c x r)
  with assms have "rust_string m" "rust_string c" "rust_string x" "\<forall>y. r = Some y \<longrightarrow> rust_string y"
    by (auto simp: validate_target_def nt_mapping_id_def rust_target_def rust_string_def
        intro: bounded_strings repository_bounded split: if_splits)
  with GithubStatus show ?thesis by (simp add: read_target_def put_target_def reads_simps notify_fields_def)
next
  case (Webhook m)
  with assms have "rust_string m"
    by (auto simp: validate_target_def nt_mapping_id_def rust_target_def rust_string_def intro: bounded_strings split: if_splits)
  with Webhook show ?thesis by (simp add: read_target_def put_target_def reads_simps notify_fields_def)
qed

lemma read_notify_reads:
  assumes ok: "ts \<noteq> [] \<longrightarrow> 9 \<le> v \<and> validate_targets ts = Ok ()" and rust: "\<forall>t\<in>set ts. rust_target t"
  shows "read_notify v mf (reader_at pre ((if v \<ge> 9 then put_list put_target ts else []) @ post)) =
    Ok (btree_insert_all mf (indexed 0 notify_fields ts), reader_at (pre @ (if v \<ge> 9 then put_list put_target ts else [])) post)"
proof -
  have valid: "validate_targets ts = Ok ()" using ok by (cases "ts = []") (simp_all add: validate_targets_def)
  then have ts: "length ts \<le> 8" "\<forall>t\<in>set ts. validate_target t = Ok ()"
    by (auto simp: validate_targets_def ok_simps split: if_splits)
  let ?S = "\<lambda>i. (btree_insert_all mf (indexed 0 notify_fields (take i ts)), take i ts)"
  have "read_times (length ts) read_target (mf, []) (reader_at pre (concat (map put_target ts) @ post)) =
      Ok (?S (length ts), reader_at (pre @ concat (map put_target ts)) post)" for pre
    by (rule read_times_reads [where S = ?S])
      (use ts rust in \<open>simp_all add: read_target_reads take_Suc_conv_app_nth indexed_take_Suc btree_insert_all_append
        flip: take_Suc_conv_app_nth\<close>)
  with ts valid ok show ?thesis by (cases "v \<ge> 9") (auto simp: read_notify_def put_list_def get_count_reads)
qed

section \<open>The document\<close>

lemma check_binding_reads:
  "binding_ok params cxt mf b \<Longrightarrow> check_binding cxt mf rd (bound_expression b) = Ok ()"
  by (auto simp: binding_ok_def check_binding_def bound_expression_def evaluate_expression_Ok [THEN iffD2])

definition rust_pipeline :: "pipeline_ir \<Rightarrow> bool" where
  "rust_pipeline p \<longleftrightarrow> is_utf8 (p_name p) \<and> rust_parameters p \<and> (\<forall>s\<in>set (p_stages p). rust_stage s) \<and>
     (\<forall>t\<in>set (p_notify p). rust_target t)"

definition bounded_mappings :: "pipeline_ir \<Rightarrow> bool" where
  "bounded_mappings p \<longleftrightarrow> (\<forall>s\<in>set (p_stages p). \<forall>st\<in>set (sg_steps s). bounded_mapping st)"

definition steps_before :: "stage list \<Rightarrow> nat \<Rightarrow> nat" where
  "steps_before ss i = sum_list (map (length \<circ> sg_steps) (take i ss))"

lemma steps_before_simps [simp]:
  "steps_before ss 0 = 0"
  "i < length ss \<Longrightarrow> steps_before ss (Suc i) = steps_before ss i + length (sg_steps (ss ! i))"
  "steps_before ss (length ss) = sum_list (map (length \<circ> sg_steps) ss)"
  by (simp_all add: steps_before_def take_Suc_conv_app_nth)

lemma steps_before_le: "steps_before ss i \<le> sum_list (map (length \<circ> sg_steps) ss)"
proof -
  have "map (length \<circ> sg_steps) ss = map (length \<circ> sg_steps) (take i ss) @ map (length \<circ> sg_steps) (drop i ss)"
    by (metis append_take_drop_id map_append)
  then show ?thesis by (simp add: steps_before_def)
qed

lemma read_stages_reads:
  assumes "\<forall>s\<in>set ss. stage_ok ext v s \<and> rust_stage s \<and> (\<forall>st\<in>set (sg_steps s). bounded_mapping st)"
    and "sum_list (map (length \<circ> sg_steps) ss) \<le> MAX_STEPS"
  shows "read_times (length ss) (read_stage ext v) ([], 0) (reader_at pre (concat (map (put_stage v) ss) @ post)) =
    Ok ((btree_insert_all [] (indexed 0 stage_fields ss), sum_list (map (length \<circ> sg_steps) ss)),
      reader_at (pre @ concat (map (put_stage v) ss)) post)"
proof -
  let ?S = "\<lambda>i. (btree_insert_all [] (indexed 0 stage_fields (take i ss)), steps_before ss i)"
  have "read_times (length ss) (read_stage ext v) ([], 0) (reader_at pre (concat (map (put_stage v) ss) @ post)) =
    Ok (?S (length ss), reader_at (pre @ concat (map (put_stage v) ss)) post)"
  proof (rule read_times_reads [where S = ?S])
    fix i pre post assume i: "i < length ss"
    then have "ss ! i \<in> set ss" by simp
    with assms(1) have "stage_ok ext v (ss ! i)" "rust_stage (ss ! i)" "\<forall>st\<in>set (sg_steps (ss ! i)). bounded_mapping st"
      by blast+
    moreover have "steps_before ss i + length (sg_steps (ss ! i)) \<le> MAX_STEPS"
      using steps_before_le [of ss "Suc i"] i assms(2) by simp
    ultimately show "read_stage ext v i (?S i) (reader_at pre (put_stage v (ss ! i) @ post)) =
        Ok (?S (Suc i), reader_at (pre @ put_stage v (ss ! i)) post)"
      using i by (simp add: read_stage_reads indexed_take_Suc btree_insert_all_append)
  qed simp
  then show ?thesis by simp
qed

definition summary_of :: "externals \<Rightarrow> pipeline_ir \<Rightarrow> canonical_summary" where
  "summary_of ext p =
     \<lparr>cm_schema = p_schema p, cm_pipeline_name = p_name p, cm_parameters = length (p_parameters p),
      cm_expressions = length (p_expressions p), cm_stages = length (p_stages p),
      cm_steps = sum_list (map (length \<circ> sg_steps) (p_stages p)), cm_sha256 = sha256 ext (encode_pipeline p)\<rparr>"

lemma rd_offset_reader_at: "rd_offset (reader_at pre post) = length pre"
  by (simp add: reader_at_def)

lemma encode_pipeline_parts:
  "encode_pipeline p = MAGIC @ be_u16 (major (p_schema p)) @ be_u16 (minor (p_schema p)) @ put_string (p_name p)
     @ put_parameters (minor (p_schema p)) p @ put_list (put_stage (minor (p_schema p))) (p_stages p)
     @ (if minor (p_schema p) \<ge> 9 then put_list put_target (p_notify p) else [])"
  by (simp add: encode_pipeline_def put_parameters_def Let_def)


lemma sample_rust: "rust_pipeline (sample_pipeline ''b'')" "bounded_mappings (sample_pipeline ''b'')"
  by (simp_all add: rust_pipeline_def rust_parameters_def sample_pipeline_def sample_parameters_def sample_stage_def
      sample_process_def btree_wf_def rust_definition_def rust_value_def rust_binding_def rust_stage_def rust_step_def
      rust_process_def bounded_mappings_def bounded_mapping_def bounded_value_def default_string_limit
      rust_string_def ir_string_def)


end
