(* ===== verification/Canonical_Identity.thy ===== *)
theory Canonical_Identity
  imports Canonical_Roundtrip
begin

text \<open>
  What the semantic digest identifies: the canonical bytes determine a pipeline up to its provenance
  and its source spans. The contract of a writer that leaves out a part of its value is the locale
  \<open>erased_code\<close>, of which a prefix code is the case that leaves out nothing.
\<close>

section \<open>Codes that leave out a part of the value\<close>

definition short :: "string \<Rightarrow> bool" where
  "short s \<longleftrightarrow> length s < 2 ^ 32"

lemma put_u32_prefix:
  assumes "m < 2 ^ 32" and "n < 2 ^ 32"
  shows "put_u32 m @ r = put_u32 n @ s \<longleftrightarrow> m = n \<and> r = s"
proof -
  have "unat (word_of_nat m :: u32) = m" "unat (word_of_nat n :: u32) = n" using assms by (simp_all add: unat_of_nat)
  then have "(word_of_nat m :: u32) = word_of_nat n \<longleftrightarrow> m = n" by metis
  then show ?thesis by (simp add: put_u32_def fixed_width_prefix)
qed

locale erased_code =
  fixes enc :: "'a \<Rightarrow> byte list" and fits :: "'a \<Rightarrow> bool" and erase :: "'a \<Rightarrow> 'b"
  assumes erased: "fits x \<Longrightarrow> fits y \<Longrightarrow> enc x @ r = enc y @ s \<longleftrightarrow> erase x = erase y \<and> r = s"
begin

lemma erased_concat:
  "\<forall>x\<in>set xs. fits x \<Longrightarrow> \<forall>y\<in>set ys. fits y \<Longrightarrow> length xs = length ys \<Longrightarrow>
   concat (map enc xs) @ r = concat (map enc ys) @ s \<longleftrightarrow> map erase xs = map erase ys \<and> r = s"
proof (induction xs ys rule: list_induct2')
  case (4 x xs y ys)
  then show ?case using erased [of x y] by auto
qed auto

lemma erased_list:
  assumes "\<forall>x\<in>set xs. fits x" and "\<forall>y\<in>set ys. fits y" and "length xs < 2 ^ 32" and "length ys < 2 ^ 32"
  shows "put_list enc xs @ r = put_list enc ys @ s \<longleftrightarrow> map erase xs = map erase ys \<and> r = s"
proof (cases "length xs = length ys")
  case True
  then show ?thesis using erased_concat [OF assms(1,2)] assms(3,4) by (simp add: put_list_def put_u32_prefix)
next
  case False
  then have "map erase xs \<noteq> map erase ys" by (metis length_map)
  with False show ?thesis using assms(3,4) by (simp add: put_list_def put_u32_prefix)
qed

lemma erased_list_eq:
  assumes "\<forall>x\<in>set xs. fits x" and "\<forall>y\<in>set ys. fits y" and "length xs < 2 ^ 32" and "length ys < 2 ^ 32"
  shows "put_list enc xs = put_list enc ys \<longleftrightarrow> map erase xs = map erase ys"
  using erased_list [OF assms, of "[]" "[]"] by simp

lemma erased_option:
  assumes "\<forall>x. a = Some x \<longrightarrow> fits x" and "\<forall>y. b = Some y \<longrightarrow> fits y"
  shows "put_option enc a @ r = put_option enc b @ s \<longleftrightarrow> map_option erase a = map_option erase b \<and> r = s"
  using assms by (cases a; cases b) (auto simp: put_option_def erased)

end

sublocale prefix_code \<subseteq> whole: erased_code enc fits "\<lambda>x. x"
  by unfold_locales (rule prefix_iff)

section \<open>Leaves\<close>

interpretation short_string: prefix_code put_string short
  by unfold_locales (auto simp: put_string_def short_def put_u32_prefix fixed_width_prefix as_bytes_inject
      append_eq_append_conv)

lemma put_flag_prefix: "put_flag b @ r = put_flag c @ s \<longleftrightarrow> b = c \<and> r = s"
  by (simp add: put_flag_def)

lemma put_parameter_type_prefix: "put_parameter_type t @ r = put_parameter_type u @ s \<longleftrightarrow> t = u \<and> r = s"
  by (cases t; cases u) (simp_all add: put_parameter_type_def)

lemma put_process_mode_prefix: "put_process_mode m @ r = put_process_mode n @ s \<longleftrightarrow> m = n \<and> r = s"
  by (cases m; cases n) (simp_all add: put_process_mode_def)

lemma put_effect_class_prefix: "put_effect_class x @ r = put_effect_class y @ s \<longleftrightarrow> x = y \<and> r = s"
  by (cases x; cases y) (simp_all add: put_effect_class_def)

lemma put_ambiguity_policy_prefix: "put_ambiguity_policy a @ r = put_ambiguity_policy b @ s \<longleftrightarrow> a = b \<and> r = s"
  by (cases a; cases b) (simp add: put_ambiguity_policy_def)

lemma be_word_prefix:
  "be_u64 i @ r = be_u64 j @ s \<longleftrightarrow> i = j \<and> r = s"
  "be_u16 k @ r = be_u16 l @ s \<longleftrightarrow> k = l \<and> r = s"
  by (simp_all add: fixed_width_prefix)

lemmas marker_prefix = put_flag_prefix put_parameter_type_prefix put_process_mode_prefix put_effect_class_prefix
  put_ambiguity_policy_prefix be_word_prefix

lemma field_type_code_inject [simp]: "field_type_code a = field_type_code b \<longleftrightarrow> a = b"
  by (cases a; cases b) (simp_all add: field_type_code_def)

definition short_value :: "parameter_value \<Rightarrow> bool" where
  "short_value v = (case v of PV_String s \<Rightarrow> short s | _ \<Rightarrow> True)"

interpretation short_value: prefix_code put_parameter_value short_value
proof
  fix v w r s assume "short_value v" "short_value w" "put_parameter_value v @ r = put_parameter_value w @ s"
  then show "v = w \<and> r = s"
    by (cases v; cases w) (auto simp: put_parameter_value_def short_value_def short_string.prefix_iff marker_prefix)
qed

primrec short_expression :: "expression \<Rightarrow> bool" where
  "short_expression (E_Literal v) \<longleftrightarrow> short_value v"
| "short_expression (E_Parameter n) \<longleftrightarrow> short n"
| "short_expression (E_Not e) \<longleftrightarrow> short_expression e"
| "short_expression (E_Equal l r) \<longleftrightarrow> short_expression l \<and> short_expression r"
| "short_expression (E_NotEqual l r) \<longleftrightarrow> short_expression l \<and> short_expression r"
| "short_expression (E_And l r) \<longleftrightarrow> short_expression l \<and> short_expression r"
| "short_expression (E_Or l r) \<longleftrightarrow> short_expression l \<and> short_expression r"
| "short_expression (E_Add l r) \<longleftrightarrow> short_expression l \<and> short_expression r"

definition prefix_at :: "expression \<Rightarrow> bool" where
  "prefix_at e \<longleftrightarrow> (\<forall>f r s. short_expression e \<longrightarrow> short_expression f \<longrightarrow>
     put_expression e @ r = put_expression f @ s \<longrightarrow> e = f \<and> r = s)"

lemma prefix_atD:
  "prefix_at e \<Longrightarrow> short_expression e \<Longrightarrow> short_expression f \<Longrightarrow> put_expression e @ r = put_expression f @ s \<Longrightarrow>
    e = f \<and> r = s"
  unfolding prefix_at_def by blast

lemma put_operands_prefix:
  assumes "prefix_at a" and "prefix_at b"
    and "put_expression a @ put_expression b @ r = put_expression c @ put_expression d @ s"
    and "short_expression a" and "short_expression b" and "short_expression c" and "short_expression d"
  shows "a = c \<and> b = d \<and> r = s"
  using prefix_atD [OF assms(1,4,6,3)] prefix_atD [OF assms(2,5,7)] by blast

lemma prefix_atI:
  "(\<And>f r s. short_expression e \<Longrightarrow> short_expression f \<Longrightarrow> put_expression e @ r = put_expression f @ s \<Longrightarrow>
    e = f \<and> r = s) \<Longrightarrow> prefix_at e"
  unfolding prefix_at_def by blast

lemma prefix_at_leaf: "prefix_at (E_Literal v)" "prefix_at (E_Parameter n)"
proof -
  show "prefix_at (E_Literal v)"
  proof (rule prefix_atI)
    fix f r s
    assume "short_expression (E_Literal v)" "short_expression f" "put_expression (E_Literal v) @ r = put_expression f @ s"
    then show "E_Literal v = f \<and> r = s" by (cases f) (simp_all add: short_value.prefix_iff)
  qed
  show "prefix_at (E_Parameter n)"
  proof (rule prefix_atI)
    fix f r s
    assume "short_expression (E_Parameter n)" "short_expression f" "put_expression (E_Parameter n) @ r = put_expression f @ s"
    then show "E_Parameter n = f \<and> r = s" by (cases f) (simp_all add: short_string.prefix_iff)
  qed
qed

lemma prefix_at_not:
  assumes "prefix_at e"
  shows "prefix_at (E_Not e)"
proof (rule prefix_atI)
  fix f r s
  assume "short_expression (E_Not e)" "short_expression f" "put_expression (E_Not e) @ r = put_expression f @ s"
  then have "\<exists>g. f = E_Not g \<and> short_expression e \<and> short_expression g \<and> put_expression e @ r = put_expression g @ s"
    by (cases f) auto
  then show "E_Not e = f \<and> r = s" using prefix_atD [OF assms] by blast
qed

lemma prefix_at_binary:
  assumes "prefix_at a" and "prefix_at b"
    and "build \<in> {E_Equal, E_NotEqual, E_And, E_Or, E_Add}"
  shows "prefix_at (build a b)"
proof (rule prefix_atI)
  fix f r s
  assume f: "short_expression (build a b)" "short_expression f" "put_expression (build a b) @ r = put_expression f @ s"
  have "\<exists>c d. f = build c d \<and> put_expression a @ put_expression b @ r = put_expression c @ put_expression d @ s \<and>
      short_expression a \<and> short_expression b \<and> short_expression c \<and> short_expression d"
    using assms(3) f by (cases f) auto
  then obtain c d where c: "f = build c d"
    "put_expression a @ put_expression b @ r = put_expression c @ put_expression d @ s"
    "short_expression a" "short_expression b" "short_expression c" "short_expression d" by blast
  from put_operands_prefix [OF assms(1,2) c(2-6)] c(1) show "build a b = f \<and> r = s" by simp
qed

lemma put_expression_prefix: "prefix_at e"
  using prefix_at_binary [of _ _ E_Equal] prefix_at_binary [of _ _ E_NotEqual] prefix_at_binary [of _ _ E_And]
    prefix_at_binary [of _ _ E_Or] prefix_at_binary [of _ _ E_Add]
  by (induction e) (simp_all add: prefix_at_leaf prefix_at_not)

interpretation short_expression: prefix_code put_expression short_expression
  by unfold_locales (rule prefix_atD [OF put_expression_prefix])

section \<open>Parameters, bindings and targets\<close>

definition short_definition :: "string \<times> parameter_definition \<Rightarrow> bool" where
  "short_definition nd \<longleftrightarrow> short (fst nd) \<and> (\<forall>v. pd_default (snd nd) = Some v \<longrightarrow> short_value v)"

definition short_entry :: "string \<times> parameter_value \<Rightarrow> bool" where
  "short_entry nv \<longleftrightarrow> short (fst nv) \<and> short_value (snd nv)"

definition short_binding :: "expression_binding \<Rightarrow> bool" where
  "short_binding b \<longleftrightarrow> short (eb_path b) \<and> short_expression (eb_expression b)"

definition short_target :: "notify_target \<Rightarrow> bool" where
  "short_target t =
     (case t of
        GithubStatus m c x r \<Rightarrow> short m \<and> short c \<and> short x \<and> (\<forall>y. r = Some y \<longrightarrow> short y)
      | Webhook m \<Rightarrow> short m)"

interpretation short_definition: prefix_code put_definition short_definition
proof
  fix x y r s assume fits: "short_definition x" "short_definition y" and eq: "put_definition x @ r = put_definition y @ s"
  obtain m c n d where xy: "x = (m, c)" "y = (n, d)" by (cases x, cases y)
  from eq fits show "x = y \<and> r = s"
    by (cases c; cases d)
      (simp add: xy put_definition_def short_definition_def short_string.prefix_iff marker_prefix
        short_value.whole.erased_option option.map_ident)
qed

interpretation short_entry: prefix_code put_value short_entry
  by unfold_locales
    (auto simp: put_value_def short_entry_def short_string.prefix_iff short_value.prefix_iff prod_eq_iff)

interpretation short_binding: prefix_code put_binding short_binding
proof
  fix x y r s assume "short_binding x" "short_binding y" and "put_binding x @ r = put_binding y @ s"
  then show "x = y \<and> r = s"
    by (cases x; cases y)
      (simp add: put_binding_def short_binding_def short_string.prefix_iff short_expression.prefix_iff)
qed

interpretation short_target: prefix_code put_target short_target
proof
  fix x y r s assume "short_target x" "short_target y" and "put_target x @ r = put_target y @ s"
  then show "x = y \<and> r = s"
    by (cases x; cases y)
      (simp_all add: put_target_def short_target_def short_string.prefix_iff short_string.whole.erased_option option.map_ident)
qed

section \<open>Steps\<close>

interpretation short_pair: prefix_code "\<lambda>(k, x). put_string k @ put_string x" "\<lambda>(k, x). short k \<and> short x"
  by unfold_locales (auto simp: short_string.prefix_iff)

interpretation short_field: prefix_code "\<lambda>(name, t). put_string name @ [field_type_code t]" "\<lambda>(name, _). short name"
  by unfold_locales (auto simp: short_string.prefix_iff)

definition short_process :: "u16 \<Rightarrow> process_step \<Rightarrow> bool" where
  "short_process v p \<longleftrightarrow> (2 \<le> v \<or> pr_mode p = Direct) \<and> short (pr_program p) \<and> (\<forall>a\<in>set (pr_args p). short a) \<and>
     (\<forall>(k, x)\<in>set (pr_env p). short k \<and> short x) \<and> length (pr_args p) < 2 ^ 32 \<and> length (pr_env p) < 2 ^ 32"

definition short_schema :: "json_field_type btree_map \<Rightarrow> bool" where
  "short_schema m \<longleftrightarrow> (\<forall>(n, _)\<in>set m. short n) \<and> length m < 2 ^ 32"

definition short_connector :: "connector_intent_step \<Rightarrow> bool" where
  "short_connector c \<longleftrightarrow> short (cn_mapping_id c) \<and> short (cn_mapping_digest c) \<and> short (cn_effect_key_template c) \<and>
     short_schema (cn_public_input_schema c) \<and> short_schema (cn_protected_secret_ref_schema c) \<and>
     short_schema (cn_expected_public_result_schema c) \<and> short (cn_downstream_control_digest c)"

definition short_cache :: "cache_intent_spec \<Rightarrow> bool" where
  "short_cache c \<longleftrightarrow> short (ci_mapping_id c) \<and> short (ci_mapping_digest c) \<and> short (ci_logical_key_sha256 c) \<and>
     short (ci_input_sha256 c) \<and> (\<forall>x. ci_content_base64 c = Some x \<longrightarrow> short x)"

definition short_input :: "input_intent_spec \<Rightarrow> bool" where
  "short_input c \<longleftrightarrow> short (ii_mapping_id c) \<and> short (ii_mapping_digest c)"

definition short_checkout :: "checkout_step_spec \<Rightarrow> bool" where
  "short_checkout c \<longleftrightarrow> short (co_mapping_id c) \<and> short (co_mapping_digest c) \<and> short (co_reference c) \<and>
     short (co_commit c) \<and> short (co_destination c)"

interpretation process_code: erased_code "put_process v" "short_process v" "\<lambda>p. p\<lparr>pr_source_span := default_span\<rparr>" for v
proof
  fix p q r s assume "short_process v p" "short_process v q"
  then show "put_process v p @ r = put_process v q @ s \<longleftrightarrow>
      p\<lparr>pr_source_span := default_span\<rparr> = q\<lparr>pr_source_span := default_span\<rparr> \<and> r = s"
    by (cases p; cases q)
      (auto simp: put_process_def short_process_def short_string.prefix_iff short_string.whole.erased_list
        short_pair.whole.erased_list word64.whole.erased_option marker_prefix option.map_ident)
qed

interpretation schema_code: prefix_code put_field_schema short_schema
  by unfold_locales (auto simp: put_field_schema_def short_schema_def short_field.whole.erased_list)

interpretation connector_code: erased_code put_connector short_connector "\<lambda>c. c\<lparr>cn_source_span := default_span\<rparr>"
proof
  fix p q r s assume "short_connector p" "short_connector q"
  then show "put_connector p @ r = put_connector q @ s \<longleftrightarrow>
      p\<lparr>cn_source_span := default_span\<rparr> = q\<lparr>cn_source_span := default_span\<rparr> \<and> r = s"
    by (cases p; cases q)
      (auto simp: put_connector_def short_connector_def short_string.prefix_iff schema_code.prefix_iff marker_prefix)
qed

interpretation cache_code: prefix_code put_cache_intent short_cache
proof
  fix x y r s assume "short_cache x" "short_cache y" and "put_cache_intent x @ r = put_cache_intent y @ s"
  then show "x = y \<and> r = s"
    by (cases x; cases y)
      (auto simp: put_cache_intent_def short_cache_def short_string.prefix_iff short_string.whole.erased_option
        marker_prefix option.map_ident split: cache_operation.splits)
qed

interpretation input_code: prefix_code put_input_intent short_input
proof
  fix x y r s assume "short_input x" "short_input y" and "put_input_intent x @ r = put_input_intent y @ s"
  then show "x = y \<and> r = s"
    by (cases x; cases y) (auto simp: put_input_intent_def short_input_def short_string.prefix_iff marker_prefix)
qed

interpretation checkout_code: prefix_code put_checkout short_checkout
proof
  fix x y r s assume "short_checkout x" "short_checkout y" and "put_checkout x @ r = put_checkout y @ s"
  then show "x = y \<and> r = s"
    by (cases x; cases y) (auto simp: put_checkout_def short_checkout_def short_string.prefix_iff marker_prefix)
qed

text \<open>A step without its source span, and the code of a step.\<close>

definition erase_step :: "step \<Rightarrow> step" where
  "erase_step s =
     (case s of
        Process p \<Rightarrow> Process (p\<lparr>pr_source_span := default_span\<rparr>)
      | ConnectorIntent c \<Rightarrow> ConnectorIntent (c\<lparr>cn_source_span := default_span\<rparr>)
      | CacheIntent c \<Rightarrow> CacheIntent (c\<lparr>cs_source_span := default_span\<rparr>)
      | InputIntent c \<Rightarrow> InputIntent (c\<lparr>is_source_span := default_span\<rparr>)
      | Checkout c \<Rightarrow> Checkout (c\<lparr>ck_source_span := default_span\<rparr>))"

definition short_step :: "u16 \<Rightarrow> step \<Rightarrow> bool" where
  "short_step v s =
     (case s of
        Process p \<Rightarrow> short_process v p
      | ConnectorIntent c \<Rightarrow> short_connector c
      | CacheIntent c \<Rightarrow> short_cache (cs_intent c)
      | InputIntent c \<Rightarrow> short_input (is_intent c)
      | Checkout c \<Rightarrow> short_checkout (ck_spec c))"

lemma erased_steps:
  fixes c d :: cache_intent_step and a b :: input_intent_step and e f :: checkout_step
  shows "c\<lparr>cs_source_span := u\<rparr> = d\<lparr>cs_source_span := u\<rparr> \<longleftrightarrow> cs_intent c = cs_intent d"
    "a\<lparr>is_source_span := u\<rparr> = b\<lparr>is_source_span := u\<rparr> \<longleftrightarrow> is_intent a = is_intent b"
    "e\<lparr>ck_source_span := u\<rparr> = f\<lparr>ck_source_span := u\<rparr> \<longleftrightarrow> ck_spec e = ck_spec f"
proof -
  show "c\<lparr>cs_source_span := u\<rparr> = d\<lparr>cs_source_span := u\<rparr> \<longleftrightarrow> cs_intent c = cs_intent d" by (cases c; cases d) simp
  show "a\<lparr>is_source_span := u\<rparr> = b\<lparr>is_source_span := u\<rparr> \<longleftrightarrow> is_intent a = is_intent b" by (cases a; cases b) simp
  show "e\<lparr>ck_source_span := u\<rparr> = f\<lparr>ck_source_span := u\<rparr> \<longleftrightarrow> ck_spec e = ck_spec f" by (cases e; cases f) simp
qed

interpretation step_code: erased_code "put_step v" "short_step v" erase_step for v
proof
  fix x y r s assume "short_step v x" "short_step v y"
  then show "put_step v x @ r = put_step v y @ s \<longleftrightarrow> erase_step x = erase_step y \<and> r = s"
    by (cases x; cases y)
      (simp_all add: put_step_def short_step_def erase_step_def process_code.erased connector_code.erased
        cache_code.prefix_iff input_code.prefix_iff checkout_code.prefix_iff erased_steps)
qed

section \<open>Stages and the pipeline\<close>

definition short_artifact :: "artifact_spec \<Rightarrow> bool" where
  "short_artifact a \<longleftrightarrow> short (as_name a) \<and> (\<forall>x\<in>set (as_paths a). short x) \<and> length (as_paths a) < 2 ^ 32"

interpretation artifact_code: prefix_code put_artifact short_artifact
proof
  fix x y r s assume "short_artifact x" "short_artifact y" and "put_artifact x @ r = put_artifact y @ s"
  then show "x = y \<and> r = s"
    by (cases x; cases y)
      (simp add: put_artifact_def short_artifact_def short_string.prefix_iff short_string.whole.erased_list)
qed

definition erase_stage :: "stage \<Rightarrow> stage" where
  "erase_stage s = s\<lparr>sg_steps := map erase_step (sg_steps s), sg_source_span := default_span\<rparr>"

definition short_stage :: "u16 \<Rightarrow> stage \<Rightarrow> bool" where
  "short_stage v s \<longleftrightarrow> short (sg_id s) \<and> short (sg_name s) \<and> (\<forall>x. sg_image s = Some x \<longrightarrow> short x) \<and>
     (\<forall>st\<in>set (sg_steps s). short_step v st) \<and> length (sg_steps s) < 2 ^ 32 \<and>
     (\<forall>a\<in>set (sg_artifacts s). short_artifact a) \<and> length (sg_artifacts s) < 2 ^ 32 \<and>
     (sg_image s \<noteq> None \<longrightarrow> 6 \<le> v) \<and> (sg_artifacts s \<noteq> [] \<longrightarrow> 8 \<le> v)"

interpretation stage_code: erased_code "put_stage v" "short_stage v" erase_stage for v
proof
  fix x y r s assume "short_stage v x" "short_stage v y"
  then show "put_stage v x @ r = put_stage v y @ s \<longleftrightarrow> erase_stage x = erase_stage y \<and> r = s"
    by (cases x; cases y)
      (auto simp: put_stage_def short_stage_def erase_stage_def short_string.prefix_iff short_string.whole.erased_option
        step_code.erased_list artifact_code.whole.erased_list option.map_ident)
qed

definition no_provenance :: provenance where
  "no_provenance = \<lparr>source_id = [], source_sha256 = [], prov_compiler = \<lparr>compiler_name = [], compiler_version = []\<rparr>\<rparr>"

definition meaning :: "pipeline_ir \<Rightarrow> pipeline_ir" where
  "meaning p = p\<lparr>p_stages := map erase_stage (p_stages p), p_provenance := no_provenance, p_source_span := default_span\<rparr>"

definition short_pipeline :: "pipeline_ir \<Rightarrow> bool" where
  "short_pipeline p \<longleftrightarrow> (let v = minor (p_schema p) in
     short (p_name p) \<and> (\<forall>nd\<in>set (p_parameters p). short_definition nd) \<and>
     (\<forall>nv\<in>set (p_parameter_values p). short_entry nv) \<and> (\<forall>b\<in>set (p_expressions p). short_binding b) \<and>
     (\<forall>s\<in>set (p_stages p). short_stage v s) \<and> (\<forall>t\<in>set (p_notify p). short_target t) \<and>
     length (p_parameters p) < 2 ^ 32 \<and> length (p_parameter_values p) < 2 ^ 32 \<and> length (p_expressions p) < 2 ^ 32 \<and>
     length (p_stages p) < 2 ^ 32 \<and> length (p_notify p) < 2 ^ 32 \<and> (p_notify p \<noteq> [] \<longrightarrow> 9 \<le> v) \<and>
     (v = 0 \<longrightarrow> p_parameters p = [] \<and> p_parameter_values p = [] \<and> p_expressions p = []))"

interpretation pipeline_code: erased_code encode_pipeline short_pipeline meaning
proof
  fix p q r s assume fits: "short_pipeline p" "short_pipeline q"
  have zero: "\<not> (1::u16) \<le> v \<longleftrightarrow> v = 0" for v by (simp add: word_le_nat_alt Suc_le_eq unat_gt_0)
  show "encode_pipeline p @ r = encode_pipeline q @ s \<longleftrightarrow> meaning p = meaning q \<and> r = s"
  proof (cases "p_schema p = p_schema q \<and> p_name p = p_name q")
    case True
    with fits show ?thesis
      by (cases p; cases q)
        (auto simp: encode_pipeline_def Let_def short_pipeline_def meaning_def zero
          short_definition.whole.erased_list short_entry.whole.erased_list short_binding.whole.erased_list
          stage_code.erased_list stage_code.erased_list_eq
          short_target.whole.erased_list)
  next
    case False
    have "p_schema p = p_schema q \<longleftrightarrow> major (p_schema p) = major (p_schema q) \<and> minor (p_schema p) = minor (p_schema q)"
      by (cases "p_schema p"; cases "p_schema q") simp
    with False fits show ?thesis
      by (cases p; cases q)
        (auto simp: encode_pipeline_def Let_def short_pipeline_def meaning_def short_string.prefix_iff marker_prefix)
  qed
qed

section \<open>Accepted pipelines fit\<close>

lemma ir_string_short: "ir_string s \<Longrightarrow> short s"
  by (simp add: ir_string_def short_def)

lemma bounded_short: "bounded_value default_expression_limits v \<Longrightarrow> short_value v"
  by (cases v) (simp_all add: bounded_value_def short_value_def short_def default_string_limit)

lemma leaves_short:
  "expr_leaves_ok default_expression_limits e \<Longrightarrow> \<forall>n\<in>expr_params e. short n \<Longrightarrow> short_expression e"
  by (induction e) (auto simp: short_value_def short_def default_string_limit split: parameter_value.splits)

lemma process_short: "process_ok v p \<Longrightarrow> short_process v p"
  by (auto simp: process_ok_def short_process_def intro: ir_string_short)

lemma schema_short: "schema_fields_ok m \<Longrightarrow> short_schema m"
  by (auto simp: schema_fields_ok_def short_schema_def intro: ir_string_short)

lemma step_short:
  assumes "step_ok ext v s" and "bounded_mapping s"
  shows "short_step v s"
proof (cases s)
  case (CacheIntent c)
  with assms have ok: "validate_cache_intent ext (cs_intent c) = Ok ()" by (simp add: step_ok_def)
  then have "\<forall>x. ci_content_base64 (cs_intent c) = Some x \<longrightarrow> short x"
    by (auto simp: validate_cache_intent_def decoded_content_def and_then_eq_Ok short_def
        split: if_splits cache_operation.splits option.splits)
  with ok CacheIntent show ?thesis
    by (auto simp: short_step_def short_cache_def validate_cache_intent_def intro: ir_string_short bounded_strings split: if_splits)
qed (use assms in \<open>auto simp: step_ok_def bounded_mapping_def short_step_def process_short short_connector_def connector_ok_def
      schema_short short_input_def validate_input_intent_def short_checkout_def validate_checkout_def
      intro: ir_string_short bounded_strings split: if_splits\<close>)

lemma artifact_short: "validate_artifact a = Ok () \<Longrightarrow> short_artifact a"
  by (auto simp: validate_artifact_def validate_name_def validate_pattern_def short_artifact_def short_def ok_simps
      split: if_splits)

lemma artifacts_short:
  assumes "validate_declarations as = Ok ()"
  shows "length as < 2 ^ 32" and "\<forall>a\<in>set as. short_artifact a"
proof -
  show "length as < 2 ^ 32" using assms by (simp add: validate_declarations_def split: if_splits)
  show "\<forall>a\<in>set as. short_artifact a"
    using assms by (auto simp: validate_declarations_def ok_simps all_set_conv_all_nth intro: artifact_short split: if_splits)
qed

lemma stage_short:
  assumes "stage_ok ext v s" and "\<forall>st\<in>set (sg_steps s). bounded_mapping st" and "length (sg_steps s) \<le> MAX_STEPS"
  shows "short_stage v s"
proof -
  have arts: "length (sg_artifacts s) < 2 ^ 32 \<and> (\<forall>a\<in>set (sg_artifacts s). short_artifact a)"
    using assms(1) artifacts_short [of "sg_artifacts s"] by (cases "sg_artifacts s = []") (auto simp: stage_ok_def)
  have img: "\<forall>x. sg_image s = Some x \<longrightarrow> short x \<and> 6 \<le> v"
    using assms(1) bounded_strings(7) ir_string_short by (auto simp: stage_ok_def stage_image_ok_def)
  show ?thesis
    using assms arts img by (auto simp: short_stage_def stage_ok_def intro: ir_string_short step_short)
qed

lemma target_short: "validate_target t = Ok () \<Longrightarrow> short_target t"
  by (auto simp: validate_target_def short_target_def nt_mapping_id_def
      intro: ir_string_short bounded_strings repository_bounded split: notify_target.splits if_splits option.splits)

lemma binding_short:
  assumes "\<forall>nd\<in>set params. parameter_ok vals nd" and "binding_ok params cxt mf b"
  shows "short_binding b"
proof -
  have "\<forall>n\<in>expr_params (eb_expression b). short n"
  proof
    fix n assume "n \<in> expr_params (eb_expression b)"
    then obtain d where "(n, d) \<in> set params"
      using assms(2) by (auto simp: binding_ok_def public_parameter_def btree_get_def dest: map_of_SomeD)
    with assms(1) show "short n" by (auto simp: parameter_ok_def intro: ir_string_short)
  qed
  with assms(2) show ?thesis by (auto simp: short_binding_def binding_ok_def valid_expr_def intro: leaves_short ir_string_short)
qed

lemma valid_short:
  assumes valid: "valid_pipeline ext p" and maps: "maps_wf p" and bounded: "bounded_mappings p"
  shows "short_pipeline p"
proof -
  have vp: "valid_parameters p" using valid by (simp add: valid_pipeline_def)
  have wf: "btree_wf (p_parameters p)" "btree_wf (p_parameter_values p)" using maps by (simp_all add: maps_wf_def)
  have count: "length (sg_steps s) \<le> MAX_STEPS" if "s \<in> set (p_stages p)" for s
    using that valid member_le_sum_list [of "length (sg_steps s)" "map (length \<circ> sg_steps) (p_stages p)"]
    by (auto simp: valid_pipeline_def)
  have stages: "\<forall>s\<in>set (p_stages p). short_stage (minor (p_schema p)) s"
    using valid bounded count by (auto simp: valid_pipeline_def bounded_mappings_def intro!: stage_short)
  have notify: "(\<forall>t\<in>set (p_notify p). short_target t) \<and> length (p_notify p) < 2 ^ 32"
    using valid by (cases "p_notify p = []") (auto simp: valid_pipeline_def validate_targets_def ok_simps
        intro: target_short split: if_splits)
  have entries: "short_entry nv" if "nv \<in> set (p_parameter_values p)" for nv
    using valid_public_entry [OF vp wf, of "fst nv" "snd nv"] that
    by (auto simp: short_entry_def typed_value_def intro: ir_string_short bounded_short)
  have definitions: "\<forall>nd\<in>set (p_parameters p). short_definition nd"
    using vp by (fastforce simp: valid_parameters_def parameter_ok_def short_definition_def typed_value_def
        intro: ir_string_short bounded_short split: if_splits)
  have bindings: "\<forall>b\<in>set (p_expressions p). short_binding b"
    using vp by (auto simp: valid_parameters_def intro: binding_short)
  have lengths: "length (p_parameters p) \<le> MAX_PARAMETERS" "length (p_parameter_values p) \<le> length (p_parameters p)"
      "length (p_expressions p) \<le> MAX_EXPRESSION_BINDINGS"
    using vp values_within_parameters [OF vp wf] by (simp_all add: valid_parameters_def)
  show ?thesis
    using valid lengths stages notify entries definitions bindings
    by (auto simp: short_pipeline_def Let_def valid_pipeline_def intro: ir_string_short)
qed

section \<open>Properties\<close>

text \<open>
  C7. The semantic digest identifies what a pipeline means: as long as the hash does not collide on
  the canonical bytes, two accepted pipelines have the same semantic digest, in bytes and in
  hexadecimal, exactly when they agree in everything but their provenance and source spans.
\<close>

theorem semantic_digest_identifies:
  assumes "inj_on (sha256 ext) {a, b}" and "canonical_bytes ext p = Ok a" and "canonical_bytes ext q = Ok b"
    and "maps_wf p" and "maps_wf q" and "bounded_mappings p" and "bounded_mappings q"
  shows "(semantic_digest ext p = semantic_digest ext q \<longleftrightarrow> meaning p = meaning q) \<and>
    (semantic_digest_hex ext p = semantic_digest_hex ext q \<longleftrightarrow> meaning p = meaning q)"
proof -
  have "a = encode_pipeline p" "short_pipeline p" "b = encode_pipeline q" "short_pipeline q"
    using assms(2-) by (auto simp: canonical_bytes_def and_then_eq_Ok validate_pipeline_eq_Ok intro: valid_short)
  then have "a = b \<longleftrightarrow> meaning p = meaning q" using pipeline_code.erased [of p q "[]" "[]"] by simp
  with assms(1-3) show ?thesis by (auto simp: semantic_digest_def semantic_digest_hex_def dest: inj_onD)
qed

theorem semantic_digest_identifies_witness:
  "semantic_digest sample_externals (sample_pipeline ''b'') =
     semantic_digest sample_externals ((sample_pipeline ''b'')\<lparr>p_provenance := no_provenance\<rparr>)"
proof -
  let ?q = "(sample_pipeline ''b'')\<lparr>p_provenance := no_provenance\<rparr>"
  have "validate_pipeline sample_externals ?q = Ok ()"
    using sample_pipeline_valid by (simp add: validate_pipeline_eq_Ok valid_pipeline_def valid_parameters_def
        expression_materialized_fields_def)
  moreover have "maps_wf (sample_pipeline ''b'')"
    by (simp add: maps_wf_def sample_pipeline_def sample_parameters_def sample_stage_def sample_process_def btree_wf_def
        stage_maps_wf_def process_maps_wf_def)
  moreover have "maps_wf ?q \<longleftrightarrow> maps_wf (sample_pipeline ''b'')" "bounded_mappings ?q \<longleftrightarrow> bounded_mappings (sample_pipeline ''b'')"
    by (simp_all add: maps_wf_def bounded_mappings_def)
  moreover have "inj_on (sha256 sample_externals) M" for M by (simp add: sample_externals_def inj_on_def)
  ultimately show ?thesis
    using semantic_digest_identifies [OF \<open>\<And>M. inj_on (sha256 sample_externals) M\<close>, of "sample_pipeline ''b''"
        "encode_pipeline (sample_pipeline ''b'')" ?q "encode_pipeline ?q"] sample_rust(2)
    by (simp add: canonical_bytes_def sample_pipeline_valid meaning_def)
qed

end
