(* ===== verification/Schedule_Calendar.thy ===== *)
theory Schedule_Calendar
  imports Rust_Text
begin

text \<open>
  The schedule calendar (\<open>crates/controller-store/src/schedule_calendar.rs\<close>): five-field cron
  expressions with hashed fields. Values of type \<open>i32\<close> are integers with the wrap-around of release
  builds written out. MD5 is a parameter. A configuration is what the accessors of its JSON value
  return for a field.
\<close>

section \<open>Machine arithmetic\<close>

unbundle bit_operations_syntax

definition wrap_i32 :: "int \<Rightarrow> int" where
  "wrap_i32 k = (k + 2 ^ 31) mod 2 ^ 32 - 2 ^ 31"

definition parse_i32 :: "string \<Rightarrow> int option" where
  "parse_i32 s = parse_int (- (2 ^ 31)) (2 ^ 31 - 1) s"

text \<open>The shift \<open>1u64 << n\<close> by an \<open>i32\<close>, whose amount counts modulo the width.\<close>

definition bit_at :: "int \<Rightarrow> u64" where
  "bit_at n = push_bit (nat (n mod 64)) 1"

definition bit_set :: "u64 \<Rightarrow> int \<Rightarrow> bool" where
  "bit_set bits n \<longleftrightarrow> 0 \<le> n \<and> n < 64 \<and> drop_bit (nat n) bits AND 1 = 1"

section \<open>Errors\<close>

text \<open>
  The errors of the store, and the two ways of not returning one: a failed assertion and a loop
  that does not end.
\<close>

datatype schedule_error = InvalidTriggerIngress string | Panicked | Diverged

section \<open>The hash\<close>

definition seed_mask :: u64 where
  "seed_mask = push_bit 48 1 - 1"

definition fold_digest :: "byte list \<Rightarrow> byte list" where
  "fold_digest d = map (\<lambda>i. d ! i XOR d ! (i + 8)) [0..<8]"

definition pack_bytes :: "byte list \<Rightarrow> u64" where
  "pack_bytes bs = foldl (\<lambda>v b. push_bit 8 v + ucast b) 0 bs"

definition from_seed :: "(byte list \<Rightarrow> byte list) \<Rightarrow> string \<Rightarrow> u64" where
  "from_seed md5 seed = (pack_bytes (fold_digest (md5 (as_bytes seed))) XOR 0x5DEECE66D) AND seed_mask"

definition next_seed :: "u64 \<Rightarrow> u64" where
  "next_seed s = (s * 0x5DEECE66D + 0xB) AND seed_mask"

definition next_bits :: "nat \<Rightarrow> u64 \<Rightarrow> int \<times> u64" where
  "next_bits bits s = (let s' = next_seed s in (sint (ucast (drop_bit (48 - bits) s') :: 32 word), s'))"

text \<open>The loop of \<open>nextInt\<close>: draw until the draw is not in the last, incomplete block of \<open>n\<close> values.\<close>

partial_function (option) draw :: "int \<Rightarrow> u64 \<Rightarrow> (int \<times> u64) option" where
  "draw n s =
     (let (bits, s') = next_bits 31 s; val = bits mod n in
      if wrap_i32 (bits - val + n) > 0 then Some (val, s') else draw n s')"

definition is_power_of_two :: "int \<Rightarrow> bool" where
  "is_power_of_two n \<longleftrightarrow> 0 < n \<and> (\<exists>k<31. n = 2 ^ k)"

definition next_int :: "int \<Rightarrow> u64 \<Rightarrow> (int \<times> u64, schedule_error) result" where
  "next_int n s =
     (if \<not> 0 < n then Err Panicked
      else if is_power_of_two n then
        (let (bits, s') = next_bits 31 s in Ok (wrap_i32 (n * bits div 2 ^ 31), s'))
      else ok_or Diverged (draw n s))"

section \<open>Fields\<close>

definition parse_positive :: "string \<Rightarrow> (int, schedule_error) result" where
  "parse_positive s =
     and_then (ok_or (InvalidTriggerIngress (''schedule step '' @ [CHR 0x27] @ s @ [CHR 0x27] @ '' is not an integer'')) (parse_i32 s)) (\<lambda>v.
       if v \<le> 0 then Err (InvalidTriggerIngress ''schedule step must be positive'') else Ok v)"

definition parse_bounded :: "string \<Rightarrow> int \<Rightarrow> int \<Rightarrow> (int, schedule_error) result" where
  "parse_bounded s lower upper =
     and_then (ok_or (InvalidTriggerIngress (''schedule value '' @ [CHR 0x27] @ s @ [CHR 0x27] @ '' is not an integer'')) (parse_i32 s)) (\<lambda>v.
       if v < lower \<or> v > upper
       then Err (InvalidTriggerIngress
         (''schedule value '' @ show_int v @ '' is outside '' @ show_int lower @ ''..'' @ show_int upper))
       else Ok v)"

partial_function (option) range_loop :: "int \<Rightarrow> int \<Rightarrow> int \<Rightarrow> u64 \<Rightarrow> u64 option" where
  "range_loop till step cursor bits =
     (if cursor \<le> till then range_loop till step (wrap_i32 (cursor + step)) (bits OR bit_at cursor) else Some bits)"

definition range_bits :: "int \<Rightarrow> int \<Rightarrow> int \<Rightarrow> (u64, schedule_error) result" where
  "range_bits start till step = ok_or Diverged (range_loop till step start 0)"

type_synonym 'a hashing = "u64 \<Rightarrow> ('a \<times> u64, schedule_error) result"

definition hash_upper :: "nat \<Rightarrow> int \<Rightarrow> int" where
  "hash_upper index upper = (if index = 2 then 28 else if index = 4 then 6 else upper)"

definition hash_range :: "string \<Rightarrow> (string \<times> int, schedule_error) result" where
  "hash_range inner =
     (case rsplit_once '')/'' inner of
        Some (range_text, step_text) \<Rightarrow> and_then (parse_positive step_text) (\<lambda>step. Ok (range_text, step))
      | None \<Rightarrow>
          (case strip_suffix '')'' inner of
             Some range_text \<Rightarrow> Ok (range_text, 0)
           | None \<Rightarrow> Err (InvalidTriggerIngress ''schedule H range is malformed'')))"

definition parse_hash_range :: "string \<Rightarrow> int \<Rightarrow> int \<Rightarrow> u64 hashing" where
  "parse_hash_range inner lower upper s =
     and_then (hash_range inner) (\<lambda>(range_text, step).
     and_then (ok_or (InvalidTriggerIngress ''schedule H range requires start-end'') (split_once CHR ''-'' range_text))
       (\<lambda>(start_text, end_text).
     and_then (parse_bounded start_text lower upper) (\<lambda>start.
     and_then (parse_bounded end_text lower upper) (\<lambda>till.
     if till < start then Err (InvalidTriggerIngress ''schedule H range end precedes start'')
     else if step = 0 then and_then (next_int (till - start + 1) s) (\<lambda>(v, s). Ok (bit_at (start + v), s))
     else if step > till - start + 1
     then Err (InvalidTriggerIngress ''schedule H step exceeds named range'')
     else and_then (next_int step s) (\<lambda>(v, s).
          and_then (range_bits (start + v) till step) (\<lambda>bits. Ok (bits, s)))))))"

definition parse_hash_part :: "string \<Rightarrow> nat \<Rightarrow> int \<Rightarrow> int \<Rightarrow> u64 hashing" where
  "parse_hash_part part index lower upper s =
     (let hu = hash_upper index upper in
      if part = ''H'' then and_then (next_int (hu - lower + 1) s) (\<lambda>(v, s). Ok (bit_at (lower + v), s))
      else
      case strip_prefix ''H/'' part of
        Some rest \<Rightarrow>
          and_then (parse_positive rest) (\<lambda>step.
          if step > hu - lower + 1
          then Err (InvalidTriggerIngress ''schedule H step exceeds field range'')
          else and_then (next_int step s) (\<lambda>(v, s).
               and_then (range_bits (lower + v) hu step) (\<lambda>bits. Ok (bits, s))))
      | None \<Rightarrow>
          (case strip_prefix ''H('' part of
             Some inner \<Rightarrow> parse_hash_range inner lower hu s
           | None \<Rightarrow> Err (InvalidTriggerIngress (''unsupported schedule hash field '' @ [CHR 0x27] @ part @ [CHR 0x27]))))"

definition parse_range_part :: "string \<Rightarrow> string \<Rightarrow> int \<Rightarrow> int \<Rightarrow> (u64, schedule_error) result" where
  "parse_range_part start_text rest lower upper =
     and_then (parse_bounded start_text lower upper) (\<lambda>start.
     and_then (case split_once CHR ''/'' rest of
                 Some (end_text, step_text) \<Rightarrow> and_then (parse_positive step_text) (\<lambda>step. Ok (end_text, step))
               | None \<Rightarrow> Ok (rest, 1)) (\<lambda>(end_text, step).
     and_then (parse_bounded end_text lower upper) (\<lambda>till.
     if till < start then Err (InvalidTriggerIngress ''schedule range end precedes start'')
     else range_bits start till step)))"

definition parse_plain_part :: "string \<Rightarrow> int \<Rightarrow> int \<Rightarrow> (u64, schedule_error) result" where
  "parse_plain_part part lower upper =
     (case split_once CHR ''-'' part of
        Some (start_text, rest) \<Rightarrow> parse_range_part start_text rest lower upper
      | None \<Rightarrow>
          (case split_once CHR ''/'' part of
             Some (start_text, step_text) \<Rightarrow>
               and_then (parse_bounded start_text lower upper) (\<lambda>start.
               and_then (parse_positive step_text) (\<lambda>step. range_bits start upper step))
           | None \<Rightarrow> and_then (parse_bounded part lower upper) (\<lambda>v. Ok (bit_at v))))"

definition parse_field_part :: "string \<Rightarrow> nat \<Rightarrow> int \<Rightarrow> int \<Rightarrow> u64 hashing" where
  "parse_field_part part index lower upper s =
     (if part = [] then Err (InvalidTriggerIngress ''schedule field part is empty'')
      else if part = ''*'' then and_then (range_bits lower upper 1) (\<lambda>bits. Ok (bits, s))
      else
      case strip_prefix ''*/'' part of
        Some rest \<Rightarrow>
          and_then (parse_positive rest) (\<lambda>step. and_then (range_bits lower upper step) (\<lambda>bits. Ok (bits, s)))
      | None \<Rightarrow>
          if starts_with ''H'' part then parse_hash_part part index lower upper s
          else and_then (parse_plain_part part lower upper) (\<lambda>bits. Ok (bits, s)))"

definition FIELD_LOWER :: "int list" where "FIELD_LOWER = [0, 0, 1, 1, 0]"
definition FIELD_UPPER :: "int list" where "FIELD_UPPER = [59, 23, 31, 12, 7]"

definition parse_field :: "string \<Rightarrow> nat \<Rightarrow> u64 hashing" where
  "parse_field field index s =
     try_fold (\<lambda>(bits, s) part.
        and_then (parse_field_part part index (FIELD_LOWER ! index) (FIELD_UPPER ! index) s) (\<lambda>(b, s). Ok (bits OR b, s)))
       (0, s) (split_on CHR '','' field)"

section \<open>Expressions\<close>

definition split_ascii_whitespace :: "string \<Rightarrow> string list" where
  "split_ascii_whitespace s =
     filter (\<lambda>w. w \<noteq> []) (split_on CHR '' '' (map (\<lambda>c. if is_ascii_whitespace c then CHR '' '' else c) s))"

definition sunday_alias :: "u64 list \<Rightarrow> u64 list" where
  "sunday_alias bits = (if bit_set (bits ! 4) 7 then bits[4 := (bits ! 4 OR 1) AND NOT (push_bit 7 1)] else bits)"

definition parse_cron_expression ::
  "(byte list \<Rightarrow> byte list) \<Rightarrow> string \<Rightarrow> string \<Rightarrow> (u64 list, schedule_error) result" where
  "parse_cron_expression md5 expression hash_seed =
     (let fields = split_ascii_whitespace expression in
      if length fields \<noteq> 5
      then Err (InvalidTriggerIngress ''schedule expression must contain exactly five fields'')
      else
      and_then (try_fold_index 0 (\<lambda>index (bits, s) field.
         and_then (parse_field field index s) (\<lambda>(b, s).
           if b = 0
           then Err (InvalidTriggerIngress (''schedule field '' @ show_nat index @ '' matches no values''))
           else Ok (bits @ [b], s)))
        ([], from_seed md5 hash_seed) fields) (\<lambda>(bits, _). Ok (sunday_alias bits)))"

section \<open>Configurations\<close>

text \<open>What \<open>Value::as_str\<close> and \<open>Value::as_i64\<close> return for the value of a field.\<close>

record config_value =
  as_str :: "string option"
  as_i64 :: "int option"

type_synonym configuration = "string \<Rightarrow> config_value option"

record schedule_calendar =
  sc_timezone :: string
  sc_calendar :: string
  sc_expression :: string
  sc_bits :: "u64 list"
  sc_hash_seed :: string
  sc_horizon_slots :: int

definition DEFAULT_SCHEDULE_HORIZON :: int where "DEFAULT_SCHEDULE_HORIZON = 64"
definition MAX_SCHEDULE_HORIZON :: int where "MAX_SCHEDULE_HORIZON = 4096"

definition validate_text_value :: "string \<Rightarrow> string \<Rightarrow> nat \<Rightarrow> (unit, schedule_error) result" where
  "validate_text_value field v maximum =
     (if v = [] \<or> length v > maximum \<or> trim v \<noteq> v
      then Err (InvalidTriggerIngress (''schedule configuration '' @ [CHR 0x27] @ field @ [CHR 0x27]
        @ '' must be a non-empty trimmed string of at most '' @ show_nat maximum @ '' bytes''))
      else Ok ())"

definition get_str :: "configuration \<Rightarrow> string \<Rightarrow> string option" where
  "get_str config field = (case config field of None \<Rightarrow> None | Some v \<Rightarrow> as_str v)"

definition required_text :: "configuration \<Rightarrow> string \<Rightarrow> nat \<Rightarrow> (string, schedule_error) result" where
  "required_text config field maximum =
     and_then (ok_or (InvalidTriggerIngress (''schedule configuration requires '' @ [CHR 0x27] @ field @ [CHR 0x27]))
       (get_str config field)) (\<lambda>v.
     and_then (validate_text_value field v maximum) (\<lambda>_. Ok v))"

definition hash_seed_from_configuration :: "configuration \<Rightarrow> string \<Rightarrow> (string, schedule_error) result" where
  "hash_seed_from_configuration config expression =
     (let has_h = list_ex (\<lambda>field. CHR ''H'' \<in> set field) (split_ascii_whitespace expression) in
      case get_str config ''jenkins_full_item_name'' of
        Some name \<Rightarrow> and_then (validate_text_value ''jenkins_full_item_name'' name 512) (\<lambda>_. Ok name)
      | None \<Rightarrow> if has_h then required_text config ''schedule_identity_sha256'' 64 else Ok [])"

definition horizon_of :: "configuration \<Rightarrow> (int, schedule_error) result" where
  "horizon_of config =
     (case config ''horizon_slots'' of
        None \<Rightarrow> Ok DEFAULT_SCHEDULE_HORIZON
      | Some v \<Rightarrow>
          and_then (ok_or (InvalidTriggerIngress ''horizon_slots must be a positive integer'') (as_i64 v)) (\<lambda>h.
            if \<not> (1 \<le> h \<and> h \<le> MAX_SCHEDULE_HORIZON)
            then Err (InvalidTriggerIngress (''horizon_slots must be between 1 and '' @ show_int MAX_SCHEDULE_HORIZON))
            else Ok h))"

definition from_configuration ::
  "(byte list \<Rightarrow> byte list) \<Rightarrow> configuration \<Rightarrow> (schedule_calendar, schedule_error) result" where
  "from_configuration md5 config =
     and_then (required_text config ''timezone'' 128) (\<lambda>timezone.
     and_then (required_text config ''calendar'' 128) (\<lambda>calendar.
     and_then (required_text config ''expression'' 512) (\<lambda>expression.
     and_then (horizon_of config) (\<lambda>horizon.
     and_then (hash_seed_from_configuration config expression) (\<lambda>hash_seed.
     and_then (parse_cron_expression md5 expression hash_seed) (\<lambda>bits.
     Ok \<lparr>sc_timezone = timezone, sc_calendar = calendar, sc_expression = expression, sc_bits = bits,
         sc_hash_seed = hash_seed, sc_horizon_slots = horizon\<rparr>))))))"

text \<open>The remainder of \<open>day_of_week % 7\<close> has the sign of the dividend.\<close>

definition matches_local :: "schedule_calendar \<Rightarrow> int \<Rightarrow> int \<Rightarrow> int \<Rightarrow> int \<Rightarrow> int \<Rightarrow> bool" where
  "matches_local c minute hour day_of_month month day_of_week \<longleftrightarrow>
     bit_set (sc_bits c ! 0) minute \<and> bit_set (sc_bits c ! 1) hour \<and> bit_set (sc_bits c ! 3) month \<and>
     bit_set (sc_bits c ! 2) day_of_month \<and> bit_set (sc_bits c ! 4) (sgn day_of_week * (\<bar>day_of_week\<bar> mod 7))"

end
