(* ===== verification/Schedule_Hash.thy ===== *)
theory Schedule_Hash
  imports Schedule_Calendar
begin

text \<open>
  The generator behind the hashed fields. It has full period, so the rejection loop of \<open>nextInt\<close>
  returns for every seed, with a value below the bound.
\<close>

unbundle bit_operations_syntax

section \<open>The generator as a congruence\<close>

definition lcg_a :: nat where "lcg_a = 0x5DEECE66D"
definition lcg_c :: nat where "lcg_c = 0xB"
definition lcg_m :: nat where "lcg_m = 2 ^ 48"

primrec geometric :: "nat \<Rightarrow> nat" where
  "geometric 0 = 0"
| "geometric (Suc k) = lcg_a * geometric k + 1"

definition lcg :: "nat \<Rightarrow> nat \<Rightarrow> nat" where
  "lcg k x = (lcg_a ^ k * x + lcg_c * geometric k) mod lcg_m"

lemma lcg_Suc: "(lcg_a * lcg k x + lcg_c) mod lcg_m = lcg (Suc k) x"
proof -
  have "(lcg_a * lcg k x + lcg_c) mod lcg_m = (lcg_a * (lcg_a ^ k * x + lcg_c * geometric k) + lcg_c) mod lcg_m"
    unfolding lcg_def by (metis mod_add_left_eq mod_mult_right_eq)
  also have "lcg_a * (lcg_a ^ k * x + lcg_c * geometric k) + lcg_c = lcg_a ^ Suc k * x + lcg_c * geometric (Suc k)"
    by (simp add: algebra_simps)
  finally show ?thesis by (simp add: lcg_def)
qed

lemma lcg_less: "lcg k x < lcg_m"
  by (simp add: lcg_def lcg_m_def)

lemma lcg_add: "lcg (m + k) x = lcg m (lcg k x)"
proof (induction m)
  case 0
  then show ?case using lcg_less [of k x] by (simp add: lcg_def [of 0 "lcg k x"])
next
  case (Suc m)
  then show ?case using lcg_Suc [of "m + k" x] lcg_Suc [of m "lcg k x"] by simp
qed

text \<open>The sum of a geometric progression with ratio 1 modulo 4 has the twos of its length.\<close>

lemma lcg_a_mod_4: "lcg_a ^ k mod 4 = 1"
proof (induction k)
  case (Suc k)
  have "lcg_a ^ Suc k mod 4 = (lcg_a mod 4) * (lcg_a ^ k mod 4) mod 4" by (simp add: mod_mult_eq)
  with Suc show ?case by (simp add: lcg_a_def)
qed simp

lemma geometric_closed: "int (geometric k) * (int lcg_a - 1) = int lcg_a ^ k - 1"
  by (induction k) (simp_all add: algebra_simps)

lemma geometric_double: "geometric (2 * k) = geometric k * (1 + lcg_a ^ k)"
proof -
  have nz: "int lcg_a - 1 \<noteq> 0" by (simp add: lcg_a_def)
  have "int (geometric (2 * k)) * (int lcg_a - 1) = int lcg_a ^ (k + k) - 1"
    by (simp only: geometric_closed mult_2)
  also have "\<dots> = (int lcg_a ^ k - 1) * (1 + int lcg_a ^ k)" by (simp add: power_add algebra_simps)
  also have "\<dots> = int (geometric k * (1 + lcg_a ^ k)) * (int lcg_a - 1)"
    by (simp only: geometric_closed [symmetric] of_nat_mult of_nat_add of_nat_1 of_nat_power mult_ac)
  finally show ?thesis using nz by (metis mult_right_cancel of_nat_eq_iff)
qed

lemma odd_geometric: "odd (geometric k) \<longleftrightarrow> odd k"
  by (induction k) (simp_all add: lcg_a_def)

lemma half_odd:
  assumes "n mod 4 = (2 :: nat)"
  obtains h where "n = 2 * h" and "odd h"
proof
  show "n = 2 * (n div 2)" using assms by presburger
  show "odd (n div 2)" using assms by presburger
qed

lemma power_dvd_geometric: "2 ^ k dvd geometric d \<Longrightarrow> 2 ^ k dvd d"
proof (induction k arbitrary: d)
  case 0
  then show ?case by simp
next
  case (Suc k)
  then have "even (geometric d)" by (metis dvd_trans dvd_triv_left power_Suc)
  then obtain e where d: "d = 2 * e" using odd_geometric by blast
  have "(1 + lcg_a ^ e) mod 4 = 2" using lcg_a_mod_4 [of e] by (simp add: mod_Suc)
  then obtain h where h: "1 + lcg_a ^ e = 2 * h" "odd h" by (rule half_odd)
  have "geometric d = 2 * (geometric e * h)" unfolding d geometric_double h(1) by simp
  with Suc.prems have "2 ^ k dvd geometric e * h" by simp
  moreover have "coprime (2 ^ k) h" using h(2) by simp
  ultimately have "2 ^ k dvd geometric e" by (simp add: coprime_dvd_mult_left_iff)
  then show ?case using Suc.IH [of e] by (simp add: d)
qed

lemma lcg_period:
  assumes "lcg d y = y"
  shows "lcg_m dvd d"
proof -
  let ?o = "(int lcg_a - 1) * int y + int lcg_c"
  have "(int lcg_a ^ d * int y + int lcg_c * int (geometric d)) mod int lcg_m = int y mod int lcg_m"
    using arg_cong [OF assms, of "\<lambda>z. int (z mod lcg_m)"] by (simp add: lcg_def zmod_int)
  then have "int lcg_m dvd (int lcg_a ^ d * int y + int lcg_c * int (geometric d)) - int y"
    by (simp only: mod_eq_dvd_iff)
  also have "(int lcg_a ^ d * int y + int lcg_c * int (geometric d)) - int y =
      (int lcg_a ^ d - 1) * int y + int lcg_c * int (geometric d)" by (simp add: algebra_simps)
  also have "\<dots> = int (geometric d) * ?o" by (simp only: geometric_closed [symmetric]) (simp add: algebra_simps)
  finally have "int lcg_m dvd int (geometric d) * ?o" .
  moreover have "odd ?o" by (simp add: lcg_a_def lcg_c_def)
  then have "coprime (int lcg_m) ?o" by (simp add: lcg_m_def coprime_power_left_iff del: power_numeral)
  ultimately have "int lcg_m dvd int (geometric d)" by (simp add: coprime_dvd_mult_left_iff)
  then have "2 ^ 48 dvd geometric d" by (simp only: int_dvd_int_iff lcg_m_def)
  then show ?thesis unfolding lcg_m_def by (rule power_dvd_geometric)
qed

lemma lcg_distinct:
  assumes "k < m" and "m \<le> lcg_m" and "1 \<le> k"
  shows "lcg k x \<noteq> lcg m x"
proof
  assume "lcg k x = lcg m x"
  with assms(1) have "lcg (m - k) (lcg k x) = lcg k x" using lcg_add [of "m - k" k x] by simp
  then have "lcg_m \<le> m - k" using assms(1) by (intro dvd_imp_le lcg_period) auto
  with assms show False by simp
qed

lemma lcg_inj: "inj_on (\<lambda>k. lcg k x) {1..lcg_m}"
proof (rule inj_onI)
  fix i j assume "i \<in> {1..lcg_m}" "j \<in> {1..lcg_m}" "lcg i x = lcg j x"
  then show "i = j" using lcg_distinct [of i j x] lcg_distinct [of j i x] by (cases i j rule: linorder_cases) auto
qed

lemma lcg_reaches:
  assumes "y < lcg_m"
  shows "\<exists>k. lcg (Suc k) x = y"
proof -
  have "(\<lambda>k. lcg k x) ` {1..lcg_m} = {..<lcg_m}"
  proof (rule card_subset_eq)
    show "(\<lambda>k. lcg k x) ` {1..lcg_m} \<subseteq> {..<lcg_m}" using lcg_less by blast
    show "card ((\<lambda>k. lcg k x) ` {1..lcg_m}) = card {..<lcg_m}" using card_image [OF lcg_inj, of x] by simp
  qed simp
  with assms obtain k where "k \<in> {1..lcg_m}" "lcg k x = y" by (metis imageE lessThan_iff)
  then show ?thesis by (cases k) auto
qed

section \<open>The loop\<close>

lemma seed_mask_eq: "seed_mask = mask 48"
  by (simp add: seed_mask_def mask_eq_exp_minus_1)

lemma unat_next_seed: "unat (next_seed s) = (lcg_a * unat s + lcg_c) mod lcg_m"
proof -
  have "unat (next_seed s) = unat (s * 0x5DEECE66D + 0xB) mod 2 ^ 48"
    unfolding next_seed_def seed_mask_eq take_bit_eq_mask [symmetric] unsigned_take_bit_eq
      take_bit_eq_mod [where 'a = nat] ..
  also have "\<dots> = (unat s * 0x5DEECE66D + 0xB) mod 2 ^ 64 mod 2 ^ 48"
    by (simp add: unat_word_ariths mod_simps)
  also have "\<dots> = (lcg_a * unat s + lcg_c) mod 2 ^ 48"
    by (simp add: mod_mod_cancel lcg_a_def lcg_c_def mult.commute)
  finally show ?thesis by (simp add: lcg_m_def)
qed

lemma unat_next_seeds: "unat ((next_seed ^^ Suc k) s) = lcg (Suc k) (unat s)"
proof (induction k)
  case 0
  then show ?case by (simp add: unat_next_seed lcg_def)
next
  case (Suc k)
  then show ?case using lcg_Suc [of "Suc k" "unat s"] unat_next_seed [of "(next_seed ^^ Suc k) s"] by simp
qed

lemma sint_small:
  fixes w :: u64
  assumes "uint w < 2 ^ 31"
  shows "sint (ucast w :: 32 word) = uint w"
proof -
  have "sint (ucast w :: 32 word) = signed_take_bit 31 (uint w)" by (simp add: signed_ucast_eq)
  also have "\<dots> = uint w"
    using assms order_trans [OF _ uint_ge_0, of "- (2 ^ 31)" w] by (intro signed_take_bit_int_eq_self) simp_all
  finally show ?thesis .
qed

lemma next_bits_range: "0 \<le> fst (next_bits 31 s) \<and> fst (next_bits 31 s) < 2 ^ 31"
proof -
  let ?w = "drop_bit 17 (next_seed s)"
  have "unat (next_seed s) < 2 ^ 48" using unat_next_seed [of s] by (simp add: lcg_m_def)
  then have "int (unat (next_seed s)) < int (2 ^ 48)" by (simp only: of_nat_less_iff)
  then have s: "uint (next_seed s) < 2 ^ 48" by simp
  then have "take_bit 64 (uint (next_seed s)) = uint (next_seed s)" by (intro take_bit_int_eq_self) simp_all
  then have "uint ?w = uint (next_seed s) div 2 ^ 17"
    by (simp only: unsigned_drop_bit_eq drop_bit_eq_div [where 'a = int]) simp
  moreover have "x div 2 ^ 17 < 2 ^ 31" if "x < 2 ^ 48" for x :: int using that by (simp; arith)
  ultimately have w: "uint ?w < 2 ^ 31" using s by (simp only:)
  have "fst (next_bits 31 s) = sint (ucast ?w :: 32 word)"
    unfolding next_bits_def Let_def by (simp only: fst_conv) simp
  with sint_small [OF w] w show ?thesis by (simp only: uint_ge_0)
qed

definition accepts_draw :: "int \<Rightarrow> u64 \<Rightarrow> bool" where
  "accepts_draw n s \<longleftrightarrow> wrap_i32 (fst (next_bits 31 s) - fst (next_bits 31 s) mod n + n) > 0"

lemma draw_unfold:
  "draw n s = (if accepts_draw n s then Some (fst (next_bits 31 s) mod n, next_seed s) else draw n (next_seed s))"
  by (subst draw.simps) (simp add: accepts_draw_def next_bits_def Let_def)

lemma wrap_i32_id: "- (2 ^ 31) \<le> k \<Longrightarrow> k < 2 ^ 31 \<Longrightarrow> wrap_i32 k = k"
  by (simp add: wrap_i32_def)

lemma accepts_zero:
  assumes "next_seed s = 0" and "0 < n" and "n < 2 ^ 31"
  shows "accepts_draw n s"
  using assms by (simp add: accepts_draw_def next_bits_def wrap_i32_id)

lemma draw_returns_within:
  assumes "accepts_draw n ((next_seed ^^ k) s)" and "0 < n"
  shows "\<exists>v s'. draw n s = Some (v, s') \<and> 0 \<le> v \<and> v < n"
  using assms(1)
proof (induction k arbitrary: s)
  case 0
  then show ?case using assms(2) by (subst draw_unfold) simp
next
  case (Suc k)
  then have "accepts_draw n ((next_seed ^^ k) (next_seed s))" by (simp only: funpow_Suc_right o_apply)
  then obtain v s' where "draw n (next_seed s) = Some (v, s')" "0 \<le> v" "v < n" using Suc.IH by blast
  then show ?case using assms(2) by (subst draw_unfold) auto
qed

lemma draw_returns:
  assumes "0 < n" and "n < 2 ^ 31"
  shows "\<exists>v s'. draw n s = Some (v, s') \<and> 0 \<le> v \<and> v < n"
proof -
  obtain k where "lcg (Suc k) (unat s) = 0" using lcg_reaches [of 0 "unat s"] by (auto simp: lcg_m_def)
  then have "(next_seed ^^ Suc k) s = 0" using unat_next_seeds [of k s] by (simp only: unat_eq_zero)
  then have "accepts_draw n ((next_seed ^^ k) s)" using assms by (intro accepts_zero) simp_all
  from this assms(1) show ?thesis by (rule draw_returns_within)
qed

lemma next_int_returns:
  assumes "0 < n" and "n < 2 ^ 31"
  shows "\<exists>v s'. next_int n s = Ok (v, s') \<and> 0 \<le> v \<and> v < n"
proof (cases "is_power_of_two n")
  case True
  obtain bits s' where b: "next_bits 31 s = (bits, s')" by (cases "next_bits 31 s")
  with next_bits_range [of s] have r: "0 \<le> bits" "bits < 2 ^ 31" by simp_all
  have "n * bits < n * 2 ^ 31" using assms r by (intro mult_strict_left_mono) simp_all
  moreover have "n * bits = n * bits div 2 ^ 31 * 2 ^ 31 + n * bits mod 2 ^ 31" by simp
  moreover have "0 \<le> n * bits mod 2 ^ 31" by simp
  ultimately have "n * bits div 2 ^ 31 * 2 ^ 31 < n * 2 ^ 31" by linarith
  then have "n * bits div 2 ^ 31 < n" by simp
  moreover have "0 \<le> n * bits div 2 ^ 31" using assms r by (simp add: pos_imp_zdiv_nonneg_iff)
  ultimately show ?thesis using True assms b by (simp add: next_int_def wrap_i32_id)
next
  case False
  with assms draw_returns [OF assms, of s] show ?thesis by (auto simp: next_int_def)
qed

end
