(* ===== verification/Schedule_Fields.thy ===== *)
theory Schedule_Fields
  imports Schedule_Hash
begin

text \<open>
  What the fields of a schedule expression denote: the loops over a range return and set the bits of
  an arithmetic progression, so an expression is parsed into the sets it is written for.
\<close>

unbundle bit_operations_syntax

section \<open>Bits\<close>

lemma bit_set_iff: "bit_set bits n \<longleftrightarrow> 0 \<le> n \<and> n < 64 \<and> bit bits (nat n)"
  by (auto simp: bit_set_def bit_iff_odd_drop_bit and_one_eq odd_iff_mod_2_eq_one)

lemma bit_set_or [simp]: "bit_set (a OR b) n \<longleftrightarrow> bit_set a n \<or> bit_set b n"
  by (auto simp: bit_set_iff bit_or_iff)

lemma bit_set_0 [simp]: "\<not> bit_set 0 n"
  by (simp add: bit_set_iff)

lemma bit_set_at: "0 \<le> v \<Longrightarrow> v < 64 \<Longrightarrow> bit_set (bit_at v) n \<longleftrightarrow> n = v"
  by (auto simp: bit_set_iff bit_at_def bit_exp_iff)

lemma nonzero_iff: "bits \<noteq> 0 \<longleftrightarrow> (\<exists>n. bit_set bits n)"
proof
  assume "bits \<noteq> 0"
  then obtain k where k: "bit bits k" by (metis bit_eqI bit_0_eq bot_apply bot_bool_def)
  then have "k < 64" using bit_imp_le_length [of bits k] by simp
  with k have "bit_set bits (int k)" by (simp add: bit_set_iff)
  then show "\<exists>n. bit_set bits n" ..
qed auto

section \<open>Ranges\<close>

text \<open>The largest step that no cursor of a field overflows with.\<close>

definition tame :: "int \<Rightarrow> bool" where
  "tame step \<longleftrightarrow> 0 < step \<and> step < 2 ^ 31 - 59"

lemma progression_step:
  assumes "0 < (step :: int)"
  shows "v = c \<or> (c + step \<le> v \<and> step dvd v - (c + step)) \<longleftrightarrow> c \<le> v \<and> step dvd v - c"
proof -
  have "step dvd v - (c + step) \<longleftrightarrow> step dvd v - c"
    using dvd_add_triv_right_iff [of step "v - (c + step)"] by simp
  moreover have "c + step \<le> v" if "c \<le> v" "v \<noteq> c" "step dvd v - c"
    using that zdvd_imp_le [of step "v - c"] by simp
  ultimately show ?thesis using assms by auto
qed

lemma range_loop_tame:
  assumes "tame step" and "till \<le> 59"
  shows "0 \<le> cursor \<Longrightarrow> cursor < 2 ^ 31 \<Longrightarrow> \<exists>r. range_loop till step cursor acc = Some r \<and>
    (\<forall>v. bit_set r v \<longleftrightarrow> bit_set acc v \<or> (cursor \<le> v \<and> step dvd v - cursor \<and> v \<le> till))"
proof (induction "nat (till + 1 - cursor)" arbitrary: cursor acc rule: less_induct)
  case less
  show ?case
  proof (cases "cursor \<le> till")
    case False
    then show ?thesis by (subst range_loop.simps) auto
  next
    case True
    let ?next = "cursor + step"
    have step: "0 < step" "cursor + step < 2 ^ 31" using assms True by (simp_all add: tame_def)
    have wrap: "wrap_i32 ?next = ?next" using less.prems step by (intro wrap_i32_id) simp_all
    obtain r where r: "range_loop till step ?next (acc OR bit_at cursor) = Some r"
      "\<forall>v. bit_set r v \<longleftrightarrow> bit_set (acc OR bit_at cursor) v \<or> (?next \<le> v \<and> step dvd v - ?next \<and> v \<le> till)"
      using less.hyps [of ?next "acc OR bit_at cursor"] less.prems step True by auto
    have "range_loop till step cursor acc = Some r" using True r(1) wrap by (subst range_loop.simps) simp
    moreover have "bit_set (bit_at cursor) v \<longleftrightarrow> v = cursor" for v
      using less.prems True assms by (intro bit_set_at) simp_all
    moreover have "bit_set acc v \<or> v = cursor \<or> (?next \<le> v \<and> step dvd v - ?next \<and> v \<le> till) \<longleftrightarrow>
        bit_set acc v \<or> (cursor \<le> v \<and> step dvd v - cursor \<and> v \<le> till)" for v
      using progression_step [OF step(1), of v cursor] True by blast
    ultimately show ?thesis using r(2) by (simp add: disj_assoc)
  qed
qed

lemma wrap_i32_over: "2 ^ 31 \<le> k \<Longrightarrow> k < 3 * 2 ^ 31 \<Longrightarrow> wrap_i32 k = k - 2 ^ 32"
proof -
  assume k: "2 ^ 31 \<le> k" "k < 3 * 2 ^ 31"
  have "(k + 2 ^ 31) mod 2 ^ 32 = (k - 2 ^ 31) mod 2 ^ 32"
    using mod_add_self2 [of "k - 2 ^ 31" "2 ^ 32"] by (simp add: add.commute)
  also have "\<dots> = k - 2 ^ 31" using k by (intro mod_pos_pos_trivial) simp_all
  finally show ?thesis by (simp add: wrap_i32_def)
qed

text \<open>With a larger step the cursor wraps around, but the loop still ends.\<close>

lemma range_loop_wild:
  assumes step: "2 ^ 31 - 59 \<le> step" "step < 2 ^ 31" and till: "till \<le> 59"
  shows "step - 2 ^ 31 \<le> cursor \<Longrightarrow> cursor \<le> till \<Longrightarrow> \<exists>r. range_loop till step cursor acc = Some r"
proof (induction "nat cursor" arbitrary: cursor acc rule: less_induct)
  case less
  show ?case
  proof (cases "cursor + step < 2 ^ 31")
    case True
    then have "wrap_i32 (cursor + step) = cursor + step" using less.prems step by (intro wrap_i32_id) simp_all
    moreover have "\<not> cursor + step \<le> till" using less.prems step till by simp
    ultimately have "range_loop till step cursor acc = Some (acc OR bit_at cursor)"
      using less.prems by (subst range_loop.simps, subst range_loop.simps) simp
    then show ?thesis ..
  next
    case False
    let ?c = "cursor + step - 2 ^ 32" and ?d = "cursor + 2 * step - 2 ^ 32"
    have "wrap_i32 (cursor + step) = ?c" using False less.prems step till by (intro wrap_i32_over) simp_all
    moreover have "wrap_i32 (?c + step) = ?d" using False less.prems step till
      by (subst wrap_i32_id) (simp_all add: algebra_simps)
    moreover have "?c \<le> till" using less.prems step till False by simp
    ultimately have eq: "range_loop till step cursor acc = range_loop till step ?d (acc OR bit_at cursor OR bit_at ?c)"
      using less.prems by (subst range_loop.simps, subst range_loop.simps) (simp add: ac_simps)
    show ?thesis
      unfolding eq using False less.prems step by (intro less.hyps) auto
  qed
qed

lemma range_bits_returns:
  assumes "0 < step" and "step < 2 ^ 31" and "till \<le> 59" and "0 \<le> start" and "start \<le> 59"
  shows "\<exists>r. range_bits start till step = Ok r"
proof (cases "tame step")
  case True
  with range_loop_tame [OF True assms(3,4), of 0] assms show ?thesis by (auto simp: range_bits_def)
next
  case False
  then have wild: "2 ^ 31 - 59 \<le> step" using assms(1) by (simp add: tame_def)
  show ?thesis
  proof (cases "start \<le> till")
    case True
    with range_loop_wild [OF wild assms(2,3), of start 0] assms show ?thesis by (auto simp: range_bits_def)
  next
    case False
    then show ?thesis by (simp add: range_bits_def range_loop.simps [of till step start])
  qed
qed

lemma range_bits_tame:
  assumes "tame step" and "till \<le> 59" and "0 \<le> start" and "start < 2 ^ 31"
  shows "\<exists>r. range_bits start till step = Ok r \<and>
    (\<forall>v. bit_set r v \<longleftrightarrow> start \<le> v \<and> step dvd v - start \<and> v \<le> till)"
  using range_loop_tame [OF assms, of 0] by (auto simp: range_bits_def)

section \<open>Parsing returns\<close>

definition settled :: "('a, schedule_error) result \<Rightarrow> bool" where
  "settled r \<longleftrightarrow> r \<noteq> Err Diverged \<and> r \<noteq> Err Panicked"

lemma settled_simps [simp]: "settled (Ok x)" "settled (Err (InvalidTriggerIngress e))" "settled (ok_or (InvalidTriggerIngress e) v)"
  by (simp_all add: settled_def ok_or_def split: option.split)

lemma settled_and_then: "settled m \<Longrightarrow> (\<And>x. m = Ok x \<Longrightarrow> settled (f x)) \<Longrightarrow> settled (and_then m f)"
  by (cases m) (auto simp: settled_def)

lemma settled_try_fold: "(\<And>s x. x \<in> set xs \<Longrightarrow> settled (f s x)) \<Longrightarrow> settled (try_fold f s xs)"
  by (induction xs arbitrary: s) (auto intro: settled_and_then)

lemma settled_try_fold_index:
  "(\<And>i s x. i < k + length xs \<Longrightarrow> settled (f i s x)) \<Longrightarrow> settled (try_fold_index k f s xs)"
  by (induction xs arbitrary: k s) (auto intro!: settled_and_then)

lemma parse_positive_Ok: "parse_positive s = Ok v \<Longrightarrow> 0 < v \<and> v < 2 ^ 31 \<and> parse_i32 s = Some v"
  by (auto simp: parse_positive_def parse_i32_def parse_int_def Let_def ok_simps split: if_splits prod.splits)

lemma parse_bounded_Ok: "parse_bounded s lower upper = Ok v \<Longrightarrow> lower \<le> v \<and> v \<le> upper"
  by (auto simp: parse_bounded_def ok_simps)

lemma parse_numbers_settled [simp]: "settled (parse_positive s)" "settled (parse_bounded s lower upper)"
  by (auto simp: parse_positive_def parse_bounded_def intro!: settled_and_then)

lemma range_bits_settled:
  "0 < step \<Longrightarrow> step < 2 ^ 31 \<Longrightarrow> till \<le> 59 \<Longrightarrow> 0 \<le> start \<Longrightarrow> start \<le> 59 \<Longrightarrow> settled (range_bits start till step)"
  using range_bits_returns [of step till start] by auto

lemma next_int_settled: "0 < n \<Longrightarrow> n < 2 ^ 31 \<Longrightarrow> settled (next_int n s)"
  using next_int_returns [of n s] by auto

lemma next_int_Ok: "next_int n s = Ok (v, s') \<Longrightarrow> n < 2 ^ 31 \<Longrightarrow> 0 \<le> v \<and> v < n"
  using next_int_returns [of n s] by (cases "0 < n") (auto simp: next_int_def)

definition field_bounds :: "nat \<Rightarrow> int \<Rightarrow> int \<Rightarrow> bool" where
  "field_bounds index lower upper \<longleftrightarrow> 0 \<le> lower \<and> lower \<le> upper \<and> upper \<le> 59 \<and>
     lower \<le> hash_upper index upper \<and> hash_upper index upper \<le> upper"

lemma field_bounds_fields: "index < 5 \<Longrightarrow> field_bounds index (FIELD_LOWER ! index) (FIELD_UPPER ! index)"
proof -
  assume "index < 5"
  then have "index \<in> {0, 1, 2, 3, 4}" by auto
  then show ?thesis by (auto simp: field_bounds_def FIELD_LOWER_def FIELD_UPPER_def hash_upper_def)
qed

lemma parse_hash_range_settled:
  assumes "0 \<le> lower" and "upper \<le> 59"
  shows "settled (parse_hash_range inner lower upper s)"
proof -
  have "settled (hash_range inner)"
    by (auto simp: hash_range_def intro!: settled_and_then split: option.splits)
  moreover have "0 \<le> step \<and> step < 2 ^ 31" if "hash_range inner = Ok (t, step)" for t step
    using that by (auto simp: hash_range_def ok_simps split: option.splits dest!: parse_positive_Ok)
  ultimately show ?thesis
    using assms unfolding parse_hash_range_def
    by (auto intro!: settled_and_then next_int_settled range_bits_settled dest!: parse_bounded_Ok next_int_Ok)
qed

lemma parse_hash_part_settled:
  assumes "field_bounds index lower upper"
  shows "settled (parse_hash_part part index lower upper s)"
  using assms unfolding parse_hash_part_def Let_def field_bounds_def
  by (auto intro!: settled_and_then next_int_settled range_bits_settled parse_hash_range_settled
      dest!: parse_positive_Ok next_int_Ok split: option.split)

lemma parse_plain_part_settled:
  assumes "field_bounds index lower upper"
  shows "settled (parse_plain_part part lower upper)"
  using assms unfolding parse_plain_part_def parse_range_part_def field_bounds_def
  by (auto intro!: settled_and_then range_bits_settled dest!: parse_positive_Ok parse_bounded_Ok simp: ok_simps split: option.splits)

lemma parse_field_part_settled:
  assumes "field_bounds index lower upper"
  shows "settled (parse_field_part part index lower upper s)"
  using assms parse_hash_part_settled [OF assms] parse_plain_part_settled [OF assms]
  unfolding parse_field_part_def field_bounds_def
  by (auto intro!: settled_and_then range_bits_settled dest!: parse_positive_Ok split: option.splits)

lemma parse_field_settled: "index < 5 \<Longrightarrow> settled (parse_field field index s)"
  unfolding parse_field_def
  by (auto intro!: settled_try_fold settled_and_then parse_field_part_settled field_bounds_fields)

text \<open>
  C17. Parsing a schedule expression always returns bits or a configuration error, whatever the hash
  function and the seed: the generator behind the hashed fields has full period, so its rejection
  loop ends for every seed and never meets its assertion, and every loop over a range ends, also
  with a step for which the cursor wraps around.
\<close>

theorem parse_cron_expression_returns:
  "(\<exists>bits. parse_cron_expression md5 expression seed = Ok bits) \<or>
   (\<exists>message. parse_cron_expression md5 expression seed = Err (InvalidTriggerIngress message))"
proof -
  have "settled (parse_cron_expression md5 expression seed)"
    unfolding parse_cron_expression_def Let_def
    by (auto intro!: settled_and_then settled_try_fold_index parse_field_settled)
  then show ?thesis
  proof (cases "parse_cron_expression md5 expression seed")
    case (Err e)
    with \<open>settled _\<close> show ?thesis by (cases e) (auto simp: settled_def)
  qed auto
qed

section \<open>The field of a set bit\<close>

definition within :: "int \<Rightarrow> int \<Rightarrow> u64 \<Rightarrow> bool" where
  "within lower upper r \<longleftrightarrow> (\<forall>v. bit_set r v \<longrightarrow> lower \<le> v \<and> v \<le> upper)"

definition tame_text :: "string \<Rightarrow> bool" where
  "tame_text s \<longleftrightarrow> (\<forall>v. parse_i32 s = Some v \<longrightarrow> v < 2 ^ 31 - 59)"

definition tame_part :: "string \<Rightarrow> bool" where
  "tame_part p \<longleftrightarrow> (\<forall>a b. p = a @ CHR ''/'' # b \<longrightarrow> tame_text b)"

lemma within_simps [simp]:
  "within lower upper 0"
  "within lower upper (a OR b) \<longleftrightarrow> within lower upper a \<and> within lower upper b"
  by (auto simp: within_def)

lemma within_bit_at: "0 \<le> v \<Longrightarrow> v < 64 \<Longrightarrow> within lower upper (bit_at v) \<longleftrightarrow> lower \<le> v \<and> v \<le> upper"
  by (simp add: within_def bit_set_at)

lemma within_rangeD:
  assumes "range_bits start till step = Ok r"
  shows "tame step \<longrightarrow> till \<le> 59 \<longrightarrow> 0 \<le> start \<longrightarrow> start \<le> 59 \<longrightarrow> lower \<le> start \<longrightarrow> till \<le> upper \<longrightarrow>
    within lower upper r"
  using range_bits_tame [of step till start] assms by (auto simp: within_def)

lemma tame_positive: "parse_positive s = Ok v \<Longrightarrow> tame_text s \<Longrightarrow> tame v"
  by (auto simp: tame_def tame_text_def dest!: parse_positive_Ok)

lemma within_hash_range:
  assumes "parse_hash_range inner lower upper s = Ok (b, s')" and "0 \<le> lower" and "upper \<le> 59"
  shows "within lower upper b"
proof -
  have tame_small: "tame step" if "0 \<le> step" "step \<noteq> 0" "step \<le> 60" for step using that by (simp add: tame_def)
  have "0 \<le> step" if "hash_range inner = Ok (t, step)" for t step
    using that by (auto simp: hash_range_def ok_simps split: option.splits dest!: parse_positive_Ok)
  then show ?thesis
    using assms unfolding parse_hash_range_def
    by (auto simp: ok_simps within_bit_at split: if_splits dest!: parse_bounded_Ok next_int_Ok
        within_rangeD [where lower = lower and upper = upper] intro: tame_small)
qed

lemma within_hash_part:
  assumes "parse_hash_part part index lower upper s = Ok (b, s')" and "field_bounds index lower upper"
  shows "within lower upper b"
proof -
  let ?hu = "hash_upper index upper"
  have b: "0 \<le> lower" "?hu \<le> 59" "?hu \<le> upper" using assms(2) by (simp_all add: field_bounds_def)
  have "within lower ?hu b"
    using assms(1) b unfolding parse_hash_part_def Let_def
    by (auto simp: ok_simps within_bit_at tame_def split: if_splits option.splits dest!: parse_positive_Ok next_int_Ok
        within_rangeD [where lower = lower and upper = ?hu] intro: within_hash_range)
  with b show ?thesis by (force simp: within_def)
qed

lemma within_plain_part:
  assumes "parse_plain_part part lower upper = Ok b" and "field_bounds index lower upper" and "tame_part part"
  shows "within lower upper b"
proof -
  have fb: "0 \<le> lower" "upper \<le> 59" using assms(2) by (simp_all add: field_bounds_def)
  have after: "tame_text c" if "part = a @ CHR ''/'' # c" for a c using assms(3) that by (auto simp: tame_part_def)
  have one: "tame 1" by (simp add: tame_def)
  consider (range) st rest where "split_once CHR ''-'' part = Some (st, rest)" "parse_range_part st rest lower upper = Ok b"
    | (from_start) st step where "split_once CHR ''/'' part = Some (st, step)"
        "and_then (parse_bounded st lower upper) (\<lambda>start. and_then (parse_positive step) (range_bits start upper)) = Ok b"
    | (single) v where "parse_bounded part lower upper = Ok v" "b = bit_at v"
    using assms(1) by (auto simp: parse_plain_part_def ok_simps split: option.splits)
  then show ?thesis
  proof cases
    case range
    have "tame_text c" if "split_once CHR ''/'' rest = Some (a, c)" for a c
      using range(1) that after [of "st @ CHR ''-'' # a" c] by (simp add: split_once_eq_Some)
    with range(2) fb one show ?thesis
      by (auto simp: parse_range_part_def ok_simps split: option.splits if_splits
          dest!: parse_bounded_Ok within_rangeD [where lower = lower and upper = upper] dest: tame_positive)
  next
    case from_start
    then have "tame_text step" using after by (auto simp: split_once_eq_Some)
    with from_start(2) fb show ?thesis
      by (auto simp: ok_simps dest!: parse_bounded_Ok within_rangeD [where lower = lower and upper = upper] dest: tame_positive)
  next
    case single
    with fb show ?thesis by (auto simp: within_bit_at dest!: parse_bounded_Ok)
  qed
qed

lemma within_field_part:
  assumes "parse_field_part part index lower upper s = Ok (b, s')" and fb: "field_bounds index lower upper" and "tame_part part"
  shows "within lower upper b"
proof -
  have bounds: "0 \<le> lower" "lower \<le> upper" "upper \<le> 59" and one: "tame 1" using fb by (simp_all add: field_bounds_def tame_def)
  have star: "tame_text rest" if "strip_prefix ''*/'' part = Some rest" for rest
    using that assms(3) by (auto simp: strip_prefix_eq_Some tame_part_def)
  show ?thesis
    using assms(1) bounds one star within_hash_part [OF _ fb] within_plain_part [OF _ fb assms(3)]
    unfolding parse_field_part_def
    by (auto simp: ok_simps split: if_splits option.splits
        dest!: within_rangeD [where lower = lower and upper = upper] dest: tame_positive)
qed

lemma within_field:
  assumes "parse_field field index s = Ok (b, s')" and "index < 5" and "\<forall>part\<in>set (split_on CHR '','' field). tame_part part"
  shows "within (FIELD_LOWER ! index) (FIELD_UPPER ! index) b"
proof -
  let ?P = "\<lambda>(b, s :: u64). within (FIELD_LOWER ! index) (FIELD_UPPER ! index) b"
  have "?P (b, s')"
    using assms(1) unfolding parse_field_def
    by (rule try_fold_invariant)
      (use assms(3) within_field_part [OF _ field_bounds_fields [OF assms(2)]] in \<open>auto simp: ok_simps\<close>)
  then show ?thesis by simp
qed

section \<open>Sunday\<close>

lemma bit_set_sunday:
  assumes "length bits = 5" and "within 0 7 (bits ! 4)"
  shows "bit_set (sunday_alias bits ! 4) v \<longleftrightarrow> v \<noteq> 7 \<and> (bit_set (bits ! 4) v \<or> v = 0 \<and> bit_set (bits ! 4) 7)"
proof (cases "bit_set (bits ! 4) 7")
  case True
  have seven: "bit (push_bit 7 (1 :: u64)) n \<longleftrightarrow> n = 7" for n
    by (simp only: bit_push_bit_iff bit_1_iff) (auto simp: possible_bit_word)
  have one: "bit_set (1 :: u64) v \<longleftrightarrow> v = 0" by (auto simp: bit_set_iff bit_1_iff)
  have not7: "bit_set (a AND NOT (push_bit 7 1)) v \<longleftrightarrow> bit_set a v \<and> v \<noteq> 7" for a :: u64
    unfolding bit_set_iff bit_and_iff bit_not_iff seven by (auto simp: possible_bit_word)
  show ?thesis
    using True assms(1) unfolding sunday_alias_def by (simp add: not7 one conj_commute del: push_bit_of_1)
next
  case False
  then show ?thesis by (auto simp: sunday_alias_def)
qed

lemma sunday_alias_other: "length bits = 5 \<Longrightarrow> i \<noteq> 4 \<Longrightarrow> sunday_alias bits ! i = bits ! i"
  by (simp add: sunday_alias_def)

lemma length_sunday_alias [simp]: "length (sunday_alias bits) = length bits"
  by (simp add: sunday_alias_def)

section \<open>Accepted expressions\<close>

text \<open>What the loop over the fields returns.\<close>

lemma parse_fields_Ok:
  assumes "try_fold_index k (\<lambda>index (bits, s) field. and_then (parse_field field index s) (\<lambda>(b, s).
       if b = 0 then Err (e index) else Ok (bits @ [b], s))) (bits, s) texts = Ok (bits', s')"
  shows "\<exists>bs. bits' = bits @ bs \<and> length bs = length texts \<and>
    (\<forall>i<length texts. bs ! i \<noteq> 0 \<and> (\<exists>s s'. parse_field (texts ! i) (k + i) s = Ok (bs ! i, s')))"
  using assms
proof (induction texts arbitrary: k bits s)
  case Nil
  then show ?case by simp
next
  case (Cons field texts)
  then obtain b s1 where b: "parse_field field k s = Ok (b, s1)" "b \<noteq> 0"
    and rest: "try_fold_index (Suc k) (\<lambda>index (bits, s) field. and_then (parse_field field index s) (\<lambda>(b, s).
       if b = 0 then Err (e index) else Ok (bits @ [b], s))) (bits @ [b], s1) texts = Ok (bits', s')"
    by (auto simp: ok_simps split: if_splits)
  from Cons.IH [OF rest] obtain bs where bs: "bits' = (bits @ [b]) @ bs" "length bs = length texts"
    "\<forall>i<length texts. bs ! i \<noteq> 0 \<and> (\<exists>s s'. parse_field (texts ! i) (Suc k + i) s = Ok (bs ! i, s'))" by blast
  have "\<forall>i<length (field # texts). (b # bs) ! i \<noteq> 0 \<and>
      (\<exists>s s'. parse_field ((field # texts) ! i) (k + i) s = Ok ((b # bs) ! i, s'))"
  proof (intro allI impI)
    fix i assume "i < length (field # texts)"
    with b bs(3) show "(b # bs) ! i \<noteq> 0 \<and> (\<exists>s s'. parse_field ((field # texts) ! i) (k + i) s = Ok ((b # bs) ! i, s'))"
      by (cases i) auto
  qed
  with bs show ?case by (intro exI [of _ "b # bs"]) simp
qed

definition tame_expression :: "string \<Rightarrow> bool" where
  "tame_expression e \<longleftrightarrow> (\<forall>field\<in>set (split_ascii_whitespace e). \<forall>part\<in>set (split_on CHR '','' field). tame_part part)"

definition calendar_bits :: "u64 list \<Rightarrow> bool" where
  "calendar_bits bits \<longleftrightarrow> length bits = 5 \<and> (\<forall>i<5. (\<exists>v. bit_set (bits ! i) v) \<and>
     (\<forall>v. bit_set (bits ! i) v \<longrightarrow> FIELD_LOWER ! i \<le> v \<and> v \<le> (if i = 4 then 6 else FIELD_UPPER ! i)))"

lemma sunday_calendar_bits:
  assumes "length bits = 5" and "\<forall>i<5. bits ! i \<noteq> 0 \<and> within (FIELD_LOWER ! i) (FIELD_UPPER ! i) (bits ! i)"
  shows "calendar_bits (sunday_alias bits)"
proof -
  have four: "within 0 7 (bits ! 4)" "bits ! 4 \<noteq> 0"
    using assms(2) [rule_format, of 4] by (simp_all add: FIELD_LOWER_def FIELD_UPPER_def)
  have other: "(\<exists>v. bit_set (bits ! i) v) \<and> (\<forall>v. bit_set (bits ! i) v \<longrightarrow> FIELD_LOWER ! i \<le> v \<and> v \<le> FIELD_UPPER ! i)"
    if "i < 5" for i
    using assms(2) [rule_format, OF that] nonzero_iff [of "bits ! i"] by (simp add: within_def)
  obtain d where d: "bit_set (bits ! 4) d" using four(2) nonzero_iff by blast
  have "bit_set (sunday_alias bits ! 4) (if d = 7 then 0 else d)"
    using d by (auto simp: bit_set_sunday [OF assms(1) four(1)])
  moreover have "0 \<le> v \<and> v \<le> 6" if "bit_set (sunday_alias bits ! 4) v" for v
  proof -
    have "v \<noteq> 7 \<and> (0 \<le> v \<and> v \<le> 7)"
      using that four(1) unfolding bit_set_sunday [OF assms(1) four(1)] within_def by auto
    then show ?thesis by arith
  qed
  ultimately have day: "(\<exists>v. bit_set (sunday_alias bits ! 4) v) \<and> (\<forall>v. bit_set (sunday_alias bits ! 4) v \<longrightarrow> 0 \<le> v \<and> v \<le> 6)"
    by blast
  show ?thesis
    unfolding calendar_bits_def
  proof (intro conjI allI impI)
    fix i :: nat assume i: "i < 5"
    show "(\<exists>v. bit_set (sunday_alias bits ! i) v)"
      using other [OF i] day sunday_alias_other [OF assms(1), of i] by (cases "i = 4") auto
    fix v assume v: "bit_set (sunday_alias bits ! i) v"
    show "FIELD_LOWER ! i \<le> v"
      using v other [OF i] day sunday_alias_other [OF assms(1), of i] by (cases "i = 4") (auto simp: FIELD_LOWER_def)
    show "v \<le> (if i = 4 then 6 else FIELD_UPPER ! i)"
      using v other [OF i] day sunday_alias_other [OF assms(1), of i] by (cases "i = 4") auto
  qed (simp add: assms(1))
qed

text \<open>
  C18. A calendar that was parsed from an expression has one mask per field, every mask has a value and
  all values of a mask lie in the range of its field, with Sunday written as 7 stored as 0. The
  expression has no step so large that the cursor of a range overflows an \<open>i32\<close>.
\<close>

theorem parse_cron_expression_bounds:
  assumes "parse_cron_expression md5 expression seed = Ok bits" and "tame_expression expression"
  shows "calendar_bits bits"
proof -
  let ?fields = "split_ascii_whitespace expression"
  obtain bs where bs: "length bs = 5" "bits = sunday_alias bs" "length ?fields = 5"
    "\<forall>i<5. bs ! i \<noteq> 0 \<and> (\<exists>s s'. parse_field (?fields ! i) i s = Ok (bs ! i, s'))"
    using assms(1) by (auto simp: parse_cron_expression_def Let_def ok_simps dest!: parse_fields_Ok)
  have "within (FIELD_LOWER ! i) (FIELD_UPPER ! i) (bs ! i)" if "i < 5" for i
    using bs(3,4) that assms(2) within_field [of "?fields ! i" i] by (fastforce simp: tame_expression_def)
  with bs show ?thesis by (auto intro: sunday_calendar_bits)
qed

end
