(* ===== verification/Schedule_Grammar.thy ===== *)
theory Schedule_Grammar
  imports Schedule_Fields
begin

text \<open>
  The plain schedule expressions as an abstract grammar with its meaning: parsing the text of an
  expression and matching a civil time against the result decides membership in that meaning.
\<close>

unbundle bit_operations_syntax

section \<open>The grammar\<close>

datatype cron_part =
    Any | Any_Step int | Single int | From_Step int int | Span int int | Span_Step int int int

fun print_part :: "cron_part \<Rightarrow> string" where
  "print_part Any = ''*''"
| "print_part (Any_Step n) = ''*/'' @ show_int n"
| "print_part (Single v) = show_int v"
| "print_part (From_Step a n) = show_int a @ ''/'' @ show_int n"
| "print_part (Span a b) = show_int a @ ''-'' @ show_int b"
| "print_part (Span_Step a b n) = show_int a @ ''-'' @ show_int b @ ''/'' @ show_int n"

fun part_values :: "int \<Rightarrow> int \<Rightarrow> cron_part \<Rightarrow> int set" where
  "part_values lower upper Any = {lower..upper}"
| "part_values lower upper (Any_Step n) = {v. lower \<le> v \<and> n dvd v - lower \<and> v \<le> upper}"
| "part_values lower upper (Single v) = {v}"
| "part_values lower upper (From_Step a n) = {v. a \<le> v \<and> n dvd v - a \<and> v \<le> upper}"
| "part_values lower upper (Span a b) = {a..b}"
| "part_values lower upper (Span_Step a b n) = {v. a \<le> v \<and> n dvd v - a \<and> v \<le> b}"

fun wf_part :: "int \<Rightarrow> int \<Rightarrow> cron_part \<Rightarrow> bool" where
  "wf_part lower upper Any \<longleftrightarrow> True"
| "wf_part lower upper (Any_Step n) \<longleftrightarrow> tame n"
| "wf_part lower upper (Single v) \<longleftrightarrow> lower \<le> v \<and> v \<le> upper"
| "wf_part lower upper (From_Step a n) \<longleftrightarrow> lower \<le> a \<and> a \<le> upper \<and> tame n"
| "wf_part lower upper (Span a b) \<longleftrightarrow> lower \<le> a \<and> a \<le> b \<and> b \<le> upper"
| "wf_part lower upper (Span_Step a b n) \<longleftrightarrow> lower \<le> a \<and> a \<le> b \<and> b \<le> upper \<and> tame n"

definition print_field :: "cron_part list \<Rightarrow> string" where
  "print_field ps = join '','' (map print_part ps)"

definition print_cron :: "cron_part list list \<Rightarrow> string" where
  "print_cron e = join '' '' (map print_field e)"

definition field_values :: "cron_part list list \<Rightarrow> nat \<Rightarrow> int set" where
  "field_values e i = (\<Union>p\<in>set (e ! i). part_values (FIELD_LOWER ! i) (FIELD_UPPER ! i) p)"

definition wf_cron :: "cron_part list list \<Rightarrow> bool" where
  "wf_cron e \<longleftrightarrow> length e = 5 \<and>
     (\<forall>i<5. e ! i \<noteq> [] \<and> (\<forall>p\<in>set (e ! i). wf_part (FIELD_LOWER ! i) (FIELD_UPPER ! i) p))"

section \<open>Numbers in the text\<close>

lemma show_int_digits: "0 \<le> v \<Longrightarrow> c \<in> set (show_int v) \<Longrightarrow> is_ascii_digit c"
  by (auto simp: show_int_def dest: show_nat_digits)

lemma show_int_nonempty [simp]: "show_int v \<noteq> []"
  by (simp add: show_int_def)

lemma not_in_show_int: "0 \<le> v \<Longrightarrow> \<not> is_ascii_digit c \<Longrightarrow> c \<notin> set (show_int v)"
  using show_int_digits by blast

lemma separators_no_digits [simp]:
  "\<not> is_ascii_digit CHR ''-''" "\<not> is_ascii_digit CHR ''/''" "\<not> is_ascii_digit CHR '',''" "\<not> is_ascii_digit CHR '' ''"
  "\<not> is_ascii_digit CHR ''*''" "\<not> is_ascii_digit CHR ''H''"
  by (simp_all add: is_ascii_digit_def)

lemma show_int_head: "0 \<le> v \<Longrightarrow> \<exists>c r. show_int v = c # r \<and> is_ascii_digit c"
  by (metis list.set_intros(1) neq_Nil_conv show_int_digits show_int_nonempty)

lemma parse_i32_show: "0 \<le> v \<Longrightarrow> v < 2 ^ 31 \<Longrightarrow> parse_i32 (show_int v) = Some v"
  unfolding parse_i32_def by (rule parse_int_show_int) simp_all

lemma parse_bounded_show: "0 \<le> lower \<Longrightarrow> lower \<le> v \<Longrightarrow> v \<le> upper \<Longrightarrow> upper \<le> 59 \<Longrightarrow> parse_bounded (show_int v) lower upper = Ok v"
  by (simp add: parse_bounded_def parse_i32_show)

lemma parse_positive_show: "tame n \<Longrightarrow> parse_positive (show_int n) = Ok n"
  by (simp add: parse_positive_def parse_i32_show tame_def)

lemma split_once_show:
  "0 \<le> v \<Longrightarrow> \<not> is_ascii_digit d \<Longrightarrow> split_once d (show_int v) = None"
  "0 \<le> v \<Longrightarrow> \<not> is_ascii_digit d \<Longrightarrow> split_once d (show_int v @ d # s) = Some (show_int v, s)"
  by (simp_all add: split_once_eq_None split_once_eq_Some not_in_show_int)

section \<open>Parts\<close>

lemma parse_part_of_plain:
  assumes "0 \<le> v"
  shows "parse_field_part (show_int v @ r) index lower upper s =
    and_then (parse_plain_part (show_int v @ r) lower upper) (\<lambda>bits. Ok (bits, s))"
proof -
  obtain c t where c: "show_int v = c # t" "is_ascii_digit c" using show_int_head [OF assms] by blast
  then have "c \<noteq> CHR ''*''" "c \<noteq> CHR ''H''" using separators_no_digits by metis+
  with c(1) show ?thesis by (simp add: parse_field_part_def starts_with_def)
qed

lemma parse_plain_single:
  assumes "0 \<le> lower" and "lower \<le> v" and "v \<le> upper" and "upper \<le> 59"
  shows "parse_plain_part (show_int v) lower upper = Ok (bit_at v)"
  using assms by (simp add: parse_plain_part_def split_once_show parse_bounded_show)

lemma parse_plain_from:
  assumes "0 \<le> lower" and "lower \<le> a" and "a \<le> upper" and "upper \<le> 59" and "tame n"
  shows "parse_plain_part (show_int a @ ''/'' @ show_int n) lower upper = range_bits a upper n"
proof -
  have n: "0 \<le> n" using assms(5) by (simp add: tame_def)
  have "split_once CHR ''-'' (show_int a @ ''/'' @ show_int n) = None"
    using assms n by (simp add: split_once_eq_None not_in_show_int)
  then show ?thesis using assms n by (simp add: parse_plain_part_def split_once_show parse_bounded_show parse_positive_show)
qed

lemma parse_plain_span:
  assumes "0 \<le> lower" and "lower \<le> a" and "a \<le> b" and "b \<le> upper" and "upper \<le> 59"
  shows "parse_plain_part (show_int a @ ''-'' @ show_int b) lower upper = range_bits a b 1"
    and "tame n \<Longrightarrow> parse_plain_part (show_int a @ ''-'' @ show_int b @ ''/'' @ show_int n) lower upper = range_bits a b n"
  using assms by (simp_all add: parse_plain_part_def parse_range_part_def split_once_show parse_bounded_show parse_positive_show)

lemma parse_part_values:
  assumes "wf_part lower upper p" and "0 \<le> lower" and "lower \<le> upper" and "upper \<le> 59"
  shows "\<exists>b. parse_field_part (print_part p) index lower upper s = Ok (b, s) \<and>
    (\<forall>v. bit_set b v \<longleftrightarrow> v \<in> part_values lower upper p)"
proof -
  have one: "tame 1" by (simp add: tame_def)
  show ?thesis
  proof (cases p)
    case Any
    with range_bits_tame [OF one, of upper lower] assms show ?thesis by (auto simp: parse_field_part_def)
  next
    case (Any_Step n)
    with range_bits_tame [of n upper lower] assms show ?thesis
      by (auto simp: parse_field_part_def parse_positive_show)
  next
    case (Single v)
    with assms parse_part_of_plain [of v "[]"] show ?thesis by (auto simp: parse_plain_single bit_set_at)
  next
    case (From_Step a n)
    with assms range_bits_tame [of n upper a] parse_part_of_plain [of a "''/'' @ show_int n"] parse_plain_from [of lower a upper n]
    show ?thesis by auto
  next
    case (Span a b)
    with assms range_bits_tame [OF one, of b a] parse_part_of_plain [of a "''-'' @ show_int b"] parse_plain_span(1) [of lower a b upper]
    show ?thesis by auto
  next
    case (Span_Step a b n)
    with assms range_bits_tame [of n b a] parse_part_of_plain [of a "''-'' @ show_int b @ ''/'' @ show_int n"]
      parse_plain_span(2) [of lower a b upper n]
    show ?thesis by auto
  qed
qed

section \<open>Fields and expressions\<close>

lemma part_characters:
  assumes "wf_part lower upper p" and "0 \<le> lower" and "c \<in> set (print_part p)"
  shows "is_ascii_digit c \<or> c \<in> {CHR ''*'', CHR ''/'', CHR ''-''}"
proof -
  have digit: "0 \<le> v \<longrightarrow> is_ascii_digit c" if "c \<in> set (show_int v)" for v
    using that show_int_digits by blast
  show ?thesis using assms by (cases p) (auto simp: tame_def dest!: digit)
qed

lemma print_part_nonempty: "print_part p \<noteq> []"
  by (cases p) simp_all

lemma parse_parts_values:
  assumes "\<forall>p\<in>set ps. wf_part lower upper p" and "0 \<le> lower" and "lower \<le> upper" and "upper \<le> 59"
  shows "\<exists>b. try_fold (\<lambda>(bits, s) part. and_then (parse_field_part part index lower upper s) (\<lambda>(b, s). Ok (bits OR b, s)))
      (acc, s) (map print_part ps) = Ok (b, s) \<and>
    (\<forall>v. bit_set b v \<longleftrightarrow> bit_set acc v \<or> (\<exists>p\<in>set ps. v \<in> part_values lower upper p))"
  using assms(1)
proof (induction ps arbitrary: acc)
  case Nil
  then show ?case by simp
next
  case (Cons p ps)
  then obtain b where "parse_field_part (print_part p) index lower upper s = Ok (b, s)"
    "\<forall>v. bit_set b v \<longleftrightarrow> v \<in> part_values lower upper p"
    using parse_part_values [OF _ assms(2-4), of p index s] by auto
  with Cons.IH [of "acc OR b"] Cons.prems show ?case by auto
qed

lemma parse_field_values:
  assumes "ps \<noteq> []" and "\<forall>p\<in>set ps. wf_part (FIELD_LOWER ! i) (FIELD_UPPER ! i) p" and "i < 5"
  shows "\<exists>b. parse_field (print_field ps) i s = Ok (b, s) \<and>
    (\<forall>v. bit_set b v \<longleftrightarrow> (\<exists>p\<in>set ps. v \<in> part_values (FIELD_LOWER ! i) (FIELD_UPPER ! i) p))"
proof -
  have fb: "0 \<le> FIELD_LOWER ! i" "FIELD_LOWER ! i \<le> FIELD_UPPER ! i" "FIELD_UPPER ! i \<le> 59"
    using field_bounds_fields [OF assms(3)] by (simp_all add: field_bounds_def)
  have "CHR '','' \<notin> set (print_part p)" if "p \<in> set ps" for p
    using part_characters [OF bspec [OF assms(2) that] fb(1), of "CHR '',''"] by auto
  then have "split_on CHR '','' (print_field ps) = map print_part ps"
    unfolding print_field_def using assms(1) by (intro split_on_join) auto
  then show ?thesis
    using parse_parts_values [OF assms(2) fb, of i 0 s] by (simp add: parse_field_def)
qed

lemma part_values_nonempty: "wf_part lower upper p \<Longrightarrow> lower \<le> upper \<Longrightarrow> \<exists>v. v \<in> part_values lower upper p"
proof (cases p)
  case (From_Step a n)
  then show "wf_part lower upper p \<Longrightarrow> lower \<le> upper \<Longrightarrow> ?thesis" by (intro exI [of _ a]) simp
next
  case (Span_Step a b n)
  then show "wf_part lower upper p \<Longrightarrow> lower \<le> upper \<Longrightarrow> ?thesis" by (intro exI [of _ a]) simp
next
  case (Any_Step n)
  then show "wf_part lower upper p \<Longrightarrow> lower \<le> upper \<Longrightarrow> ?thesis" by (intro exI [of _ lower]) simp
qed auto

lemma wf_cron_bounds:
  assumes "i < 5"
  shows "0 \<le> FIELD_LOWER ! i" and "FIELD_LOWER ! i \<le> FIELD_UPPER ! i"
  using field_bounds_fields [OF assms] by (simp_all add: field_bounds_def)

lemma parse_fields_values:
  assumes wf: "\<forall>i<length es. k + i < 5 \<and> es ! i \<noteq> [] \<and> (\<forall>p\<in>set (es ! i). wf_part (FIELD_LOWER ! (k + i)) (FIELD_UPPER ! (k + i)) p)"
  shows "\<exists>bs. try_fold_index k (\<lambda>index (bits, s) field. and_then (parse_field field index s) (\<lambda>(b, s).
       if b = 0 then Err (e index) else Ok (bits @ [b], s))) (bits, s) (map print_field es) = Ok (bits @ bs, s) \<and>
    length bs = length es \<and> (\<forall>i<length es. \<forall>v. bit_set (bs ! i) v \<longleftrightarrow>
      (\<exists>p\<in>set (es ! i). v \<in> part_values (FIELD_LOWER ! (k + i)) (FIELD_UPPER ! (k + i)) p))"
  using wf
proof (induction es arbitrary: k bits)
  case Nil
  then show ?case by simp
next
  case (Cons ps es)
  have k: "k < 5" "ps \<noteq> []" "\<forall>p\<in>set ps. wf_part (FIELD_LOWER ! k) (FIELD_UPPER ! k) p"
    using Cons.prems [rule_format, of 0] by simp_all
  obtain b where b: "parse_field (print_field ps) k s = Ok (b, s)"
    "\<forall>v. bit_set b v \<longleftrightarrow> (\<exists>p\<in>set ps. v \<in> part_values (FIELD_LOWER ! k) (FIELD_UPPER ! k) p)"
    using parse_field_values [OF k(2,3,1)] by blast
  have "hd ps \<in> set ps" using k(2) by simp
  moreover from this obtain v where "v \<in> part_values (FIELD_LOWER ! k) (FIELD_UPPER ! k) (hd ps)"
    using part_values_nonempty k(3) wf_cron_bounds(2) [OF k(1)] by blast
  ultimately have "b \<noteq> 0" using b(2) nonzero_iff by blast
  have "\<forall>i<length es. Suc k + i < 5 \<and> es ! i \<noteq> [] \<and>
      (\<forall>p\<in>set (es ! i). wf_part (FIELD_LOWER ! (Suc k + i)) (FIELD_UPPER ! (Suc k + i)) p)"
    using Cons.prems by (metis Suc_less_eq add_Suc_shift length_Cons nth_Cons_Suc)
  from Cons.IH [OF this, of "bits @ [b]"] obtain bs where bs:
    "try_fold_index (Suc k) (\<lambda>index (bits, s) field. and_then (parse_field field index s) (\<lambda>(b, s).
       if b = 0 then Err (e index) else Ok (bits @ [b], s))) (bits @ [b], s) (map print_field es) = Ok ((bits @ [b]) @ bs, s)"
    "length bs = length es" "\<forall>i<length es. \<forall>v. bit_set (bs ! i) v \<longleftrightarrow>
      (\<exists>p\<in>set (es ! i). v \<in> part_values (FIELD_LOWER ! (Suc k + i)) (FIELD_UPPER ! (Suc k + i)) p)" by blast
  have "\<forall>i<length (ps # es). \<forall>v. bit_set ((b # bs) ! i) v \<longleftrightarrow>
      (\<exists>p\<in>set ((ps # es) ! i). v \<in> part_values (FIELD_LOWER ! (k + i)) (FIELD_UPPER ! (k + i)) p)"
  proof (intro allI impI)
    fix i v assume "i < length (ps # es)"
    with b(2) bs(3) show "bit_set ((b # bs) ! i) v \<longleftrightarrow>
        (\<exists>p\<in>set ((ps # es) ! i). v \<in> part_values (FIELD_LOWER ! (k + i)) (FIELD_UPPER ! (k + i)) p)"
      by (cases i) auto
  qed
  with b(1) \<open>b \<noteq> 0\<close> bs(1,2) show ?case by (intro exI [of _ "b # bs"]) simp
qed

lemma split_whitespace_join:
  assumes "ws \<noteq> []" and "\<forall>w\<in>set ws. w \<noteq> [] \<and> (\<forall>c\<in>set w. \<not> is_ascii_whitespace c)"
  shows "split_ascii_whitespace (join '' '' ws) = ws"
proof -
  let ?f = "\<lambda>c. if is_ascii_whitespace c then CHR '' '' else c"
  have space: "is_ascii_whitespace CHR '' ''" by (simp add: is_ascii_whitespace_def)
  have "map ?f (join '' '' vs) = join '' '' vs" if "\<forall>w\<in>set vs. \<forall>c\<in>set w. \<not> is_ascii_whitespace c" for vs
    using that by (induction "'' ''" vs rule: join.induct) (auto intro: map_idI)
  then have "map ?f (join '' '' ws) = join '' '' ws" using assms(2) by blast
  moreover have "split_on CHR '' '' (join '' '' ws) = ws"
    using assms space by (intro split_on_join) auto
  ultimately show ?thesis using assms(2) by (simp add: split_ascii_whitespace_def filter_id_conv)
qed

lemma print_field_characters:
  assumes "\<forall>p\<in>set ps. wf_part lower upper p" and "0 \<le> lower" and "c \<in> set (print_field ps)"
  shows "\<not> is_ascii_whitespace c"
proof -
  have "c \<in> {CHR '',''} \<union> (\<Union>p\<in>set (map print_part ps). set p)"
    using assms(3) set_join [of "'',''" "map print_part ps"] by (auto simp: print_field_def)
  then consider "c = CHR '',''" | p where "p \<in> set ps" "c \<in> set (print_part p)" by auto
  then have "is_ascii_digit c \<or> c \<in> {CHR ''*'', CHR ''/'', CHR ''-'', CHR '',''}"
    using part_characters assms(1,2) by cases blast+
  then show ?thesis by (auto simp: is_ascii_digit_def is_ascii_whitespace_def)
qed

lemma print_field_nonempty: "ps \<noteq> [] \<Longrightarrow> print_field ps \<noteq> []"
  by (cases ps; cases "tl ps") (auto simp: print_field_def print_part_nonempty join_Cons)

lemma parse_print_cron:
  assumes "wf_cron e"
  shows "\<exists>bs. parse_cron_expression md5 (print_cron e) seed = Ok (sunday_alias bs) \<and> length bs = 5 \<and>
    (\<forall>i<5. \<forall>v. bit_set (bs ! i) v \<longleftrightarrow> v \<in> field_values e i)"
proof -
  have len: "length e = 5" using assms by (simp add: wf_cron_def)
  have parts: "e ! i \<noteq> []" "\<forall>p\<in>set (e ! i). wf_part (FIELD_LOWER ! i) (FIELD_UPPER ! i) p" if "i < 5" for i
    using assms that by (simp_all add: wf_cron_def)
  have words: "split_ascii_whitespace (print_cron e) = map print_field e"
    unfolding print_cron_def
  proof (rule split_whitespace_join)
    show "map print_field e \<noteq> []" using len by auto
    show "\<forall>w\<in>set (map print_field e). w \<noteq> [] \<and> (\<forall>c\<in>set w. \<not> is_ascii_whitespace c)"
      using parts print_field_nonempty print_field_characters wf_cron_bounds(1)
      by (fastforce simp: in_set_conv_nth len)
  qed
  have pre: "\<forall>i<length e. 0 + i < 5 \<and> e ! i \<noteq> [] \<and> (\<forall>p\<in>set (e ! i). wf_part (FIELD_LOWER ! (0 + i)) (FIELD_UPPER ! (0 + i)) p)"
    using parts len by simp
  obtain bs where "try_fold_index 0 (\<lambda>index (bits, s) field. and_then (parse_field field index s) (\<lambda>(b, s).
       if b = 0 then Err (InvalidTriggerIngress (''schedule field '' @ show_nat index @ '' matches no values''))
       else Ok (bits @ [b], s))) ([], from_seed md5 seed) (map print_field e) = Ok ([] @ bs, from_seed md5 seed)"
    "length bs = length e" "\<forall>i<length e. \<forall>v. bit_set (bs ! i) v \<longleftrightarrow>
      (\<exists>p\<in>set (e ! i). v \<in> part_values (FIELD_LOWER ! (0 + i)) (FIELD_UPPER ! (0 + i)) p)"
    using parse_fields_values [OF pre, of "\<lambda>index. InvalidTriggerIngress (''schedule field '' @ show_nat index @ '' matches no values'')"
        "[]" "from_seed md5 seed"] by blast
  then show ?thesis using len words by (intro exI [of _ bs]) (simp add: parse_cron_expression_def field_values_def)
qed

section \<open>Properties\<close>

text \<open>
  C15. The calendar of a plain expression fires exactly at the civil times the expression is written
  for: the text of every well-formed five-field expression of values, ranges, steps and lists is
  accepted, and the calendar matches a civil time exactly when every field contains it, where
  a day of the week of 7 stands for Sunday.
\<close>

theorem matches_local_values:
  assumes "wf_cron e" and "0 \<le> day_of_week" and "day_of_week < 7"
  shows "\<exists>bits. parse_cron_expression md5 (print_cron e) seed = Ok bits \<and>
    (\<forall>calendar. sc_bits calendar = bits \<longrightarrow>
      (matches_local calendar minute hour day_of_month month day_of_week \<longleftrightarrow>
        minute \<in> field_values e 0 \<and> hour \<in> field_values e 1 \<and> day_of_month \<in> field_values e 2 \<and>
        month \<in> field_values e 3 \<and> (day_of_week \<in> field_values e 4 \<or> day_of_week = 0 \<and> 7 \<in> field_values e 4)))"
proof -
  obtain bs where bs: "parse_cron_expression md5 (print_cron e) seed = Ok (sunday_alias bs)" "length bs = 5"
    "\<forall>i<5. \<forall>v. bit_set (bs ! i) v \<longleftrightarrow> v \<in> field_values e i"
    using parse_print_cron [OF assms(1)] by blast
  have day: "sgn day_of_week * (\<bar>day_of_week\<bar> mod 7) = day_of_week"
    using assms(2,3) by (cases "day_of_week = 0") simp_all
  have contained: "part_values lower upper p \<subseteq> {lower..upper}" if "wf_part lower upper p" "lower \<le> upper" for lower upper p
    using that by (cases p) auto
  have four: "FIELD_LOWER ! 4 = 0" "FIELD_UPPER ! 4 = 7" by (simp_all add: FIELD_LOWER_def FIELD_UPPER_def)
  have "0 \<le> v \<and> v \<le> 7" if v: "v \<in> field_values e 4" for v
  proof -
    obtain p where p: "p \<in> set (e ! 4)" "v \<in> part_values 0 7 p" using v by (auto simp: field_values_def four)
    moreover have "wf_part 0 7 p" using assms(1) p(1) by (simp add: wf_cron_def flip: four)
    ultimately show ?thesis using contained [of 0 7 p] by auto
  qed
  then have "within 0 7 (bs ! 4)" using bs(3) [rule_format, of 4] by (simp add: within_def)
  then have "bit_set (sunday_alias bs ! 4) day_of_week \<longleftrightarrow>
      day_of_week \<in> field_values e 4 \<or> day_of_week = 0 \<and> 7 \<in> field_values e 4"
    using bs(2,3) assms(3) by (simp add: bit_set_sunday)
  with bs day show ?thesis by (auto simp: matches_local_def sunday_alias_other)
qed

definition sample_cron :: "cron_part list list" where
  "sample_cron = [[Any_Step 15], [Span 9 17], [Any], [Any], [Span 1 5, Single 7]]"

lemma sample_cron_wf: "wf_cron sample_cron"
proof -
  have "i < 5 \<longleftrightarrow> i \<in> {0, 1, 2, 3, 4}" for i :: nat by auto
  then show ?thesis by (auto simp: wf_cron_def sample_cron_def FIELD_LOWER_def FIELD_UPPER_def tame_def)
qed

theorem matches_local_values_witness:
  "\<exists>bits. parse_cron_expression (\<lambda>_. replicate 16 0) (print_cron sample_cron) [] = Ok bits \<and>
    (\<forall>calendar. sc_bits calendar = bits \<longrightarrow> matches_local calendar 30 12 24 12 0)"
  using matches_local_values [OF sample_cron_wf, of 0 "\<lambda>_. replicate 16 0" "[]" 30 12 24 12]
  by (auto simp: field_values_def sample_cron_def FIELD_LOWER_def FIELD_UPPER_def dvd_eq_mod_eq_0)

theorem parse_cron_expression_bounds_witness:
  "\<exists>bits. parse_cron_expression (\<lambda>_. replicate 16 0) (print_cron (replicate 5 [Any])) [] = Ok bits \<and> calendar_bits bits"
proof -
  have "wf_cron (replicate 5 [Any])" by (auto simp: wf_cron_def)
  then obtain bs where "parse_cron_expression (\<lambda>_. replicate 16 0) (print_cron (replicate 5 [Any])) [] = Ok bs"
    using parse_print_cron by blast
  moreover have "tame_expression (print_cron (replicate 5 [Any]))"
    by (simp add: tame_expression_def print_cron_def print_field_def split_ascii_whitespace_def is_ascii_whitespace_def
        numeral_nat tame_part_def Cons_eq_append_conv)
  ultimately show ?thesis using parse_cron_expression_bounds by blast
qed


end
