(* ===== verification/Json.thy ===== *)
theory Json
  imports Rust_Text
begin

text \<open>
  \<open>serde_json::Value\<close>, as far as the controller inspects it: the constructors, lookup of an
  object's field and the string and array views. An object is the list of its fields; numbers
  are the integers the controller writes.
\<close>

datatype json =
    J_null
  | J_bool bool
  | J_number int
  | J_string string
  | J_array "json list"
  | J_object "(string \<times> json) list"

definition json_get :: "json \<Rightarrow> string \<Rightarrow> json option" where
  "json_get v k = (case v of J_object fs \<Rightarrow> map_of fs k | _ \<Rightarrow> None)"

definition json_as_str :: "json \<Rightarrow> string option" where
  "json_as_str v = (case v of J_string s \<Rightarrow> Some s | _ \<Rightarrow> None)"

definition json_as_array :: "json \<Rightarrow> json list option" where
  "json_as_array v = (case v of J_array vs \<Rightarrow> Some vs | _ \<Rightarrow> None)"

definition json_as_object :: "json \<Rightarrow> (string \<times> json) list option" where
  "json_as_object v = (case v of J_object fs \<Rightarrow> Some fs | _ \<Rightarrow> None)"

text \<open>\<open>value.get(name).and_then(Value::as_str)\<close>.\<close>

definition json_str :: "json \<Rightarrow> string \<Rightarrow> string option" where
  "json_str v k = Option.bind (json_get v k) json_as_str"

lemma json_get_object [simp]: "json_get (J_object fs) k = map_of fs k"
  by (simp add: json_get_def)

lemma json_as_simps [simp]:
  "json_as_str (J_string s) = Some s"
  "json_as_array (J_array vs) = Some vs"
  "json_as_object (J_object fs) = Some fs"
  by (simp_all add: json_as_str_def json_as_array_def json_as_object_def)

end
