(* ===== verification/Dag_Contract.thy ===== *)
theory Dag_Contract
  imports Domain Ordered_Map Json
begin

text \<open>
  The contract of a build's dependency graph, \<open>controller-store/src/dag.rs\<close>: the data of an
  admission, the expansion of a matrix into its cells, and the validation that precedes every
  admission: bounded texts, unique keys, known dependencies and, by Kahn's algorithm, no cycle.
  The JSON encoder (\<open>to_vec\<close>) and the URL parser are parameters. The destination check is that of
  a release build, which admits \<open>https\<close> only.
\<close>

section \<open>Data\<close>

datatype dependency_condition = Dep_Succeeded | Dep_Completed

datatype dag_node_kind = Work | Join | Post

definition MAX_DAG_NODES :: nat where "MAX_DAG_NODES = 256"
definition MAX_DAG_EDGES :: nat where "MAX_DAG_EDGES = 4096"
definition MAX_MATRIX_AXES :: nat where "MAX_MATRIX_AXES = 8"
definition MAX_MATRIX_VALUES_PER_AXIS :: nat where "MAX_MATRIX_VALUES_PER_AXIS = 32"
definition MAX_MATRIX_CELLS :: nat where "MAX_MATRIX_CELLS = 256"
definition MAX_DAG_TEXT_BYTES :: nat where "MAX_DAG_TEXT_BYTES = 256"
definition MAX_EXECUTION_SPEC_BYTES :: nat where "MAX_EXECUTION_SPEC_BYTES = 256 * 1024"
definition MAX_DAG_CAPABILITIES :: nat where "MAX_DAG_CAPABILITIES = 64"

lemmas dag_limits = MAX_DAG_NODES_def MAX_DAG_EDGES_def MAX_MATRIX_AXES_def
  MAX_MATRIX_VALUES_PER_AXIS_def MAX_MATRIX_CELLS_def MAX_DAG_TEXT_BYTES_def
  MAX_EXECUTION_SPEC_BYTES_def MAX_DAG_CAPABILITIES_def

record dag_dependency =
  dd_node_key :: string
  dd_condition :: dependency_condition

record new_dag_node =
  nn_node_key :: string
  nn_kind :: dag_node_kind
  nn_dependencies :: "dag_dependency list"
  nn_required_capabilities :: "string list"
  nn_required_platform :: string
  nn_required_trust_pool :: string
  nn_priority :: int
  nn_execution_spec :: json
  nn_fail_fast :: bool
  nn_max_attempts :: int

text \<open>A UUID is its 128-bit number: only equality and the order of identifiers are used.\<close>

type_synonym uuid = nat

record new_dag_build =
  nb_organization_id :: uuid
  nb_project_id :: uuid
  nb_pipeline_id :: uuid
  nb_pipeline_revision :: int
  nb_pipeline_operational_generation :: int
  nb_pipeline_digest :: "byte list"
  nb_idempotency_key :: string
  nb_priority :: int
  nb_nodes :: "new_dag_node list"
  nb_notify_targets :: json

record matrix_cell =
  mc_node_key :: string
  mc_values :: "string btree_map"

datatype dag_contract_error_code =
    InvalidText | MatrixAxisLimit | MatrixValueLimit | MatrixCellLimit | DuplicateMatrixValue
  | NodeLimit | EdgeLimit | DuplicateNode | MissingDependency | DuplicateDependency | Cycle
  | RetryLimit | InvalidNodeKind | PlatformMismatch | CapabilityLimit | DuplicateCapability
  | ExecutionSpecLimit | InvalidNotifyTargets

text \<open>
  A contract error, or the panic of an \<open>expect\<close> or of an underflow, which the theorems exclude.
\<close>

datatype dag_error =
    DagContractError dag_contract_error_code (dce_path: string) (dce_message: string)
  | Contract_panic

section \<open>Texts\<close>

definition validate_text :: "string \<Rightarrow> string \<Rightarrow> (unit, dag_error) result" where
  "validate_text path v =
     (if v = [] \<or> length v > MAX_DAG_TEXT_BYTES \<or>
         \<not> list_all (\<lambda>b. is_ascii_alphanumeric b \<or> b \<in> set ''._-'') v
      then Err (DagContractError InvalidText path
        ''must be bounded ASCII letters, digits, dot, underscore, or hyphen'')
      else Ok ())"

definition validate_node_key :: "string \<Rightarrow> string \<Rightarrow> (unit, dag_error) result" where
  "validate_node_key path v =
     (if v = [] \<or> length v > MAX_DAG_TEXT_BYTES \<or>
         \<not> list_all (\<lambda>b. is_ascii_alphanumeric b \<or> b \<in> set ''._-[]=,'') v
      then Err (DagContractError InvalidText path ''must be a bounded canonical DAG node key'')
      else Ok ())"

section \<open>The matrix\<close>

text \<open>\<open>values.windows(2).any(|pair| pair[0] == pair[1])\<close>.\<close>

fun repeats :: "string list \<Rightarrow> bool" where
  "repeats (a # b # vs) \<longleftrightarrow> a = b \<or> repeats (b # vs)"
| "repeats _ \<longleftrightarrow> False"

definition axis_path :: "string \<Rightarrow> string" where
  "axis_path axis = ''$.axes.'' @ axis"

text \<open>One axis: its values sorted, and the number of cells so far.\<close>

definition normalize_axis ::
  "nat \<times> (string \<times> string list) list \<Rightarrow> string \<times> string list \<Rightarrow>
   (nat \<times> (string \<times> string list) list, dag_error) result" where
  "normalize_axis s av = (case (s, av) of ((cells, normalized), (axis, vs)) \<Rightarrow>
     and_then (validate_text (axis_path axis) axis) (\<lambda>_.
     if vs = [] \<or> length vs > MAX_MATRIX_VALUES_PER_AXIS then
       Err (DagContractError MatrixValueLimit (axis_path axis)
         (''matrix values per axis must be between 1 and '' @ show_nat MAX_MATRIX_VALUES_PER_AXIS))
     else and_then (for_each (validate_text (axis_path axis)) vs) (\<lambda>_.
       let vs = sort vs in
       if repeats vs then
         Err (DagContractError DuplicateMatrixValue (axis_path axis) ''matrix values must be unique'')
       else if cells * length vs > usize_max then
         Err (DagContractError MatrixCellLimit ''$.axes'' ''matrix product overflows'')
       else if cells * length vs > MAX_MATRIX_CELLS then
         Err (DagContractError MatrixCellLimit ''$.axes''
           (''matrix product exceeds '' @ show_nat MAX_MATRIX_CELLS @ '' cells''))
       else Ok (cells * length vs, normalized @ [(axis, vs)]))))"

definition extend_products ::
  "string btree_map list \<Rightarrow> string \<times> string list \<Rightarrow> string btree_map list" where
  "extend_products products av =
     concat (map (\<lambda>product. map (\<lambda>v. btree_insert product (fst av) v) (snd av)) products)"

definition cell_key :: "string \<Rightarrow> string btree_map \<Rightarrow> string" where
  "cell_key node_prefix m =
     node_prefix @ ''['' @ join '','' (map (\<lambda>(axis, v). axis @ ''='' @ v) m) @ '']''"

text \<open>\<open>iter.map(f).collect::<Result<Vec<_>, _>>()\<close>.\<close>

fun collect_results :: "('a \<Rightarrow> ('b, 'e) result) \<Rightarrow> 'a list \<Rightarrow> ('b list, 'e) result" where
  "collect_results f [] = Ok []"
| "collect_results f (x # xs) =
     and_then (f x) (\<lambda>y. and_then (collect_results f xs) (\<lambda>ys. Ok (y # ys)))"

definition matrix_cell_of :: "string \<Rightarrow> string btree_map \<Rightarrow> (matrix_cell, dag_error) result" where
  "matrix_cell_of node_prefix m =
     (let node_key = cell_key node_prefix m in
      and_then (validate_node_key ''$.node_key'' node_key) (\<lambda>_.
      Ok \<lparr>mc_node_key = node_key, mc_values = m\<rparr>))"

definition compile_matrix ::
  "string \<Rightarrow> string list btree_map \<Rightarrow> (matrix_cell list, dag_error) result" where
  "compile_matrix node_prefix axes =
     and_then (validate_text ''$.node_prefix'' node_prefix) (\<lambda>_.
     if axes = [] \<or> length axes > MAX_MATRIX_AXES then
       Err (DagContractError MatrixAxisLimit ''$.axes''
         (''matrix axis count must be between 1 and '' @ show_nat MAX_MATRIX_AXES))
     else and_then (try_fold normalize_axis (1, []) axes) (\<lambda>(cells, normalized).
       collect_results (matrix_cell_of node_prefix) (foldl extend_products [[]] normalized)))"

section \<open>Notification targets\<close>

record url =
  url_scheme :: string
  url_host :: "string option"
  url_username :: string
  url_password :: "string option"
  url_fragment :: "string option"

record contract_externals =
  to_vec :: "json \<Rightarrow> (byte list, string) result"
  parse_url :: "string \<Rightarrow> url option"

definition webhook_destination_is_well_formed :: "contract_externals \<Rightarrow> string \<Rightarrow> bool" where
  "webhook_destination_is_well_formed x v =
     (if length v > 2048 \<or> trim v \<noteq> v then False
      else case parse_url x v of
        None \<Rightarrow> False
      | Some u \<Rightarrow>
          url_scheme u = ''https'' \<and>
          (case url_host u of Some host \<Rightarrow> host \<noteq> [] | None \<Rightarrow> False) \<and>
          url_username u = [] \<and> url_password u = None \<and> url_fragment u = None)"

definition notify_invalid :: "string \<Rightarrow> (unit, dag_error) result" where
  "notify_invalid message = Err (DagContractError InvalidNotifyTargets ''$.notify_targets'' message)"

definition some_and :: "('a \<Rightarrow> bool) \<Rightarrow> 'a option \<Rightarrow> bool" where
  "some_and f v = (case v of Some x \<Rightarrow> f x | None \<Rightarrow> False)"

definition known_fields :: "string list \<Rightarrow> (string \<times> json) list \<Rightarrow> (unit, dag_error) result" where
  "known_fields expected fs =
     (if list_ex (\<lambda>(k, _). k \<notin> set expected) fs
      then notify_invalid ''notification target carries an unknown field'' else Ok ())"

definition validate_notify_target :: "contract_externals \<Rightarrow> json \<Rightarrow> (unit, dag_error) result" where
  "validate_notify_target x entry = (case json_as_object entry of
     None \<Rightarrow> notify_invalid ''notification target must be an object''
   | Some fs \<Rightarrow>
       if \<not> some_and canonical_mapping_id (json_str entry ''mapping_id'') then
         notify_invalid ''notification target must name a canonical mapping id''
       else if json_str entry ''kind'' = Some ''github_status'' then
         (if \<not> some_and is_commit_id (json_str entry ''commit'') \<or>
             \<not> some_and is_status_context (json_str entry ''context'') \<or>
             \<not> some_and (\<lambda>r. is_repository_identity r \<and> list_all (\<lambda>b. \<not> is_ascii_uppercase b) r)
                 (json_str entry ''repository'') then
            notify_invalid ''github_status target needs a commit, a context and a lowercase repository''
          else known_fields [''kind'', ''mapping_id'', ''commit'', ''context'', ''repository''] fs)
       else if json_str entry ''kind'' = Some ''webhook'' then
         (if \<not> some_and (webhook_destination_is_well_formed x) (json_str entry ''destination_url'') then
            notify_invalid ''webhook target needs an https destination''
          else known_fields [''kind'', ''mapping_id'', ''destination_url''] fs)
       else notify_invalid ''notification target kind must be github_status or webhook'')"

definition validate_notify_targets :: "contract_externals \<Rightarrow> json \<Rightarrow> (unit, dag_error) result" where
  "validate_notify_targets x targets = (case json_as_array targets of
     None \<Rightarrow> notify_invalid ''notification targets must be an array''
   | Some entries \<Rightarrow>
       if length entries > 8 then notify_invalid ''too many notification targets''
       else for_each (validate_notify_target x) entries)"

section \<open>Validation of the graph\<close>

definition node_path :: "new_dag_node \<Rightarrow> string \<Rightarrow> string" where
  "node_path n field = ''$.nodes.'' @ nn_node_key n @ ''.'' @ field"

text \<open>The first loop: the keys, each admissible and new.\<close>

definition insert_key :: "string list \<Rightarrow> new_dag_node \<Rightarrow> (string list, dag_error) result" where
  "insert_key keys n =
     and_then (validate_node_key ''$.nodes.node_key'' (nn_node_key n)) (\<lambda>_.
     if nn_node_key n \<in> set keys then
       Err (DagContractError DuplicateNode (''$.nodes.'' @ nn_node_key n) ''DAG node keys must be unique'')
     else Ok (nn_node_key n # keys))"

definition insert_capability ::
  "new_dag_node \<Rightarrow> string list \<Rightarrow> string \<Rightarrow> (string list, dag_error) result" where
  "insert_capability n capabilities capability =
     and_then (validate_text (node_path n ''required_capabilities'') capability) (\<lambda>_.
     if capability \<in> set capabilities then
       Err (DagContractError DuplicateCapability (node_path n ''required_capabilities'')
         ''capabilities must be unique'')
     else Ok (capability # capabilities))"

text \<open>The checks of one node that precede its dependencies.\<close>

definition validate_node :: "contract_externals \<Rightarrow> new_dag_node \<Rightarrow> (unit, dag_error) result" where
  "validate_node x n =
     and_then (validate_text (node_path n ''required_platform'') (nn_required_platform n)) (\<lambda>_.
     and_then (validate_text (node_path n ''required_trust_pool'') (nn_required_trust_pool n)) (\<lambda>_.
     if length (nn_required_capabilities n) > MAX_DAG_CAPABILITIES then
       Err (DagContractError CapabilityLimit (node_path n ''required_capabilities'')
         (''capability count exceeds '' @ show_nat MAX_DAG_CAPABILITIES))
     else and_then (try_fold (insert_capability n) [] (nn_required_capabilities n)) (\<lambda>_.
     if \<not> (1 \<le> nn_max_attempts n \<and> nn_max_attempts n \<le> 16) then
       Err (DagContractError RetryLimit (node_path n ''max_attempts'')
         ''max_attempts must be between 1 and 16'')
     else and_then (map_err (DagContractError ExecutionSpecLimit (node_path n ''execution_spec''))
       (to_vec x (nn_execution_spec n))) (\<lambda>bytes.
     if length bytes > MAX_EXECUTION_SPEC_BYTES then
       Err (DagContractError ExecutionSpecLimit (node_path n ''execution_spec'')
         (''execution specification exceeds '' @ show_nat MAX_EXECUTION_SPEC_BYTES @ '' bytes''))
     else if list_ex (\<lambda>c. starts_with ''platform:'' c \<and> c \<noteq> platform_capability (nn_required_platform n))
         (nn_required_capabilities n) then
       Err (DagContractError PlatformMismatch (node_path n ''required_capabilities'')
         ''platform capability conflicts with required_platform'')
     else if nn_kind n = Join \<and> length (nn_dependencies n) < 2 then
       Err (DagContractError InvalidNodeKind (node_path n ''dependencies'')
         ''join nodes require at least two dependencies'')
     else if nn_kind n = Post \<and> (nn_dependencies n = [] \<or>
         list_ex (\<lambda>d. dd_condition d \<noteq> Dep_Completed) (nn_dependencies n)) then
       Err (DagContractError InvalidNodeKind (node_path n ''dependencies'')
         ''post nodes require one or more completion dependencies'')
     else Ok ()))))"

text \<open>The variables of the second loop; \<open>children\<close> maps a key to the nodes that wait for it.\<close>

record contract_state =
  cs_edges :: nat
  cs_indegree :: "nat btree_map"
  cs_children :: "string list btree_map"

definition push_child :: "string list btree_map \<Rightarrow> string \<Rightarrow> string \<Rightarrow> string list btree_map" where
  "push_child children parent child =
     btree_insert children parent
       ((case btree_get children parent of Some cs \<Rightarrow> cs | None \<Rightarrow> []) @ [child])"

definition add_dependency ::
  "string list \<Rightarrow> new_dag_node \<Rightarrow> contract_state \<times> string list \<Rightarrow> dag_dependency \<Rightarrow>
   (contract_state \<times> string list, dag_error) result" where
  "add_dependency keys n sp d = (case sp of (s, parents) \<Rightarrow>
     if Suc (cs_edges s) > MAX_DAG_EDGES then
       Err (DagContractError EdgeLimit ''$.nodes'' (''DAG edge count exceeds '' @ show_nat MAX_DAG_EDGES))
     else if dd_node_key d \<notin> set keys then
       Err (DagContractError MissingDependency (node_path n ''dependencies'')
         (''dependency '' @ debug_str (dd_node_key d) @ '' does not exist''))
     else if dd_node_key d = nn_node_key n \<or> dd_node_key d \<in> set parents then
       Err (DagContractError DuplicateDependency (node_path n ''dependencies'')
         ''dependencies must be distinct and cannot reference the node itself'')
     else Ok (s\<lparr>cs_edges := Suc (cs_edges s),
                cs_children := push_child (cs_children s) (dd_node_key d) (nn_node_key n)\<rparr>,
              dd_node_key d # parents))"

definition add_node ::
  "contract_externals \<Rightarrow> string list \<Rightarrow> contract_state \<Rightarrow> new_dag_node \<Rightarrow> (contract_state, dag_error) result" where
  "add_node x keys s n =
     and_then (validate_node x n) (\<lambda>_.
     and_then (try_fold (add_dependency keys n) (s, []) (nn_dependencies n)) (\<lambda>(s, _).
     Ok (s\<lparr>cs_indegree := btree_insert (cs_indegree s) (nn_node_key n) (length (nn_dependencies n))\<rparr>)))"

text \<open>
  Kahn's loop. The set of ready keys is the ascending list of its members, so \<open>pop_first\<close> takes
  its head. \<open>None\<close> is the panic of a missing child or of a degree decremented below zero.
\<close>

definition set_insert :: "string list \<Rightarrow> string \<Rightarrow> string list" where
  "set_insert s k = (if k \<in> set s then s else insort k s)"

fun release_children ::
  "string list \<Rightarrow> string list \<Rightarrow> nat btree_map \<Rightarrow> (string list \<times> nat btree_map) option" where
  "release_children [] ready indegree = Some (ready, indegree)"
| "release_children (child # cs) ready indegree = (case btree_get indegree child of
     None \<Rightarrow> None
   | Some degree \<Rightarrow>
       if degree = 0 then None
       else release_children cs (if degree - 1 = 0 then set_insert ready child else ready)
         (btree_insert indegree child (degree - 1)))"

definition degrees :: "nat btree_map \<Rightarrow> nat" where
  "degrees m = (\<Sum>k\<in>fst ` set m. case btree_get m k of Some d \<Rightarrow> d | None \<Rightarrow> 0)"

lemma degrees_insert:
  assumes "btree_get m k = Some (Suc d)"
  shows "degrees m = Suc (degrees (btree_insert m k d))"
proof -
  let ?f = "\<lambda>m k. case btree_get m k of Some d \<Rightarrow> d | None \<Rightarrow> 0"
  let ?K = "fst ` set m"
  from assms have k: "k \<in> ?K" by (force simp: btree_get_def dest: map_of_SomeD)
  then have K: "insert k ?K = ?K" by auto
  have "degrees (btree_insert m k d) = (\<Sum>j\<in>?K. ?f (btree_insert m k d) j)"
    by (simp add: degrees_def set_btree_insert K)
  also have "\<dots> = d + (\<Sum>j\<in>?K - {k}. ?f (btree_insert m k d) j)"
    by (subst sum.remove [OF _ k]) (simp_all add: btree_get_def map_of_btree_insert)
  also have "(\<Sum>j\<in>?K - {k}. ?f (btree_insert m k d) j) = (\<Sum>j\<in>?K - {k}. ?f m j)"
    by (rule sum.cong) (simp_all add: btree_get_def map_of_btree_insert)
  finally show ?thesis
    by (simp add: degrees_def sum.remove [OF _ k] assms)
qed

lemma length_set_insert: "length (set_insert s k) \<le> Suc (length s)"
  by (simp add: set_insert_def)

lemma release_children_measure:
  "release_children cs ready m = Some (ready', m') \<Longrightarrow>
     length ready' + degrees m' \<le> length ready + degrees m"
proof (induction cs ready m rule: release_children.induct)
  case (1 ready m)
  then show ?case by simp
next
  case (2 child cs ready m)
  from 2(2) obtain e where "btree_get m child = Some e" "e \<noteq> 0"
    by (auto split: option.splits if_splits)
  then obtain d where d: "btree_get m child = Some (Suc d)" by (cases e) auto
  from 2(1) [OF d] 2(2) d length_set_insert [of ready child] degrees_insert [OF d]
  show ?case by (auto split: if_splits)
qed

function kahn :: "string list \<Rightarrow> nat btree_map \<Rightarrow> string list btree_map \<Rightarrow> nat \<Rightarrow> nat option" where
  "kahn [] indegree children visited = Some visited"
| "kahn (key # ready) indegree children visited =
     (case release_children (case btree_get children key of Some cs \<Rightarrow> cs | None \<Rightarrow> []) ready indegree of
        None \<Rightarrow> None
      | Some (ready, indegree) \<Rightarrow> kahn ready indegree children (Suc visited))"
  by pat_completeness auto
termination
  by (relation "measure (\<lambda>(ready, indegree, _, _). length ready + degrees indegree)")
    (auto dest: release_children_measure)

definition ready_keys :: "nat btree_map \<Rightarrow> string list" where
  "ready_keys indegree = map fst (filter (\<lambda>(_, degree). degree = 0) indegree)"

definition validate_dag_contract :: "contract_externals \<Rightarrow> new_dag_build \<Rightarrow> (unit, dag_error) result" where
  "validate_dag_contract x b =
     and_then (validate_text ''$.idempotency_key'' (nb_idempotency_key b)) (\<lambda>_.
     and_then (validate_notify_targets x (nb_notify_targets b)) (\<lambda>_.
     if nb_nodes b = [] \<or> length (nb_nodes b) > MAX_DAG_NODES then
       Err (DagContractError NodeLimit ''$.nodes''
         (''DAG node count must be between 1 and '' @ show_nat MAX_DAG_NODES))
     else and_then (try_fold insert_key [] (nb_nodes b)) (\<lambda>keys.
     and_then (try_fold (add_node x keys)
       \<lparr>cs_edges = 0, cs_indegree = [], cs_children = []\<rparr> (nb_nodes b)) (\<lambda>s.
     case kahn (ready_keys (cs_indegree s)) (cs_indegree s) (cs_children s) 0 of
       None \<Rightarrow> Err Contract_panic
     | Some visited \<Rightarrow>
         if visited \<noteq> length (nb_nodes b) then
           Err (DagContractError Cycle ''$.nodes'' ''DAG contains a dependency cycle'')
         else Ok ()))))"

end
