(* ===== verification/Dag_Graph.thy ===== *)
theory Dag_Graph
  imports Dag_Contract
begin

text \<open>
  What the validation of a dependency graph establishes. The loops of \<open>validate_dag_contract\<close> are
  reduced to conditions on the nodes, and Kahn's loop is shown to visit every key exactly when the
  dependency relation has no cycle; it never panics. The matrix is the Cartesian product of its
  axes, with pairwise different keys.
\<close>

section \<open>Kahn's loop\<close>

definition kids :: "string list btree_map \<Rightarrow> string \<Rightarrow> string list" where
  "kids children k = (case btree_get children k of Some cs \<Rightarrow> cs | None \<Rightarrow> [])"

definition graph_ok :: "string set \<Rightarrow> (string \<Rightarrow> string set) \<Rightarrow> string list btree_map \<Rightarrow> bool" where
  "graph_ok N deps children \<longleftrightarrow> finite N \<and> (\<forall>n\<in>N. deps n \<subseteq> N) \<and>
     (\<forall>k. distinct (kids children k) \<and> set (kids children k) = {c \<in> N. k \<in> deps c})"

text \<open>\<open>V\<close> is the set of keys popped so far.\<close>

definition kahn_inv :: "string set \<Rightarrow> (string \<Rightarrow> string set) \<Rightarrow> string set \<Rightarrow> string list \<Rightarrow> nat btree_map \<Rightarrow> bool" where
  "kahn_inv N deps V ready indegree \<longleftrightarrow> V \<subseteq> N \<and> distinct ready \<and>
     btree_get indegree = (\<lambda>n. if n \<in> N then Some (card (deps n - V)) else None) \<and>
     set ready = {n \<in> N - V. deps n \<subseteq> V}"

definition ranked :: "(string \<Rightarrow> string set) \<Rightarrow> string set \<Rightarrow> bool" where
  "ranked deps V \<longleftrightarrow> (\<exists>f :: string \<Rightarrow> nat. \<forall>n\<in>V. deps n \<subseteq> V \<and> f n < card V \<and> (\<forall>d\<in>deps n. f d < f n))"

lemma set_set_insert [simp]: "set (set_insert s k) = insert k (set s)"
  by (auto simp: set_insert_def set_insort_key)

lemma distinct_set_insert [simp]: "distinct (set_insert s k) = distinct s"
  by (simp add: set_insert_def distinct_insort)

lemma btree_get_insert [simp]: "btree_get (btree_insert m k v) = (btree_get m)(k \<mapsto> v)"
  by (simp add: btree_get_def map_of_btree_insert fun_eq_iff)

lemma release_children_returns:
  assumes "distinct cs" and "\<forall>c\<in>set cs. \<exists>d. btree_get m c = Some (Suc d)"
  shows "\<exists>ready' m'. release_children cs ready m = Some (ready', m') \<and>
    btree_get m' = (\<lambda>n. if n \<in> set cs then map_option (\<lambda>d. d - 1) (btree_get m n) else btree_get m n) \<and>
    set ready' = set ready \<union> {c \<in> set cs. btree_get m c = Some 1} \<and> distinct ready' = distinct ready"
  using assms
proof (induction cs arbitrary: ready m)
  case Nil
  then show ?case by simp
next
  case (Cons c cs)
  from Cons.prems(2) obtain d where d: "btree_get m c = Some (Suc d)" by auto
  let ?ready = "if d = 0 then set_insert ready c else ready"
  let ?m = "btree_insert m c d"
  from Cons.prems have "\<forall>k\<in>set cs. \<exists>d. btree_get ?m k = Some (Suc d)" by auto
  with Cons.IH [of ?m ?ready] Cons.prems obtain ready' m' where
    r: "release_children cs ?ready ?m = Some (ready', m')"
    and m': "btree_get m' = (\<lambda>n. if n \<in> set cs then map_option (\<lambda>d. d - 1) (btree_get ?m n) else btree_get ?m n)"
    and s: "set ready' = set ?ready \<union> {c \<in> set cs. btree_get ?m c = Some 1}"
    and "distinct ready' = distinct ?ready"
    by auto
  then have dis: "distinct ready' = distinct ready" by simp
  from d r have "release_children (c # cs) ready m = Some (ready', m')" by simp
  moreover from Cons.prems(1) d have "btree_get m' =
      (\<lambda>n. if n \<in> set (c # cs) then map_option (\<lambda>d. d - 1) (btree_get m n) else btree_get m n)"
    by (auto simp: m' fun_eq_iff)
  moreover from Cons.prems(1) d have "set ready' = set ready \<union> {k \<in> set (c # cs). btree_get m k = Some 1}"
    by (auto simp: s)
  ultimately show ?case using dis by blast
qed

lemma card_Diff_insert_member:
  assumes "finite D" and "k \<in> D" and "k \<notin> V"
  shows "card (D - V) = Suc (card (D - insert k V))"
proof -
  from assms have "D - V = insert k (D - insert k V)" by auto
  with assms show ?thesis by (metis DiffD2 card_insert_disjoint finite_Diff insertI1)
qed

lemma ranked_insert:
  assumes "ranked deps V" and "deps k \<subseteq> V" and "k \<notin> V" and "finite V"
  shows "ranked deps (insert k V)"
proof -
  from assms(1) obtain f where f: "\<forall>n\<in>V. deps n \<subseteq> V \<and> f n < card V \<and> (\<forall>d\<in>deps n. f d < (f n :: nat))"
    unfolding ranked_def by blast
  let ?f = "f(k := card V)"
  have "\<forall>n\<in>insert k V. deps n \<subseteq> insert k V \<and> ?f n < card (insert k V) \<and> (\<forall>d\<in>deps n. ?f d < ?f n)"
    using f assms(2,3,4) by (auto simp: less_Suc_eq subset_eq)
  then show ?thesis unfolding ranked_def by blast
qed

lemma kahn_step:
  assumes g: "graph_ok N deps children" and inv: "kahn_inv N deps V (k # ready) m"
    and closed: "ranked deps V"
  shows "\<exists>ready' m'. release_children (kids children k) ready m = Some (ready', m') \<and>
    kahn_inv N deps (insert k V) ready' m'"
proof -
  let ?cs = "kids children k"
  from inv have V: "V \<subseteq> N" and dis: "distinct (k # ready)"
    and get: "btree_get m = (\<lambda>n. if n \<in> N then Some (card (deps n - V)) else None)"
    and rd: "set (k # ready) = {n \<in> N - V. deps n \<subseteq> V}"
    by (simp_all add: kahn_inv_def)
  from rd have k: "k \<in> N" "k \<notin> V" "deps k \<subseteq> V" by auto
  from closed k have old: "n \<in> V \<Longrightarrow> k \<notin> deps n" for n by (auto simp: ranked_def)
  from g have fin: "n \<in> N \<Longrightarrow> finite (deps n)" for n by (auto simp: graph_ok_def dest: finite_subset)
  from g have cs: "distinct ?cs" "set ?cs = {c \<in> N. k \<in> deps c}" by (auto simp: graph_ok_def)
  have drop: "card (deps c - V) = Suc (card (deps c - insert k V))" if "c \<in> set ?cs" for c
    using that k cs fin by (intro card_Diff_insert_member) auto
  then have "\<forall>c\<in>set ?cs. \<exists>d. btree_get m c = Some (Suc d)" using cs by (auto simp: get)
  from release_children_returns [OF cs(1) this, of ready] obtain ready' m' where
    r: "release_children ?cs ready m = Some (ready', m')"
    and m': "btree_get m' = (\<lambda>n. if n \<in> set ?cs then map_option (\<lambda>d. d - 1) (btree_get m n) else btree_get m n)"
    and s: "set ready' = set ready \<union> {c \<in> set ?cs. btree_get m c = Some 1}"
    and d': "distinct ready' = distinct ready"
    by blast
  have "deps n - insert k V = deps n - V" if "k \<notin> deps n" for n using that by auto
  then have "btree_get m' = (\<lambda>n. if n \<in> N then Some (card (deps n - insert k V)) else None)"
    using drop cs by (auto simp: m' get fun_eq_iff)
  moreover have "set ready' = {n \<in> N - insert k V. deps n \<subseteq> insert k V}"
  proof -
    have "card (deps c - V) = 1 \<longleftrightarrow> deps c \<subseteq> insert k V" if "c \<in> set ?cs" for c
      using drop [OF that] that fin cs by (auto simp: card_eq_0_iff)
    then have "{c \<in> set ?cs. btree_get m c = Some 1} = {c \<in> N. k \<in> deps c \<and> deps c \<subseteq> insert k V}"
      using cs by (auto simp: get)
    moreover have "set ready = {n \<in> N - insert k V. deps n \<subseteq> V}"
      using rd dis by auto
    ultimately show ?thesis using k s old by auto
  qed
  ultimately have "kahn_inv N deps (insert k V) ready' m'"
    using V k dis d' by (simp add: kahn_inv_def)
  with r show ?thesis by blast
qed

lemma kahn_returns:
  assumes "graph_ok N deps children" and "kahn_inv N deps V ready m" and "ranked deps V"
    and "visited = card V"
  shows "\<exists>W m'. kahn ready m children visited = Some (card W) \<and> kahn_inv N deps W [] m' \<and> ranked deps W"
  using assms
proof (induction ready m children visited arbitrary: V rule: kahn.induct)
  case (1 m children visited)
  then show ?case by auto
next
  case (2 k ready m children visited)
  from kahn_step [OF 2(2,3,4)] obtain ready' m' where
    r: "release_children (kids children k) ready m = Some (ready', m')"
    and inv: "kahn_inv N deps (insert k V) ready' m'" by blast
  from 2(2,3) have V: "finite V" "k \<notin> V" "deps k \<subseteq> V"
    by (auto simp: kahn_inv_def graph_ok_def dest: finite_subset)
  with 2(4) have "ranked deps (insert k V)" by (intro ranked_insert)
  with 2(1) [OF _ _ 2(2) inv] r V 2(5) show ?case by (auto simp: kids_def)
qed

text \<open>The dependency relation, from what is waited for to what waits.\<close>

definition edges_of :: "string set \<Rightarrow> (string \<Rightarrow> string set) \<Rightarrow> (string \<times> string) set" where
  "edges_of N deps = {(d, n). n \<in> N \<and> d \<in> deps n}"

theorem kahn_visits_all:
  assumes g: "graph_ok N deps children"
    and m: "btree_get m = (\<lambda>n. if n \<in> N then Some (card (deps n)) else None)"
    and r: "distinct ready" "set ready = {n \<in> N. deps n = {}}"
  shows "\<exists>v. kahn ready m children 0 = Some v \<and> (v = card N \<longleftrightarrow> acyclic (edges_of N deps))"
proof -
  have "kahn_inv N deps {} ready m" using m r by (auto simp: kahn_inv_def fun_eq_iff)
  moreover have "ranked deps {}" by (simp add: ranked_def)
  ultimately obtain W m' where W: "kahn ready m children 0 = Some (card W)"
    and inv: "kahn_inv N deps W [] m'" and rk: "ranked deps W"
    using kahn_returns [OF g, of "{}" ready m 0] by auto
  from g have fin: "finite N" "\<forall>n\<in>N. deps n \<subseteq> N" by (auto simp: graph_ok_def)
  from inv have WN: "W \<subseteq> N" and stuck: "\<forall>n\<in>N - W. \<not> deps n \<subseteq> W" by (auto simp: kahn_inv_def)
  have "acyclic (edges_of N deps)" if "W = N"
  proof -
    from rk that obtain f where "\<forall>n\<in>N. \<forall>d\<in>deps n. f d < (f n :: nat)" by (auto simp: ranked_def)
    then have "edges_of N deps \<subseteq> measure f" by (auto simp: edges_of_def)
    with wf_subset [OF wf_measure] show ?thesis by (blast intro: wf_acyclic)
  qed
  moreover have "W = N" if "acyclic (edges_of N deps)"
  proof (rule ccontr)
    assume "W \<noteq> N"
    with WN obtain n where n: "n \<in> N - W" by blast
    have "edges_of N deps \<subseteq> N \<times> N" using fin by (auto simp: edges_of_def)
    with fin(1) have "finite (edges_of N deps)" by (meson finite_SigmaI finite_subset)
    with that have "wf (edges_of N deps)" by (simp add: finite_acyclic_wf)
    from wfE_min [OF this n] obtain z where z: "z \<in> N - W"
      and min: "\<And>y. (y, z) \<in> edges_of N deps \<Longrightarrow> y \<notin> N - W" by blast
    from stuck z obtain d where "d \<in> deps z" "d \<notin> W" by blast
    with min [of d] z fin(2) show False by (auto simp: edges_of_def)
  qed
  moreover have "card W = card N \<longleftrightarrow> W = N" using WN fin(1) by (meson card_subset_eq)
  ultimately show ?thesis using W by blast
qed

section \<open>The loops of the validation\<close>

text \<open>A loop that checks each element and rejects a repeated key.\<close>

lemma try_fold_unique:
  assumes "\<And>acc x. f acc x = and_then (v x) (\<lambda>_. if g x \<in> set acc then Err (e x) else Ok (g x # acc))"
  shows "try_fold f acc xs = Ok r \<longleftrightarrow>
    (\<forall>x\<in>set xs. v x = Ok ()) \<and> distinct (map g xs) \<and> set (map g xs) \<inter> set acc = {} \<and>
    r = rev (map g xs) @ acc"
proof (induction xs arbitrary: acc)
  case Nil
  then show ?case by auto
next
  case (Cons x xs)
  then show ?case by (cases "v x") (auto simp: assms)
qed

lemma insert_key_fold:
  "try_fold insert_key [] ns = Ok keys \<longleftrightarrow>
     (\<forall>n\<in>set ns. validate_node_key ''$.nodes.node_key'' (nn_node_key n) = Ok ()) \<and>
     distinct (map nn_node_key ns) \<and> keys = rev (map nn_node_key ns)"
  by (subst try_fold_unique [where g = nn_node_key]) (auto simp: insert_key_def)

lemma insert_capability_fold:
  "(\<exists>r. try_fold (insert_capability n) [] cs = Ok r) \<longleftrightarrow>
     (\<forall>c\<in>set cs. validate_text (node_path n ''required_capabilities'') c = Ok ()) \<and> distinct cs"
  by (subst try_fold_unique [where g = "\<lambda>c. c"]) (auto simp: insert_capability_def)

definition dep_keys :: "new_dag_node \<Rightarrow> string list" where
  "dep_keys n = map dd_node_key (nn_dependencies n)"

definition push_children :: "new_dag_node \<Rightarrow> string list btree_map \<Rightarrow> string list btree_map" where
  "push_children n children = foldl (\<lambda>ch d. push_child ch d (nn_node_key n)) children (dep_keys n)"

lemma add_dependency_fold:
  "try_fold (add_dependency keys n) (s, ps) ds = Ok (s', ps') \<longleftrightarrow>
     (ds \<noteq> [] \<longrightarrow> cs_edges s + length ds \<le> MAX_DAG_EDGES) \<and>
     (\<forall>d\<in>set ds. dd_node_key d \<in> set keys \<and> dd_node_key d \<noteq> nn_node_key n) \<and>
     distinct (map dd_node_key ds) \<and> set (map dd_node_key ds) \<inter> set ps = {} \<and>
     s' = s\<lparr>cs_edges := cs_edges s + length ds,
            cs_children := foldl (\<lambda>ch d. push_child ch d (nn_node_key n)) (cs_children s) (map dd_node_key ds)\<rparr> \<and>
     ps' = rev (map dd_node_key ds) @ ps"
proof (induction ds arbitrary: s ps)
  case Nil
  then show ?case by auto
next
  case (Cons d ds)
  have step: "add_dependency keys n (s, ps) d = Ok t \<longleftrightarrow> Suc (cs_edges s) \<le> MAX_DAG_EDGES \<and>
      dd_node_key d \<in> set keys \<and> dd_node_key d \<noteq> nn_node_key n \<and> dd_node_key d \<notin> set ps \<and>
      t = (s\<lparr>cs_edges := Suc (cs_edges s),
             cs_children := push_child (cs_children s) (dd_node_key d) (nn_node_key n)\<rparr>, dd_node_key d # ps)" for t
    by (auto simp: add_dependency_def)
  show ?case by (auto simp: and_then_eq_Ok step Cons.IH)
qed

text \<open>What the second loop requires of one node, given the keys of the build.\<close>

definition node_admissible :: "contract_externals \<Rightarrow> string set \<Rightarrow> new_dag_node \<Rightarrow> bool" where
  "node_admissible x keys n \<longleftrightarrow> validate_node x n = Ok () \<and> distinct (dep_keys n) \<and>
     set (dep_keys n) \<subseteq> keys - {nn_node_key n}"

definition edge_count :: "new_dag_node list \<Rightarrow> nat" where
  "edge_count ns = (\<Sum>n\<leftarrow>ns. length (nn_dependencies n))"

definition grow :: "contract_state \<Rightarrow> new_dag_node \<Rightarrow> contract_state" where
  "grow s n = s\<lparr>cs_edges := cs_edges s + length (nn_dependencies n),
     cs_indegree := btree_insert (cs_indegree s) (nn_node_key n) (length (nn_dependencies n)),
     cs_children := push_children n (cs_children s)\<rparr>"

lemma add_node_eq_Ok:
  "add_node x keys s n = Ok s' \<longleftrightarrow> node_admissible x (set keys) n \<and>
     (nn_dependencies n \<noteq> [] \<longrightarrow> cs_edges s + length (nn_dependencies n) \<le> MAX_DAG_EDGES) \<and> s' = grow s n"
  by (auto simp: add_node_def and_then_eq_Ok add_dependency_fold node_admissible_def dep_keys_def grow_def
      push_children_def)

lemma edge_count_simps [simp]:
  "edge_count [] = 0" "edge_count (n # ns) = length (nn_dependencies n) + edge_count ns"
  by (simp_all add: edge_count_def)

lemma add_node_fold:
  assumes "cs_edges s \<le> MAX_DAG_EDGES"
  shows "try_fold (add_node x keys) s ns = Ok s' \<longleftrightarrow>
    (\<forall>n\<in>set ns. node_admissible x (set keys) n) \<and> cs_edges s + edge_count ns \<le> MAX_DAG_EDGES \<and>
    s' = foldl grow s ns"
  using assms
proof (induction ns arbitrary: s)
  case Nil
  then show ?case by auto
next
  case (Cons n ns)
  have "cs_edges (grow s n) = cs_edges s + length (nn_dependencies n)" by (simp add: grow_def)
  with Cons.IH [of "grow s n"] Cons.prems show ?case
    by (cases "nn_dependencies n = []") (auto simp: and_then_eq_Ok add_node_eq_Ok)
qed

lemma kids_push_child: "kids (push_child ch p c) k = kids ch k @ (if k = p then [c] else [])"
  by (auto simp: kids_def push_child_def split: option.splits)

lemma kids_push_children:
  "distinct (dep_keys n) \<Longrightarrow>
     kids (push_children n ch) k = kids ch k @ (if k \<in> set (dep_keys n) then [nn_node_key n] else [])"
proof -
  have "distinct ds \<Longrightarrow> kids (foldl (\<lambda>ch d. push_child ch d (nn_node_key n)) ch ds) k =
      kids ch k @ (if k \<in> set ds then [nn_node_key n] else [])" for ds ch
    by (induction ds arbitrary: ch) (auto simp: kids_push_child)
  then show "distinct (dep_keys n) \<Longrightarrow> ?thesis" by (simp add: push_children_def)
qed

lemma kids_grow:
  "\<forall>n\<in>set ns. distinct (dep_keys n) \<Longrightarrow>
     kids (cs_children (foldl grow s ns)) k =
       kids (cs_children s) k @ map nn_node_key (filter (\<lambda>n. k \<in> set (dep_keys n)) ns)"
  by (induction ns arbitrary: s) (auto simp: grow_def kids_push_children)

lemma indegree_grow:
  "distinct (map nn_node_key ns) \<Longrightarrow>
     btree_get (cs_indegree (foldl grow s ns)) k =
       (case find (\<lambda>n. nn_node_key n = k) ns of
          Some n \<Rightarrow> Some (length (nn_dependencies n)) | None \<Rightarrow> btree_get (cs_indegree s) k)"
proof (induction ns arbitrary: s)
  case Nil
  then show ?case by simp
next
  case (Cons n ns)
  have "find (\<lambda>m. nn_node_key m = nn_node_key n) ns = None"
    using Cons.prems by (auto simp: find_None_iff) (metis imageI)
  with Cons show ?case by (auto simp: grow_def split: option.split)
qed

lemma btree_wf_grow: "btree_wf (cs_indegree s) \<Longrightarrow> btree_wf (cs_indegree (foldl grow s ns))"
  by (induction ns arbitrary: s) (auto simp: grow_def btree_wf_insert)

section \<open>What an accepted graph satisfies\<close>

definition text_ok :: "string \<Rightarrow> bool" where
  "text_ok v \<longleftrightarrow> v \<noteq> [] \<and> length v \<le> 256 \<and> (\<forall>b\<in>set v. is_ascii_alphanumeric b \<or> b \<in> set ''._-'')"

definition node_key_ok :: "string \<Rightarrow> bool" where
  "node_key_ok v \<longleftrightarrow> v \<noteq> [] \<and> length v \<le> 256 \<and> (\<forall>b\<in>set v. is_ascii_alphanumeric b \<or> b \<in> set ''._-[]=,'')"

text \<open>
  A node on its own. The platform clash the code tests for does not appear: a capability is a
  text, a text has no colon, and so no capability starts with \<open>platform:\<close>.
\<close>

definition node_ok :: "contract_externals \<Rightarrow> new_dag_node \<Rightarrow> bool" where
  "node_ok x n \<longleftrightarrow> text_ok (nn_required_platform n) \<and> text_ok (nn_required_trust_pool n) \<and>
     length (nn_required_capabilities n) \<le> 64 \<and> distinct (nn_required_capabilities n) \<and>
     (\<forall>c\<in>set (nn_required_capabilities n). text_ok c) \<and>
     nn_max_attempts n \<in> {1..16} \<and>
     (\<exists>bytes. to_vec x (nn_execution_spec n) = Ok bytes \<and> length bytes \<le> 262144) \<and>
     (nn_kind n = Join \<longrightarrow> 2 \<le> length (nn_dependencies n)) \<and>
     (nn_kind n = Post \<longrightarrow> nn_dependencies n \<noteq> [] \<and> (\<forall>d\<in>set (nn_dependencies n). dd_condition d = Dep_Completed))"

definition dag_edges :: "new_dag_build \<Rightarrow> (string \<times> string) set" where
  "dag_edges b = {(d, nn_node_key n) | d n. n \<in> set (nb_nodes b) \<and> d \<in> set (dep_keys n)}"

definition contract_ok :: "contract_externals \<Rightarrow> new_dag_build \<Rightarrow> bool" where
  "contract_ok x b \<longleftrightarrow> text_ok (nb_idempotency_key b) \<and>
     validate_notify_targets x (nb_notify_targets b) = Ok () \<and>
     nb_nodes b \<noteq> [] \<and> length (nb_nodes b) \<le> 256 \<and>
     distinct (map nn_node_key (nb_nodes b)) \<and>
     edge_count (nb_nodes b) \<le> 4096 \<and>
     (\<forall>n\<in>set (nb_nodes b). node_key_ok (nn_node_key n) \<and> node_ok x n \<and> distinct (dep_keys n) \<and>
        set (dep_keys n) \<subseteq> nn_node_key ` set (nb_nodes b)) \<and>
     acyclic (dag_edges b)"

lemma validate_text_iff: "validate_text p v = Ok () \<longleftrightarrow> text_ok v"
  by (auto simp: validate_text_def text_ok_def list_all_iff dag_limits)

lemma validate_node_key_iff: "validate_node_key p v = Ok () \<longleftrightarrow> node_key_ok v"
  by (auto simp: validate_node_key_def node_key_ok_def list_all_iff dag_limits)

lemma text_ok_no_platform: "text_ok c \<Longrightarrow> \<not> starts_with ''platform:'' c"
proof
  assume ok: "text_ok c" and "starts_with ''platform:'' c"
  then have "CHR '':'' \<in> set c" by (auto simp: starts_with_iff)
  moreover from ok have "\<forall>b\<in>set c. is_ascii_alphanumeric b \<or> b \<in> set ''._-''" unfolding text_ok_def by blast
  ultimately have "is_ascii_alphanumeric CHR '':'' \<or> CHR '':'' \<in> set ''._-''" by blast
  then show False by (simp add: ascii_defs)
qed

lemma validate_node_iff: "validate_node x n = Ok () \<longleftrightarrow> node_ok x n"
proof -
  let ?caps = "nn_required_capabilities n"
  have caps: "(\<exists>r. try_fold (insert_capability n) [] ?caps = Ok r) \<longleftrightarrow> (\<forall>c\<in>set ?caps. text_ok c) \<and> distinct ?caps"
    by (simp add: insert_capability_fold validate_text_iff)
  have clash: "(\<forall>c\<in>set ?caps. text_ok c) \<Longrightarrow>
      \<not> list_ex (\<lambda>c. starts_with ''platform:'' c \<and> c \<noteq> platform_capability (nn_required_platform n)) ?caps"
    using text_ok_no_platform by (auto simp: list_ex_iff)
  show ?thesis
    unfolding validate_node_def node_ok_def
    using caps clash
    by (simp add: and_then_eq_Ok if_Err_eq_Ok validate_text_iff dag_limits list_ex_iff not_less) blast
qed

lemma set_ready_keys: "btree_wf m \<Longrightarrow> set (ready_keys m) = {k. btree_get m k = Some 0}"
  using bt.get_iff_entry [of m _ 0] by (force simp: ready_keys_def)

lemma distinct_ready_keys: "btree_wf m \<Longrightarrow> distinct (ready_keys m)"
  by (auto simp: ready_keys_def btree_wf_def strict_sorted_iff intro: distinct_map_filter)

abbreviation start_state :: contract_state where
  "start_state \<equiv> \<lparr>cs_edges = 0, cs_indegree = [], cs_children = []\<rparr>"

text \<open>The loops accept exactly the listed conditions, and leave the tables Kahn's loop needs.\<close>

lemma kahn_contract:
  assumes d: "distinct (map nn_node_key ns)"
    and deps: "\<forall>n\<in>set ns. distinct (dep_keys n) \<and> set (dep_keys n) \<subseteq> nn_node_key ` set ns"
    and s: "s = foldl grow start_state ns"
  shows "\<exists>v. kahn (ready_keys (cs_indegree s)) (cs_indegree s) (cs_children s) 0 = Some v \<and>
    (v = length ns \<longleftrightarrow> acyclic {(k, nn_node_key n) | k n. n \<in> set ns \<and> k \<in> set (dep_keys n)})"
proof -
  let ?N = "nn_node_key ` set ns"
  let ?node = "\<lambda>k. find (\<lambda>n. nn_node_key n = k) ns"
  define deps' where "deps' k = (case ?node k of Some n \<Rightarrow> set (dep_keys n) | None \<Rightarrow> {})" for k
  have node: "?node (nn_node_key n) = Some n" if "n \<in> set ns" for n
    using d that by (induction ns) (auto simp: rev_image_eqI)
  have none: "?node k = None" if "k \<notin> ?N" for k using that by (auto simp: find_None_iff)
  have deps'_key: "deps' (nn_node_key n) = set (dep_keys n)" if "n \<in> set ns" for n
    using node [OF that] by (simp add: deps'_def)
  have "btree_get (cs_indegree s) k = (if k \<in> ?N then Some (card (deps' k)) else None)" for k
  proof (cases "k \<in> ?N")
    case True
    then obtain n where n: "n \<in> set ns" "k = nn_node_key n" by blast
    with deps have "card (set (dep_keys n)) = length (nn_dependencies n)"
      by (metis dep_keys_def distinct_card length_map)
    with n show ?thesis by (simp add: s indegree_grow [OF d] node deps'_key)
  next
    case False
    with none show ?thesis by (simp add: s indegree_grow [OF d] bt.get_empty)
  qed
  then have get: "btree_get (cs_indegree s) = (\<lambda>k. if k \<in> ?N then Some (card (deps' k)) else None)" by blast
  have "kids (cs_children s) k = map nn_node_key (filter (\<lambda>n. k \<in> set (dep_keys n)) ns)" for k
    using kids_grow [of ns start_state k] deps by (simp add: s kids_def btree_get_def)
  then have "graph_ok ?N deps' (cs_children s)"
    using deps d by (auto simp: graph_ok_def deps'_key intro: distinct_map_filter)
  moreover have wf: "btree_wf (cs_indegree s)" by (simp add: s btree_wf_grow)
  have "finite (deps' k)" for k by (simp add: deps'_def split: option.split)
  then have "set (ready_keys (cs_indegree s)) = {k \<in> ?N. deps' k = {}}"
    by (auto simp: set_ready_keys [OF wf] get split: if_splits)
  ultimately have "\<exists>v. kahn (ready_keys (cs_indegree s)) (cs_indegree s) (cs_children s) 0 = Some v \<and>
      (v = card ?N \<longleftrightarrow> acyclic (edges_of ?N deps'))"
    using kahn_visits_all [OF _ get distinct_ready_keys [OF wf]] by blast
  moreover have "card ?N = length ns" using d distinct_card by fastforce
  moreover have "edges_of ?N deps' = {(k, nn_node_key n) | k n. n \<in> set ns \<and> k \<in> set (dep_keys n)}"
    by (auto simp: edges_of_def deps'_key)
  ultimately show ?thesis by simp
qed

lemma dag_edges_self: "n \<in> set (nb_nodes b) \<Longrightarrow> acyclic (dag_edges b) \<Longrightarrow> nn_node_key n \<notin> set (dep_keys n)"
  by (auto simp: dag_edges_def acyclic_def)

text \<open>Nothing before Kahn's loop panics.\<close>

definition no_panic :: "('a, dag_error) result \<Rightarrow> bool" where
  "no_panic m \<longleftrightarrow> m \<noteq> Err Contract_panic"

named_theorems no_panic_intros \<open>computations that do not panic\<close>

lemma no_panic_values [simp, no_panic_intros]: "no_panic (Ok v)" "no_panic (Err (DagContractError c p t))"
  by (simp_all add: no_panic_def)

lemma no_panic_and_then [no_panic_intros]:
  "no_panic m \<Longrightarrow> (\<And>v. m = Ok v \<Longrightarrow> no_panic (f v)) \<Longrightarrow> no_panic (and_then m f)"
  by (cases m) (auto simp: no_panic_def)

lemma no_panic_if [no_panic_intros]:
  "(c \<Longrightarrow> no_panic a) \<Longrightarrow> (\<not> c \<Longrightarrow> no_panic b) \<Longrightarrow> no_panic (if c then a else b)"
  by simp

lemma no_panic_for_each [no_panic_intros]: "(\<And>v. no_panic (f v)) \<Longrightarrow> no_panic (for_each f vs)"
  by (induction vs) (auto intro: no_panic_and_then)

lemma no_panic_try_fold [no_panic_intros]: "(\<And>s v. no_panic (f s v)) \<Longrightarrow> no_panic (try_fold f s vs)"
  by (induction vs arbitrary: s) (auto intro: no_panic_and_then)

lemma no_panic_map_err [no_panic_intros]: "no_panic (map_err (DagContractError c p) m)"
  by (cases m) auto

lemma no_panic_texts [no_panic_intros]: "no_panic (validate_text p v)" "no_panic (validate_node_key p v)"
  by (simp_all add: validate_text_def validate_node_key_def)

lemma no_panic_notify [no_panic_intros]: "no_panic (validate_notify_targets x targets)"
  unfolding validate_notify_targets_def validate_notify_target_def known_fields_def notify_invalid_def
  by (auto split: option.split intro!: no_panic_intros)

lemma no_panic_insert_key [no_panic_intros]: "no_panic (insert_key keys n)"
  unfolding insert_key_def by (intro no_panic_intros)

lemma no_panic_validate_node [no_panic_intros]: "no_panic (validate_node x n)"
  unfolding validate_node_def insert_capability_def by (intro no_panic_intros)

lemma no_panic_add_node [no_panic_intros]: "no_panic (add_node x keys s n)"
  unfolding add_node_def add_dependency_def
  by (auto intro!: no_panic_intros split: prod.split)

definition loops_ok :: "contract_externals \<Rightarrow> new_dag_node list \<Rightarrow> bool" where
  "loops_ok x ns \<longleftrightarrow> (\<forall>n\<in>set ns. node_key_ok (nn_node_key n)) \<and> distinct (map nn_node_key ns) \<and>
     (\<forall>n\<in>set ns. node_admissible x (nn_node_key ` set ns) n) \<and> edge_count ns \<le> 4096"

lemma loops_eq_Ok:
  "(\<exists>keys. try_fold insert_key [] ns = Ok keys \<and>
      (\<exists>s. try_fold (add_node x keys) start_state ns = Ok s \<and> Q s)) \<longleftrightarrow>
     loops_ok x ns \<and> Q (foldl grow start_state ns)"
proof -
  have *: "try_fold insert_key [] ns = Ok keys \<and> try_fold (add_node x keys) start_state ns = Ok s \<longleftrightarrow>
      loops_ok x ns \<and> keys = rev (map nn_node_key ns) \<and> s = foldl grow start_state ns" for keys s
    by (auto simp: insert_key_fold add_node_fold validate_node_key_iff dag_limits loops_ok_def)
  have "?thesis \<longleftrightarrow> (\<exists>keys s. (try_fold insert_key [] ns = Ok keys \<and>
      try_fold (add_node x keys) start_state ns = Ok s) \<and> Q s) = (loops_ok x ns \<and> Q (foldl grow start_state ns))"
    by simp
  also have "\<dots>" unfolding * by simp
  finally show ?thesis by simp
qed

text \<open>
  C10. Validation of a dependency graph never panics, and accepts a build exactly when its texts
  and limits are in range, its node keys are distinct, every dependency names another node of the
  build at most once, and the dependency relation has no cycle.
\<close>

theorem validate_dag_contract_accepts:
  "(validate_dag_contract x b = Ok () \<longleftrightarrow> contract_ok x b) \<and> validate_dag_contract x b \<noteq> Err Contract_panic"
proof -
  let ?ns = "nb_nodes b"
  let ?s = "foldl grow start_state ?ns"
  let ?visit = "\<lambda>s. kahn (ready_keys (cs_indegree s)) (cs_indegree s) (cs_children s) 0"
  define final where "final s = (case ?visit s of
      None \<Rightarrow> Err Contract_panic
    | Some visited \<Rightarrow> if visited \<noteq> length ?ns then
        Err (DagContractError Cycle ''$.nodes'' ''DAG contains a dependency cycle'') else Ok ())" for s :: contract_state
  have kahn: "(final ?s = Ok () \<longleftrightarrow> acyclic (dag_edges b)) \<and> no_panic (final ?s)" if "loops_ok x ?ns"
  proof -
    from that have "distinct (map nn_node_key ?ns)"
      and "\<forall>n\<in>set ?ns. distinct (dep_keys n) \<and> set (dep_keys n) \<subseteq> nn_node_key ` set ?ns"
      by (auto simp: loops_ok_def node_admissible_def)
    from kahn_contract [OF this refl] obtain v where
      "?visit ?s = Some v" "v = length ?ns \<longleftrightarrow> acyclic (dag_edges b)" unfolding dag_edges_def by blast
    then show ?thesis by (simp add: final_def)
  qed
  have "validate_dag_contract x b = Ok () \<longleftrightarrow> text_ok (nb_idempotency_key b) \<and>
      validate_notify_targets x (nb_notify_targets b) = Ok () \<and> ?ns \<noteq> [] \<and> length ?ns \<le> 256 \<and>
      (\<exists>keys. try_fold insert_key [] ?ns = Ok keys \<and>
        (\<exists>s. try_fold (add_node x keys) start_state ?ns = Ok s \<and> final s = Ok ()))"
    unfolding validate_dag_contract_def final_def
    by (simp add: and_then_eq_Ok if_Err_eq_Ok validate_text_iff dag_limits not_less)
  also have "\<dots> \<longleftrightarrow> text_ok (nb_idempotency_key b) \<and>
      validate_notify_targets x (nb_notify_targets b) = Ok () \<and> ?ns \<noteq> [] \<and> length ?ns \<le> 256 \<and>
      loops_ok x ?ns \<and> final ?s = Ok ()"
    by (simp only: loops_eq_Ok [of ?ns x "\<lambda>s. final s = Ok ()"])
  also have "\<dots> \<longleftrightarrow> contract_ok x b"
    using kahn by (auto simp: contract_ok_def loops_ok_def node_admissible_def validate_node_iff dest: dag_edges_self)
  finally have ok: "validate_dag_contract x b = Ok () \<longleftrightarrow> contract_ok x b" .
  have "no_panic (final s)" if "try_fold insert_key [] ?ns = Ok keys"
    "try_fold (add_node x keys) start_state ?ns = Ok s" for keys s
  proof -
    from loops_eq_Ok [of ?ns x "\<lambda>t. t = s"] that have "loops_ok x ?ns" "s = ?s" by blast+
    with kahn show ?thesis by simp
  qed
  then have "no_panic (validate_dag_contract x b)"
    unfolding validate_dag_contract_def final_def by (intro no_panic_intros)
  with ok show ?thesis by (simp add: no_panic_def)
qed

end
