(* ===== verification/Dag_Matrix.thy ===== *)
theory Dag_Matrix
  imports Dag_Graph "HOL-Library.Multiset"
begin

text \<open>
  The matrix of a pipeline: \<open>compile_matrix\<close> yields the Cartesian product of the axes, each cell
  once, under pairwise different node keys, whatever the order in which the values were written.
\<close>

fun cart :: "(string \<times> string list) list \<Rightarrow> string btree_map list" where
  "cart [] = [[]]"
| "cart ((a, vs) # axes) = concat (map (\<lambda>v. map (\<lambda>m. (a, v) # m) (cart axes)) vs)"

text \<open>The choices of one value per axis.\<close>

definition assignments :: "string list btree_map \<Rightarrow> string btree_map set" where
  "assignments axes = {m. list_all2 (\<lambda>(a, v) (b, vs). a = b \<and> v \<in> set vs) m axes}"

definition axes_cells :: "string list btree_map \<Rightarrow> nat" where
  "axes_cells axes = (\<Prod>(a, vs)\<leftarrow>axes. length vs)"

definition normal_axes :: "string list btree_map \<Rightarrow> (string \<times> string list) list" where
  "normal_axes axes = map (\<lambda>(a, vs). (a, sort vs)) axes"

definition axis_ok :: "string \<times> string list \<Rightarrow> bool" where
  "axis_ok = (\<lambda>(a, vs). text_ok a \<and> vs \<noteq> [] \<and> length vs \<le> 32 \<and> (\<forall>v\<in>set vs. text_ok v) \<and> distinct vs)"

lemma axes_cells_simps [simp]: "axes_cells [] = 1" "axes_cells ((a, vs) # axes) = length vs * axes_cells axes"
  by (simp_all add: axes_cells_def)

lemma repeats_sorted: "sorted vs \<Longrightarrow> repeats vs \<longleftrightarrow> \<not> distinct vs"
proof (induction vs rule: repeats.induct)
  case (1 a b vs)
  then show ?case by (auto dest: order_antisym)
qed auto

lemma normalize_axis_eq_Ok:
  "normalize_axis (c, nz) (a, vs) = Ok t \<longleftrightarrow>
     axis_ok (a, vs) \<and> c * length vs \<le> 256 \<and> t = (c * length vs, nz @ [(a, sort vs)])"
  by (auto simp: normalize_axis_def ok_simps validate_text_iff dag_limits repeats_sorted axis_ok_def Let_def
      usize_max_def split: if_splits)

lemma axes_cells_pos: "\<forall>av\<in>set axes. axis_ok av \<Longrightarrow> 0 < axes_cells axes"
  by (induction axes) (auto simp: axis_ok_def)

lemma normalize_axes_eq_Ok:
  assumes "c \<le> 256"
  shows "try_fold normalize_axis (c, nz) axes = Ok t \<longleftrightarrow>
    (\<forall>av\<in>set axes. axis_ok av) \<and> c * axes_cells axes \<le> 256 \<and> t = (c * axes_cells axes, nz @ normal_axes axes)"
  using assms
proof (induction axes arbitrary: c nz)
  case Nil
  then show ?case by (auto simp: normal_axes_def)
next
  case (Cons av axes)
  obtain a vs where av: "av = (a, vs)" by (cases av)
  have "c * length vs \<le> 256" if "\<forall>av\<in>set axes. axis_ok av" "c * length vs * axes_cells axes \<le> 256"
    using that(2) axes_cells_pos [OF that(1)] by (metis le_trans nat_mult_le_cancel1 le_square mult_le_mono2 mult.right_neutral Suc_leI One_nat_def)
  with Cons.IH [of "c * length vs" "nz @ [(a, sort vs)]"] show ?case
    by (auto simp: av and_then_eq_Ok normalize_axis_eq_Ok normal_axes_def mult.assoc)
qed

lemma extend_products_cart:
  assumes "btree_wf axes" and "\<forall>p\<in>set ps. \<forall>j\<in>fst ` set p. \<forall>k\<in>fst ` set axes. j < k"
  shows "foldl extend_products ps axes = concat (map (\<lambda>p. map (\<lambda>m. p @ m) (cart axes)) ps)"
  using assms
proof (induction axes arbitrary: ps)
  case Nil
  then show ?case by (induction ps) auto
next
  case (Cons av axes)
  obtain a vs where av: "av = (a, vs)" by (cases av)
  let ?next = "concat (map (\<lambda>p. map (\<lambda>v. p @ [(a, v)]) vs) ps)"
  have "extend_products ps av = ?next"
    using Cons.prems(2) by (auto simp: extend_products_def av btree_insert_last intro!: arg_cong [where f = concat])
  moreover have "foldl extend_products ?next axes = concat (map (\<lambda>p. map (\<lambda>m. p @ m) (cart axes)) ?next)"
    using Cons.prems by (intro Cons.IH) (auto simp: av btree_wf_Cons)
  moreover have "concat (map (\<lambda>p. map (\<lambda>m. p @ m) (cart axes)) (map (\<lambda>v. p @ [(a, v)]) vs)) =
      map (\<lambda>m. p @ m) (cart (av # axes))" for p
  proof -
    have "(\<lambda>m. (p @ [(a, v)]) @ m) = (\<lambda>m. p @ (a, v) # m)" for v by simp
    then show ?thesis by (simp add: av map_concat comp_def del: append_assoc)
  qed
  then have "concat (map (\<lambda>p. map (\<lambda>m. p @ m) (cart axes)) ?next) =
      concat (map (\<lambda>p. map (\<lambda>m. p @ m) (cart (av # axes))) ps)"
    by (induction ps) simp_all
  ultimately show ?case by simp
qed

lemma set_cart: "set (cart axes) = assignments axes"
  by (induction axes) (auto simp: assignments_def list_all2_Cons2 image_iff split: prod.splits)

lemma length_cart: "length (cart axes) = axes_cells axes"
  by (induction axes) (auto simp: length_concat comp_def sum_list_triv)

lemma distinct_cart: "\<forall>(a, vs)\<in>set axes. distinct vs \<Longrightarrow> distinct (cart axes)"
proof (induction axes)
  case Nil
  then show ?case by simp
next
  case (Cons av axes)
  obtain a vs where av: "av = (a, vs)" by (cases av)
  have "distinct vs \<Longrightarrow> distinct (concat (map (\<lambda>v. map (\<lambda>m. (a, v) # m) ms) vs))" if "distinct ms" for ms :: "string btree_map list"
    using that by (induction vs) (auto simp: distinct_map inj_on_def)
  with Cons show ?case by (simp add: av)
qed

lemma matrix_cells:
  "collect_results (matrix_cell_of p) ms = Ok cells \<longleftrightarrow>
     (\<forall>m\<in>set ms. node_key_ok (cell_key p m)) \<and>
     cells = map (\<lambda>m. \<lparr>mc_node_key = cell_key p m, mc_values = m\<rparr>) ms"
  by (induction ms arbitrary: cells) (auto simp: ok_simps matrix_cell_of_def validate_node_key_iff Let_def)

lemma text_ok_separators: "text_ok v \<Longrightarrow> CHR '','' \<notin> set v \<and> CHR ''='' \<notin> set v"
  unfolding text_ok_def by (auto simp: ascii_defs)

text \<open>The key of a cell determines its values.\<close>

lemma cell_key_inject:
  assumes "map fst m = map fst m'" and "m \<noteq> []"
    and "\<forall>(a, v)\<in>set m. text_ok a \<and> text_ok v" and "\<forall>(a, v)\<in>set m'. text_ok a \<and> text_ok v"
    and "cell_key p m = cell_key p m'"
  shows "m = m'"
proof -
  let ?part = "\<lambda>(a, v). a @ ''='' @ v :: string"
  have parts: "CHR '','' \<notin> set q" if "\<forall>(a, v)\<in>set l. text_ok a \<and> text_ok v" "q \<in> set (map ?part l)" for l q
    using that by (auto dest!: text_ok_separators)
  from assms(1,2) have ne: "map ?part m \<noteq> []" "map ?part m' \<noteq> []" by auto
  from assms(5) have "join '','' (map ?part m) = join '','' (map ?part m')" by (simp add: cell_key_def)
  then have "map ?part m = map ?part m'"
    using split_on_join [OF ne(1), of "CHR '',''"] split_on_join [OF ne(2), of "CHR '',''"]
      parts [OF assms(3)] parts [OF assms(4)] by metis
  with assms(1) show ?thesis
    by (induction m m' rule: list_induct2') (auto split: prod.splits)
qed

lemma normal_axes_simps [simp]:
  "btree_wf (normal_axes axes) = btree_wf axes"
  "axes_cells (normal_axes axes) = axes_cells axes"
  "assignments (normal_axes axes) = assignments axes"
  "normal_axes axes = [] \<longleftrightarrow> axes = []"
proof -
  show "btree_wf (normal_axes axes) = btree_wf axes"
    by (simp add: normal_axes_def btree_wf_def comp_def split_beta)
  show "axes_cells (normal_axes axes) = axes_cells axes"
    by (induction axes) (auto simp: normal_axes_def)
  show "assignments (normal_axes axes) = assignments axes"
    by (simp add: assignments_def normal_axes_def list_all2_map2 case_prod_unfold)
  show "normal_axes axes = [] \<longleftrightarrow> axes = []" by (simp add: normal_axes_def)
qed

lemma compile_matrix_eq_Ok:
  assumes "btree_wf axes"
  shows "compile_matrix p axes = Ok cells \<longleftrightarrow> text_ok p \<and> axes \<noteq> [] \<and> length axes \<le> 8 \<and>
    (\<forall>av\<in>set axes. axis_ok av) \<and> axes_cells axes \<le> 256 \<and>
    (\<forall>m\<in>set (cart (normal_axes axes)). node_key_ok (cell_key p m)) \<and>
    cells = map (\<lambda>m. \<lparr>mc_node_key = cell_key p m, mc_values = m\<rparr>) (cart (normal_axes axes))"
proof -
  have "foldl extend_products [[]] (normal_axes axes) = cart (normal_axes axes)"
    using extend_products_cart [of "normal_axes axes" "[[]]"] assms by (simp add: map_idI)
  then show ?thesis
    unfolding compile_matrix_def
    by (auto simp: ok_simps validate_text_iff dag_limits normalize_axes_eq_Ok matrix_cells)
qed

lemma assignment_texts:
  assumes "\<forall>av\<in>set axes. axis_ok av" and "m \<in> assignments axes"
  shows "map fst m = map fst axes \<and> (\<forall>(a, v)\<in>set m. text_ok a \<and> text_ok v)"
  using assms unfolding assignments_def
  by (induction m axes rule: list_induct2') (auto simp: axis_ok_def)

text \<open>Two presentations of the same axes: the values of each in any order.\<close>

definition same_axes :: "string list btree_map \<Rightarrow> string list btree_map \<Rightarrow> bool" where
  "same_axes = list_all2 (\<lambda>(a, vs) (b, ws). a = b \<and> mset vs = mset ws)"

lemma same_axes_normal:
  "same_axes axes axes' \<Longrightarrow> normal_axes axes = normal_axes axes' \<and>
     (\<forall>av\<in>set axes. axis_ok av) = (\<forall>av\<in>set axes'. axis_ok av) \<and>
     axes_cells axes = axes_cells axes' \<and> length axes = length axes' \<and> map fst axes = map fst axes'"
proof (induction axes axes' rule: list_induct2')
  case (4 av axes bw axes')
  obtain a vs b ws where ab: "av = (a, vs)" "bw = (b, ws)" by (cases av, cases bw)
  from 4(2) have eq: "a = b" "mset vs = mset ws" and rest: "same_axes axes axes'" by (simp_all add: same_axes_def ab)
  from eq(2) have "sort vs = sort ws" by (intro properties_for_sort) simp_all
  moreover from eq have "axis_ok av = axis_ok bw"
    by (auto simp: ab axis_ok_def dest: mset_eq_setD mset_eq_length mset_eq_imp_distinct_iff)
  moreover from eq(2) have "length vs = length ws" by (rule mset_eq_length)
  ultimately show ?case using 4(1) [OF rest] eq(1) by (simp add: ab normal_axes_def)
qed (simp_all add: same_axes_def)

text \<open>
  C26. A compiled matrix has one cell for every choice of a value per axis and no other, at most
  256 of them, under pairwise different node keys that name the choice; it does not depend on the
  order in which the values of an axis were written.
\<close>

theorem compile_matrix_product:
  assumes wf: "btree_wf axes" and ok: "compile_matrix p axes = Ok cells"
  shows "mc_values ` set cells = assignments axes \<and> distinct (map mc_node_key cells) \<and>
    length cells = axes_cells axes \<and> axes_cells axes \<le> 256 \<and>
    (\<forall>c\<in>set cells. mc_node_key c = cell_key p (mc_values c)) \<and>
    (\<forall>axes'. same_axes axes axes' \<longrightarrow> compile_matrix p axes' = Ok cells)"
proof -
  let ?ms = "cart (normal_axes axes)"
  from ok have c: "axes \<noteq> []" "\<forall>av\<in>set axes. axis_ok av" "axes_cells axes \<le> 256"
    "cells = map (\<lambda>m. \<lparr>mc_node_key = cell_key p m, mc_values = m\<rparr>) ?ms"
    by (auto simp: compile_matrix_eq_Ok [OF wf])
  have texts: "map fst m = map fst axes \<and> (\<forall>(a, v)\<in>set m. text_ok a \<and> text_ok v)" if "m \<in> set ?ms" for m
    using assignment_texts [OF c(2)] that by (simp add: set_cart)
  have "distinct ?ms"
    using c(2) by (intro distinct_cart) (auto simp: normal_axes_def axis_ok_def)
  moreover have "inj_on (cell_key p) (set ?ms)"
  proof (rule inj_onI)
    fix m m'
    assume m: "m \<in> set ?ms" "m' \<in> set ?ms" and eq: "cell_key p m = cell_key p m'"
    from texts [OF m(1)] c(1) have "m \<noteq> []" by (cases m) auto
    with texts [OF m(1)] texts [OF m(2)] eq show "m = m'" by (intro cell_key_inject [of m m' p]) simp_all
  qed
  ultimately have "distinct (map mc_node_key cells)" by (simp add: c(4) comp_def distinct_map)
  moreover have "compile_matrix p axes' = Ok cells" if "same_axes axes axes'" for axes'
  proof -
    from same_axes_normal [OF that] have n: "normal_axes axes = normal_axes axes'"
      "(\<forall>av\<in>set axes. axis_ok av) = (\<forall>av\<in>set axes'. axis_ok av)" "axes_cells axes = axes_cells axes'"
      "length axes = length axes'" "map fst axes = map fst axes'" by blast+
    from n(5) wf have wf': "btree_wf axes'" by (simp add: btree_wf_def)
    from n(4) have "axes = [] \<longleftrightarrow> axes' = []" by (metis length_0_conv)
    with ok show ?thesis unfolding compile_matrix_eq_Ok [OF wf] compile_matrix_eq_Ok [OF wf'] n by simp
  qed
  ultimately show ?thesis using c(3) by (auto simp: c(4) set_cart length_cart image_image)
qed

definition sample_axes :: "string list btree_map" where
  "sample_axes = [(''arch'', [''x64'', ''arm64'']), (''os'', [''linux''])]"

definition sample_cells :: "matrix_cell list" where
  "sample_cells =
     [\<lparr>mc_node_key = ''test[arch=arm64,os=linux]'', mc_values = [(''arch'', ''arm64''), (''os'', ''linux'')]\<rparr>,
      \<lparr>mc_node_key = ''test[arch=x64,os=linux]'', mc_values = [(''arch'', ''x64''), (''os'', ''linux'')]\<rparr>]"

lemma sample_matrix: "btree_wf sample_axes" "compile_matrix ''test'' sample_axes = Ok sample_cells"
proof -
  show wf: "btree_wf sample_axes" by (simp add: sample_axes_def btree_wf_def)
  show "compile_matrix ''test'' sample_axes = Ok sample_cells"
    unfolding compile_matrix_eq_Ok [OF wf]
    by (simp add: sample_axes_def sample_cells_def normal_axes_def axis_ok_def text_ok_def node_key_ok_def
        cell_key_def ascii_defs)
qed

theorem compile_matrix_product_witness:
  "compile_matrix ''test'' sample_axes = Ok sample_cells \<and> mc_values ` set sample_cells = assignments sample_axes \<and>
   axes_cells sample_axes = 2"
  using compile_matrix_product [OF sample_matrix] sample_matrix(2) by (simp add: sample_cells_def)

end
