(* ===== verification/Workspace.thy ===== *)
theory Workspace
  imports Dag_Contract
begin

text \<open>
  The bounded transfer of a build's workspace, \<open>domain/src/workspace.rs\<close>: snapshots of regular
  files, their content-free receipts, and the grants and results that carry them between the
  controller and an agent. SHA-256, the JSON encoder and the UUID parser are the fields of a
  record.
\<close>

section \<open>Data\<close>

definition MAX_WORKSPACE_BYTES :: nat where "MAX_WORKSPACE_BYTES = 8 * 1024"
definition MAX_WORKSPACE_ENTRIES :: nat where "MAX_WORKSPACE_ENTRIES = 32"
definition MAX_WORKSPACE_PATH_BYTES :: nat where "MAX_WORKSPACE_PATH_BYTES = 256"
definition MAX_WORKSPACE_DEPTH :: nat where "MAX_WORKSPACE_DEPTH = 8"
definition MAX_WORKSPACE_ENCODED_BYTES :: nat where "MAX_WORKSPACE_ENCODED_BYTES = 48 * 1024"

lemmas workspace_limits = MAX_WORKSPACE_BYTES_def MAX_WORKSPACE_ENTRIES_def MAX_WORKSPACE_PATH_BYTES_def
  MAX_WORKSPACE_DEPTH_def MAX_WORKSPACE_ENCODED_BYTES_def

datatype workspace_entry =
    Directory (we_path: string)
  | File (we_path: string) (we_executable: bool) (we_contents: "byte list")

record workspace_snapshot =
  sn_version :: nat
  sn_entries :: "workspace_entry list"

datatype workspace_entry_receipt =
    Directory_receipt (wr_path: string)
  | File_receipt (wr_path: string) (wr_executable: bool) (wr_size_bytes: nat) (wr_digest: "byte list")

record workspace_snapshot_receipt =
  sr_version :: nat
  sr_digest :: "byte list"
  sr_total_bytes :: nat
  sr_entries :: "workspace_entry_receipt list"

record workspace_grant =
  wg_version :: nat
  wg_organization_id :: string
  wg_build_id :: string
  wg_namespace_id :: string
  wg_generation :: nat
  wg_digest :: "byte list"
  wg_snapshot :: workspace_snapshot

record workspace_transfer_result =
  wt_version :: nat
  wt_organization_id :: string
  wt_build_id :: string
  wt_namespace_id :: string
  wt_generation :: nat
  wt_input_digest :: "byte list"
  wt_snapshot :: "workspace_snapshot option"
  wt_error :: "string option"

datatype workspace_error = WorkspaceError string

record workspace_externals =
  wx_sha256 :: "byte list \<Rightarrow> byte list"
  snapshot_vec :: "workspace_snapshot \<Rightarrow> byte list option"
  result_vec :: "workspace_transfer_result \<Rightarrow> byte list option"
  uuid_parse_str :: "string \<Rightarrow> uuid option"
  uuid_to_string :: "uuid \<Rightarrow> string"

definition ws_invalid :: "string \<Rightarrow> ('a, workspace_error) result" where
  "ws_invalid message = Err (WorkspaceError message)"

section \<open>Paths\<close>

definition validate_path :: "string \<Rightarrow> (unit, workspace_error) result" where
  "validate_path path =
     (let parts = split_on CHR ''/'' path in
      if path = [] \<or> length path > MAX_WORKSPACE_PATH_BYTES \<or> length parts > MAX_WORKSPACE_DEPTH \<or>
         list_ex (\<lambda>c. is_control c \<or> c = [CHR 0x5C] \<or> c = '':'') (chars path) \<or>
         list_ex (\<lambda>part. part = [] \<or> part = ''.'' \<or> part = ''..'') parts \<or>
         hd parts = ''spool'' \<or> hd parts = ''.agent-results''
      then ws_invalid ''unsafe, reserved, or out-of-bound relative path'' else Ok ())"

text \<open>The walk to the root: \<open>while let Some((prefix, _)) = parent.rsplit_once('/')\<close>.\<close>

lemma rsplit_once_shorter: "rsplit_once p s = Some (a, b) \<Longrightarrow> p \<noteq> [] \<Longrightarrow> length a < length s"
  by (induction p s arbitrary: a b rule: rsplit_once.induct) (auto split: option.splits)

function parents_listed :: "bool btree_map \<Rightarrow> string \<Rightarrow> bool" where
  "parents_listed paths path = (case rsplit_once ''/'' path of
     None \<Rightarrow> True
   | Some (parent, _) \<Rightarrow> btree_get paths parent = Some True \<and> parents_listed paths parent)"
  by pat_completeness auto
termination
  by (relation "measure (\<lambda>(_, path). length path)") (auto dest: rsplit_once_shorter)

declare parents_listed.simps [simp del]

section \<open>Snapshots\<close>

text \<open>The variables of the two validation loops.\<close>

record scan =
  sc_paths :: "bool btree_map"
  sc_previous :: "string option"
  sc_total :: nat

definition start_scan :: scan where
  "start_scan = \<lparr>sc_paths = [], sc_previous = None, sc_total = 0\<rparr>"

definition is_directory :: "workspace_entry \<Rightarrow> bool" where
  "is_directory e = (case e of Directory _ \<Rightarrow> True | File _ _ _ \<Rightarrow> False)"

definition scan_entry :: "scan \<Rightarrow> workspace_entry \<Rightarrow> (scan, workspace_error) result" where
  "scan_entry s e =
     (let path = we_path e in
      and_then (validate_path path) (\<lambda>_.
      if some_and (\<lambda>v. path \<le> v) (sc_previous s) then
        ws_invalid ''paths must be unique and lexically ordered''
      else if \<not> parents_listed (sc_paths s) path then
        ws_invalid ''every parent must be an explicit directory''
      else
        (let s = s\<lparr>sc_previous := Some path, sc_paths := btree_insert (sc_paths s) path (is_directory e)\<rparr> in
         case e of
           Directory _ \<Rightarrow> Ok s
         | File _ _ contents \<Rightarrow>
             let total = sc_total s + length contents in
             if total > usize_max then ws_invalid ''content size overflow''
             else if total > MAX_WORKSPACE_BYTES then ws_invalid ''workspace content bound exceeded''
             else Ok (s\<lparr>sc_total := total\<rparr>))))"

definition validate_snapshot :: "workspace_externals \<Rightarrow> workspace_snapshot \<Rightarrow> (unit, workspace_error) result" where
  "validate_snapshot x sn =
     (if sn_version sn \<noteq> 1 \<or> length (sn_entries sn) > MAX_WORKSPACE_ENTRIES then
        ws_invalid ''unsupported snapshot version or entry bound''
      else and_then (try_fold scan_entry start_scan (sn_entries sn)) (\<lambda>_.
        case snapshot_vec x sn of
          None \<Rightarrow> ws_invalid ''snapshot encoding failed''
        | Some bytes \<Rightarrow>
            if length bytes > MAX_WORKSPACE_ENCODED_BYTES then ws_invalid ''encoded snapshot bound exceeded''
            else Ok ()))"

definition snapshot_digest :: "workspace_externals \<Rightarrow> workspace_snapshot \<Rightarrow> (byte list, workspace_error) result" where
  "snapshot_digest x sn =
     and_then (validate_snapshot x sn) (\<lambda>_.
     case snapshot_vec x sn of
       None \<Rightarrow> ws_invalid ''snapshot encoding failed''
     | Some bytes \<Rightarrow> Ok (wx_sha256 x bytes))"

definition entry_receipt :: "workspace_externals \<Rightarrow> workspace_entry \<Rightarrow> workspace_entry_receipt" where
  "entry_receipt x e = (case e of
     Directory path \<Rightarrow> Directory_receipt path
   | File path executable contents \<Rightarrow>
       File_receipt path executable (length contents) (wx_sha256 x contents))"

definition entry_bytes :: "workspace_entry \<Rightarrow> nat" where
  "entry_bytes e = (case e of Directory _ \<Rightarrow> 0 | File _ _ contents \<Rightarrow> length contents)"

definition snapshot_receipt ::
  "workspace_externals \<Rightarrow> workspace_snapshot \<Rightarrow> (workspace_snapshot_receipt, workspace_error) result" where
  "snapshot_receipt x sn =
     and_then (snapshot_digest x sn) (\<lambda>digest.
     Ok \<lparr>sr_version = 1, sr_digest = digest, sr_total_bytes = (\<Sum>e\<leftarrow>sn_entries sn. entry_bytes e),
         sr_entries = map (entry_receipt x) (sn_entries sn)\<rparr>)"

section \<open>Receipts, grants and results\<close>

definition scan_receipt :: "scan \<Rightarrow> workspace_entry_receipt \<Rightarrow> (scan, workspace_error) result" where
  "scan_receipt s e =
     and_then
       (case e of
          Directory_receipt path \<Rightarrow> Ok (path, True, s)
        | File_receipt path _ n _ \<Rightarrow>
            let total = sc_total s + n in
            if total > usize_max then ws_invalid ''receipt size overflow''
            else if total > MAX_WORKSPACE_BYTES then ws_invalid ''receipt content bound exceeded''
            else Ok (path, False, s\<lparr>sc_total := total\<rparr>))
       (\<lambda>(path, directory, s).
          and_then (validate_path path) (\<lambda>_.
          if some_and (\<lambda>v. path \<le> v) (sc_previous s) then
            ws_invalid ''receipt paths must be unique and lexically ordered''
          else if \<not> parents_listed (sc_paths s) path then
            ws_invalid ''receipt parent must be an explicit directory''
          else Ok (s\<lparr>sc_previous := Some path, sc_paths := btree_insert (sc_paths s) path directory\<rparr>)))"

definition validate_receipt :: "workspace_snapshot_receipt \<Rightarrow> (unit, workspace_error) result" where
  "validate_receipt r =
     (if sr_version r \<noteq> 1 \<or> length (sr_entries r) > MAX_WORKSPACE_ENTRIES then
        ws_invalid ''unsupported receipt version or entry bound''
      else and_then (try_fold scan_receipt start_scan (sr_entries r)) (\<lambda>s.
        if sc_total s \<noteq> sr_total_bytes r then ws_invalid ''receipt total differs from file sizes'' else Ok ()))"

definition check_identity :: "workspace_externals \<Rightarrow> string \<Rightarrow> (unit, workspace_error) result" where
  "check_identity x v = (case uuid_parse_str x v of
     None \<Rightarrow> ws_invalid ''invalid transfer identity''
   | Some u \<Rightarrow> if u = 0 \<or> uuid_to_string x u \<noteq> v then ws_invalid ''noncanonical or nil transfer identity'' else Ok ())"

definition validate_identity ::
  "workspace_externals \<Rightarrow> nat \<Rightarrow> string \<Rightarrow> string \<Rightarrow> string \<Rightarrow> nat \<Rightarrow> (unit, workspace_error) result" where
  "validate_identity x version organization build namespace generation =
     (if version \<noteq> 1 \<or> generation > 64 then ws_invalid ''unsupported transfer version or generation''
      else for_each (check_identity x) [organization, build, namespace])"

definition validate_grant :: "workspace_externals \<Rightarrow> workspace_grant \<Rightarrow> (unit, workspace_error) result" where
  "validate_grant x g =
     and_then (validate_identity x (wg_version g) (wg_organization_id g) (wg_build_id g) (wg_namespace_id g)
       (wg_generation g)) (\<lambda>_.
     and_then (snapshot_digest x (wg_snapshot g)) (\<lambda>digest.
     if digest \<noteq> wg_digest g then ws_invalid ''snapshot digest mismatch'' else Ok ()))"

definition validate_transfer :: "workspace_externals \<Rightarrow> workspace_transfer_result \<Rightarrow> (unit, workspace_error) result" where
  "validate_transfer x t =
     and_then (validate_identity x (wt_version t) (wt_organization_id t) (wt_build_id t) (wt_namespace_id t)
       (wt_generation t)) (\<lambda>_.
     and_then
       (case (wt_snapshot t, wt_error t) of
          (Some snapshot, None) \<Rightarrow> validate_snapshot x snapshot
        | (None, Some error) \<Rightarrow>
            if error \<noteq> [] \<and> length error \<le> 1024 then Ok ()
            else ws_invalid ''transfer must carry a snapshot or an explicit bounded error''
        | _ \<Rightarrow> ws_invalid ''transfer must carry a snapshot or an explicit bounded error'') (\<lambda>_.
     case result_vec x t of
       None \<Rightarrow> ws_invalid ''result encoding failed''
     | Some bytes \<Rightarrow>
         if length bytes > 60 * 1024 then ws_invalid ''encoded transfer result bound exceeded'' else Ok ()))"

section \<open>What a valid snapshot is\<close>

definition ancestor :: "string \<Rightarrow> string \<Rightarrow> bool" where
  "ancestor p path \<longleftrightarrow> (\<exists>r. path = p @ ''/'' @ r)"

definition snapshot_ok :: "workspace_externals \<Rightarrow> workspace_snapshot \<Rightarrow> bool" where
  "snapshot_ok x sn \<longleftrightarrow> sn_version sn = 1 \<and> length (sn_entries sn) \<le> 32 \<and>
     sorted_wrt (<) (map we_path (sn_entries sn)) \<and>
     (\<forall>e\<in>set (sn_entries sn). validate_path (we_path e) = Ok () \<and>
        (\<forall>p. ancestor p (we_path e) \<longrightarrow> Directory p \<in> set (sn_entries sn))) \<and>
     (\<Sum>e\<leftarrow>sn_entries sn. entry_bytes e) \<le> 8192 \<and>
     (\<exists>bytes. snapshot_vec x sn = Some bytes \<and> length bytes \<le> 49152)"

lemma rsplit_once_eq_None: "rsplit_once [d] s = None \<longleftrightarrow> d \<notin> set s"
  by (induction s) (auto split: option.splits)

lemma rsplit_once_last: "d \<notin> set b \<Longrightarrow> rsplit_once [d] (a @ d # b) = Some (a, b)"
  by (induction a) (simp_all add: rsplit_once_eq_None [THEN iffD2])

lemma rsplit_once_eq_Some: "rsplit_once [d] s = Some (a, b) \<longleftrightarrow> s = a @ d # b \<and> d \<notin> set b"
proof
  assume r: "rsplit_once [d] s = Some (a, b)"
  then have "d \<in> set s" by (metis option.distinct(1) rsplit_once_eq_None)
  then obtain a' b' where s: "s = a' @ d # b'" "d \<notin> set b'" by (meson split_list_last)
  with rsplit_once_last [of d b' a'] r show "s = a @ d # b \<and> d \<notin> set b" by simp
qed (auto simp: rsplit_once_last)

lemma ancestor_step:
  assumes "rsplit_once ''/'' path = Some (q, r)"
  shows "ancestor p path \<longleftrightarrow> p = q \<or> ancestor p q"
proof -
  from assms have path: "path = q @ ''/'' @ r" "CHR ''/'' \<notin> set r" by (simp_all add: rsplit_once_eq_Some)
  show ?thesis
  proof
    assume "ancestor p path"
    then obtain t where "q @ ''/'' @ r = p @ ''/'' @ t" by (auto simp: ancestor_def path)
    then consider "p = q" | u where "q = p @ ''/'' @ u" | u where "p = q @ ''/'' @ u" "CHR ''/'' \<in> set r"
      by (auto simp: append_eq_append_conv2 append_eq_Cons_conv Cons_eq_append_conv)
    then show "p = q \<or> ancestor p q" using path(2) by cases (auto simp: ancestor_def)
  next
    assume "p = q \<or> ancestor p q"
    then show "ancestor p path" by (auto simp: ancestor_def path)
  qed
qed

lemma parents_listed_iff: "parents_listed paths path \<longleftrightarrow> (\<forall>p. ancestor p path \<longrightarrow> btree_get paths p = Some True)"
proof (induction paths path rule: parents_listed.induct)
  case (1 paths path)
  show ?case
  proof (cases "rsplit_once ''/'' path")
    case None
    then have "\<not> ancestor p path" for p by (auto simp: rsplit_once_eq_None ancestor_def)
    with None show ?thesis by (simp add: parents_listed.simps)
  next
    case (Some qr)
    obtain q r where qr: "qr = (q, r)" by (cases qr)
    with 1 [OF Some] Some ancestor_step [of path q r] show ?thesis
      by (auto simp: parents_listed.simps [of paths path])
  qed
qed

lemma less_append_Cons: "xs < xs @ (y :: 'a :: order) # ys"
  by (induction xs) auto

lemma ancestor_less: "ancestor p path \<Longrightarrow> p < path"
  by (auto simp: ancestor_def less_append_Cons)

text \<open>What one entry needs, given the entries before it.\<close>

definition entry_fits :: "workspace_entry list \<Rightarrow> workspace_entry \<Rightarrow> bool" where
  "entry_fits es e \<longleftrightarrow> validate_path (we_path e) = Ok () \<and> (\<forall>d\<in>set es. we_path d < we_path e) \<and>
     (\<forall>p. ancestor p (we_path e) \<longrightarrow> Directory p \<in> set es)"

definition scanned :: "workspace_entry list \<Rightarrow> scan" where
  "scanned es = \<lparr>sc_paths = map (\<lambda>e. (we_path e, is_directory e)) es,
     sc_previous = (if es = [] then None else Some (we_path (last es))),
     sc_total = (\<Sum>e\<leftarrow>es. entry_bytes e)\<rparr>"

lemma scanned_directory:
  assumes "sorted_wrt (<) (map we_path es)"
  shows "btree_get (sc_paths (scanned es)) p = Some True \<longleftrightarrow> Directory p \<in> set es"
proof -
  have "btree_wf (sc_paths (scanned es))" using assms by (simp add: scanned_def btree_wf_def comp_def)
  from bt.get_iff_entry [OF this, of p True] show ?thesis
    by (force simp: scanned_def is_directory_def split: workspace_entry.splits)
qed

lemma sorted_last: "sorted_wrt (<) (map f es) \<Longrightarrow> es \<noteq> [] \<Longrightarrow>
    (\<forall>d\<in>set es. f d < (v :: 'a :: linorder)) \<longleftrightarrow> f (last es) < v"
  by (induction es rule: rev_induct) (auto simp: sorted_wrt_append)

lemma scan_entry_scanned:
  assumes sorted: "sorted_wrt (<) (map we_path es)" and bound: "(\<Sum>e\<leftarrow>es. entry_bytes e) \<le> 8192"
  shows "scan_entry (scanned es) e = Ok s \<longleftrightarrow>
    entry_fits es e \<and> (\<Sum>e\<leftarrow>es @ [e]. entry_bytes e) \<le> 8192 \<and> s = scanned (es @ [e])"
proof -
  have prev: "some_and (\<lambda>v. we_path e \<le> v) (sc_previous (scanned es)) \<longleftrightarrow>
      \<not> (\<forall>d\<in>set es. we_path d < we_path e)"
    by (cases "es = []") (simp_all add: scanned_def some_and_def sorted_last [OF sorted] not_less)
  have par: "parents_listed (sc_paths (scanned es)) (we_path e) \<longleftrightarrow>
      (\<forall>p. ancestor p (we_path e) \<longrightarrow> Directory p \<in> set es)"
    by (simp add: parents_listed_iff scanned_directory [OF sorted])
  have next_scan: "(scanned es)\<lparr>sc_previous := Some (we_path e),
      sc_paths := btree_insert (sc_paths (scanned es)) (we_path e) (is_directory e),
      sc_total := sc_total (scanned es) + entry_bytes e\<rparr> = scanned (es @ [e])"
    if "\<forall>d\<in>set es. we_path d < we_path e"
    using that btree_insert_last [of "sc_paths (scanned es)" "we_path e"] by (simp add: scanned_def)
  have total: "sc_total (scanned es) = (\<Sum>e\<leftarrow>es. entry_bytes e)" by (simp add: scanned_def)
  show ?thesis
  proof (cases e)
    case (Directory p)
    with next_scan bound show ?thesis
      unfolding scan_entry_def Let_def prev par
      by (auto simp: ok_simps entry_fits_def ws_invalid_def is_directory_def entry_bytes_def)
  next
    case (File p ex contents)
    with next_scan show ?thesis
      unfolding scan_entry_def Let_def prev par
      by (auto simp: ok_simps entry_fits_def ws_invalid_def is_directory_def entry_bytes_def total workspace_limits
          usize_max_def)
  qed
qed

lemma scan_entries:
  assumes "sorted_wrt (<) (map we_path ds)" and "(\<Sum>e\<leftarrow>ds. entry_bytes e) \<le> 8192"
  shows "try_fold scan_entry (scanned ds) es = Ok s \<longleftrightarrow>
    (\<forall>i<length es. entry_fits (ds @ take i es) (es ! i)) \<and> (\<Sum>e\<leftarrow>ds @ es. entry_bytes e) \<le> 8192 \<and>
    s = scanned (ds @ es)"
  using assms
proof (induction es arbitrary: ds)
  case Nil
  then show ?case by auto
next
  case (Cons e es)
  have fits: "(\<forall>i<length (e # es). entry_fits (ds @ take i (e # es)) ((e # es) ! i)) \<longleftrightarrow>
      entry_fits ds e \<and> (\<forall>i<length es. entry_fits ((ds @ [e]) @ take i es) (es ! i))"
    by (auto simp: less_Suc_eq_0_disj)
  have "sorted_wrt (<) (map we_path (ds @ [e]))" if "entry_fits ds e"
    using that Cons.prems(1) by (auto simp: entry_fits_def sorted_wrt_append)
  with Cons.IH [of "ds @ [e]"] show ?case
    unfolding fits by (auto simp: and_then_eq_Ok scan_entry_scanned [OF Cons.prems])
qed

lemma nth_in_take: "j < i \<Longrightarrow> i < length es \<Longrightarrow> es ! j \<in> set (take i es)"
  by (auto simp: in_set_conv_nth intro!: exI [of _ j])

text \<open>The loop, which looks back only, accepts exactly what the set of entries describes.\<close>

lemma entries_fit:
  "(\<forall>i<length es. entry_fits (take i es) (es ! i)) \<longleftrightarrow>
     sorted_wrt (<) (map we_path es) \<and>
     (\<forall>e\<in>set es. validate_path (we_path e) = Ok () \<and> (\<forall>p. ancestor p (we_path e) \<longrightarrow> Directory p \<in> set es))"
  (is "?L \<longleftrightarrow> ?R")
proof
  assume L: ?L
  then have "we_path (es ! j) < we_path (es ! i)" if "j < i" "i < length es" for i j
    using that nth_in_take [OF that] by (simp add: entry_fits_def)
  then have "sorted_wrt (<) (map we_path es)" by (simp add: sorted_wrt_iff_nth_less)
  moreover have "validate_path (we_path e) = Ok () \<and> (\<forall>p. ancestor p (we_path e) \<longrightarrow> Directory p \<in> set es)"
    if "e \<in> set es" for e
  proof -
    from that obtain i where "i < length es" "e = es ! i" by (auto simp: in_set_conv_nth)
    with L have "entry_fits (take i es) e" by simp
    then show ?thesis by (auto simp: entry_fits_def dest: in_set_takeD)
  qed
  ultimately show ?R by blast
next
  assume R: ?R
  show ?L
  proof (intro allI impI)
    fix i assume i: "i < length es"
    from R have less: "we_path (es ! j) < we_path (es ! k)" if "j < k" "k < length es" for j k
      using that by (simp add: sorted_wrt_iff_nth_less)
    have "Directory p \<in> set (take i es)" if "ancestor p (we_path (es ! i))" for p
    proof -
      from R i that have "Directory p \<in> set es" using nth_mem by blast
      then obtain j where j: "j < length es" "es ! j = Directory p" by (auto simp: in_set_conv_nth)
      with ancestor_less [OF that] have "we_path (es ! j) < we_path (es ! i)" by simp
      with less [of i j] i j have "j < i" by (cases i j rule: linorder_cases) auto
      with nth_in_take [of j i es] i j show ?thesis by simp
    qed
    moreover have "\<forall>d\<in>set (take i es). we_path d < we_path (es ! i)"
      using less i by (auto simp: in_set_conv_nth)
    ultimately show "entry_fits (take i es) (es ! i)" using R i by (simp add: entry_fits_def)
  qed
qed

lemma start_scanned: "start_scan = scanned []"
  by (simp add: start_scan_def scanned_def)

lemma validate_snapshot_iff: "validate_snapshot x sn = Ok () \<longleftrightarrow> snapshot_ok x sn"
  unfolding validate_snapshot_def snapshot_ok_def start_scanned
  by (auto simp: ok_simps scan_entries entries_fit ws_invalid_def workspace_limits split: option.splits if_splits)

lemma scan_receipt_of_entry:
  assumes "scan_entry s e = Ok t"
  shows "scan_receipt s (entry_receipt x e) = Ok t"
proof -
  from assms have v: "validate_path (we_path e) = Ok ()"
    and prev: "\<not> some_and (\<lambda>v. we_path e \<le> v) (sc_previous s)"
    and par: "parents_listed (sc_paths s) (we_path e)"
    unfolding scan_entry_def ws_invalid_def Let_def and_then_eq_Ok if_Err_eq_Ok by simp_all
  show ?thesis
  proof (cases e)
    case (Directory p)
    with assms v prev par show ?thesis
      by (simp add: scan_entry_def scan_receipt_def entry_receipt_def is_directory_def)
  next
    case (File p ex contents)
    with assms v prev par show ?thesis
      by (cases s) (auto simp: scan_entry_def scan_receipt_def entry_receipt_def is_directory_def Let_def ws_invalid_def
          split: if_splits)
  qed
qed

lemma scan_receipts: "try_fold scan_entry s es = Ok t \<Longrightarrow> try_fold scan_receipt s (map (entry_receipt x) es) = Ok t"
  by (induction es arbitrary: s) (auto simp: and_then_eq_Ok scan_receipt_of_entry)

lemma snapshot_receipt_valid:
  assumes ok: "snapshot_ok x sn"
  shows "\<exists>r. snapshot_receipt x sn = Ok r \<and> validate_receipt r = Ok () \<and> snapshot_digest x sn = Ok (sr_digest r)"
proof -
  from ok obtain bytes where b: "snapshot_vec x sn = Some bytes" by (auto simp: snapshot_ok_def)
  from ok have "try_fold scan_entry start_scan (sn_entries sn) = Ok (scanned (sn_entries sn))"
    by (simp add: snapshot_ok_def start_scanned scan_entries entries_fit)
  from scan_receipts [OF this, of x] ok b show ?thesis
    by (auto simp: snapshot_receipt_def snapshot_digest_def validate_snapshot_iff [THEN iffD2]
        validate_receipt_def scanned_def snapshot_ok_def workspace_limits)
qed

lemma snapshot_digest_ok: "snapshot_digest x sn = Ok d \<Longrightarrow> snapshot_ok x sn"
  by (auto simp: snapshot_digest_def ok_simps validate_snapshot_iff)

text \<open>
  C27. A snapshot is accepted exactly when its version and sizes are in range, its paths are safe
  and strictly ascending, and every directory on the way to an entry is itself listed; and these
  are exactly the snapshots that have a receipt, which the receipt's own validation accepts.
\<close>

theorem validate_snapshot_accepts:
  "(validate_snapshot x sn = Ok () \<longleftrightarrow> snapshot_ok x sn) \<and>
   ((\<exists>r. snapshot_receipt x sn = Ok r \<and> validate_receipt r = Ok ()) \<longleftrightarrow> snapshot_ok x sn)"
  using snapshot_receipt_valid [of x sn] snapshot_digest_ok [of x sn] validate_snapshot_iff [of x sn]
  by (auto simp: snapshot_receipt_def and_then_eq_Ok)

end
