(* ===== verification/Workspace_Chain.thy ===== *)
theory Workspace_Chain
  imports Workspace
begin

text \<open>
  The controller's side of the workspace transfer, \<open>controller-store/src/workspace.rs\<close>: the
  checkpoint a build keeps, the grant an attempt receives, the commit of what it sends back, and
  the audit that rebuilds the chain of checkpoints from the terminal summaries. Encoding to and
  decoding from JSON is \<open>serde\<close>'s, a record of functions.
\<close>

section \<open>Errors and outcomes\<close>

text \<open>A store error, or the panic of an index, which no admission meets.\<close>

datatype store_error =
    SequentialIntegrity string
  | InvalidAgentSession
  | InvalidAuditOperation string
  | InvalidPipelineState string
  | PipelineDisabled uuid int
  | PipelineStateConflict string
  | InvalidDag string
  | IdempotencyConflict string
  | RowNotFound
  | Panicked

definition store_invalid :: "string \<Rightarrow> ('a, store_error) result" where
  "store_invalid message = Err (SequentialIntegrity message)"

text \<open>\<open>.map_err(invalid)\<close> on a workspace error, through its \<open>Display\<close>.\<close>

definition display_workspace_error :: "workspace_error \<Rightarrow> store_error" where
  "display_workspace_error e = (case e of WorkspaceError m \<Rightarrow> SequentialIntegrity (''workspace transfer: '' @ m))"

abbreviation checked :: "('a, workspace_error) result \<Rightarrow> ('a, store_error) result" where
  "checked \<equiv> map_err display_workspace_error"

abbreviation decoded :: "('a, string) result \<Rightarrow> ('a, store_error) result" where
  "decoded \<equiv> map_err SequentialIntegrity"

datatype terminal_outcome = Out_Succeeded | Out_Failed | Out_Aborted

definition outcome_str :: "terminal_outcome \<Rightarrow> string" where
  "outcome_str out = (case out of Out_Succeeded \<Rightarrow> ''succeeded'' | Out_Failed \<Rightarrow> ''failed'' | Out_Aborted \<Rightarrow> ''aborted'')"

section \<open>Encodings\<close>

record terminal_receipt =
  tr_version :: nat
  tr_organization_id :: string
  tr_build_id :: string
  tr_namespace_id :: string
  tr_generation :: nat
  tr_input_digest :: "byte list"
  tr_receipt :: "workspace_snapshot_receipt option"
  tr_error :: "string option"

record workspace_serde =
  transfer_from_value :: "json \<Rightarrow> (workspace_transfer_result, string) result"
  terminal_from_value :: "json \<Rightarrow> (terminal_receipt, string) result"
  snapshot_to_value :: "workspace_snapshot \<Rightarrow> (json, string) result"
  snapshot_from_value :: "json \<Rightarrow> (workspace_snapshot, string) result"
  receipt_to_value :: "workspace_snapshot_receipt \<Rightarrow> (json, string) result"
  receipt_from_value :: "json \<Rightarrow> (workspace_snapshot_receipt, string) result"
  receipt_json :: "workspace_snapshot_receipt \<Rightarrow> json"

definition json_option :: "('a \<Rightarrow> json) \<Rightarrow> 'a option \<Rightarrow> json" where
  "json_option f v = (case v of Some w \<Rightarrow> f w | None \<Rightarrow> J_null)"

definition json_digest :: "byte list \<Rightarrow> json" where
  "json_digest bs = J_array (map (\<lambda>b. J_number (int (unat b))) bs)"

section \<open>The checkpoint of a build\<close>

text \<open>The workspace columns of \<open>builds\<close>, and the number of steps of its sequential layout.\<close>

record workspace_columns =
  bw_namespace :: "uuid option"
  bw_generation :: int
  bw_snapshot :: "json option"
  bw_closed :: bool
  bw_receipt :: "json option"
  bw_step_count :: int

definition empty_snapshot :: workspace_snapshot where
  "empty_snapshot = \<lparr>sn_version = 1, sn_entries = []\<rparr>"

text \<open>\<open>initialize\<close>, with the fresh namespace as an argument.\<close>

definition initialize :: "workspace_serde \<Rightarrow> uuid \<Rightarrow> workspace_columns \<Rightarrow> (workspace_columns, store_error) result" where
  "initialize ser fresh w =
     and_then (decoded (snapshot_to_value ser empty_snapshot)) (\<lambda>v.
     Ok (if bw_namespace w = None then w\<lparr>bw_namespace := Some fresh, bw_snapshot := Some v\<rparr> else w))"

definition decode_option :: "(json \<Rightarrow> ('a, string) result) \<Rightarrow> json option \<Rightarrow> ('a option, store_error) result" where
  "decode_option f v = (case v of None \<Rightarrow> Ok None | Some j \<Rightarrow> and_then (decoded (f j)) (\<lambda>w. Ok (Some w)))"

definition validate_checkpoint ::
  "workspace_externals \<Rightarrow> workspace_serde \<Rightarrow> int \<Rightarrow> workspace_snapshot option \<Rightarrow> json option \<Rightarrow> bool \<Rightarrow> int \<Rightarrow>
   (workspace_snapshot_receipt option, store_error) result" where
  "validate_checkpoint x ser generation snapshot receipt closed step_count =
     (if \<not> (1 \<le> step_count \<and> step_count \<le> 64) \<or> \<not> (0 \<le> generation \<and> generation \<le> step_count) then
        store_invalid ''workspace checkpoint generation exceeds the build layout''
      else and_then (decode_option (receipt_from_value ser) receipt) (\<lambda>receipt.
        and_then (case receipt of Some r \<Rightarrow> checked (validate_receipt r) | None \<Rightarrow> Ok ()) (\<lambda>_.
        if (generation = 0) \<noteq> (receipt = None) then
          store_invalid ''workspace generation and receipt presence disagree''
        else if closed then
          (if snapshot \<noteq> None then store_invalid ''closed workspace retained checkpoint bytes'' else Ok receipt)
        else and_then (ok_or (SequentialIntegrity ''open workspace missing snapshot'') snapshot) (\<lambda>snapshot.
          and_then (checked (snapshot_receipt x snapshot)) (\<lambda>actual.
          if generation = 0 then
            (if sn_entries snapshot \<noteq> [] then store_invalid ''initial workspace is not empty'' else Ok receipt)
          else if receipt \<noteq> Some actual then
            store_invalid ''workspace checkpoint differs from its durable receipt''
          else Ok receipt)))))"

definition workspace_grant_for ::
  "workspace_externals \<Rightarrow> workspace_serde \<Rightarrow> uuid \<Rightarrow> uuid \<Rightarrow> workspace_columns \<Rightarrow> (workspace_grant option, store_error) result" where
  "workspace_grant_for x ser org build w = (case bw_namespace w of
     None \<Rightarrow> Ok None
   | Some namespace \<Rightarrow>
       if bw_closed w then store_invalid ''closed workspace cannot be assigned''
       else and_then (ok_or (SequentialIntegrity ''missing workspace checkpoint'') (bw_snapshot w)) (\<lambda>v.
         and_then (decoded (snapshot_from_value ser v)) (\<lambda>snapshot.
         and_then (validate_checkpoint x ser (bw_generation w) (Some snapshot) (bw_receipt w) False (bw_step_count w)) (\<lambda>_.
         if bw_generation w < 0 then store_invalid ''out of range integral type conversion attempted''
         else and_then (checked (snapshot_digest x snapshot)) (\<lambda>digest.
           let grant = \<lparr>wg_version = 1, wg_organization_id = uuid_to_string x org,
             wg_build_id = uuid_to_string x build, wg_namespace_id = uuid_to_string x namespace,
             wg_generation = nat (bw_generation w), wg_digest = digest, wg_snapshot = snapshot\<rparr> in
           and_then (checked (validate_grant x grant)) (\<lambda>_. Ok (Some grant)))))))"

section \<open>Publishing a result\<close>

text \<open>The field \<open>workspace_transfer\<close> of a summary after \<open>normalize\<close>: identities and receipt, no bytes.\<close>

definition transfer_json ::
  "workspace_serde \<Rightarrow> workspace_transfer_result \<Rightarrow> workspace_snapshot_receipt option \<Rightarrow> json" where
  "transfer_json ser t receipt = J_object
     [(''version'', J_number (int (wt_version t))),
      (''organization_id'', J_string (wt_organization_id t)),
      (''build_id'', J_string (wt_build_id t)),
      (''namespace_id'', J_string (wt_namespace_id t)),
      (''generation'', J_number (int (wt_generation t))),
      (''input_digest'', json_digest (wt_input_digest t)),
      (''receipt'', json_option (receipt_json ser) receipt),
      (''error'', json_option J_string (wt_error t))]"

text \<open>\<open>summary[key] = value\<close> on an object.\<close>

definition json_set :: "json \<Rightarrow> string \<Rightarrow> json \<Rightarrow> json" where
  "json_set v k w = (case v of
     J_object fs \<Rightarrow> J_object (if k \<in> fst ` set fs then map (\<lambda>(j, u). if j = k then (j, w) else (j, u)) fs else fs @ [(k, w)])
   | _ \<Rightarrow> v)"

definition normalize ::
  "workspace_externals \<Rightarrow> workspace_serde \<Rightarrow> json \<Rightarrow> (json \<times> workspace_transfer_result option, store_error) result" where
  "normalize x ser summary = (case json_get summary ''workspace_transfer'' of
     None \<Rightarrow> Ok (summary, None)
   | Some v \<Rightarrow>
       and_then (decoded (transfer_from_value ser v)) (\<lambda>transfer.
       and_then (checked (validate_transfer x transfer)) (\<lambda>_.
       and_then (case wt_snapshot transfer of
           None \<Rightarrow> Ok None
         | Some snapshot \<Rightarrow> and_then (checked (snapshot_receipt x snapshot)) (\<lambda>r. Ok (Some r))) (\<lambda>receipt.
       Ok (json_set summary ''workspace_transfer'' (transfer_json ser transfer receipt), Some transfer)))))"

definition commit_workspace ::
  "workspace_externals \<Rightarrow> workspace_serde \<Rightarrow> uuid \<Rightarrow> uuid \<Rightarrow> workspace_columns \<Rightarrow>
   workspace_transfer_result option \<Rightarrow> terminal_outcome \<Rightarrow> (workspace_columns, store_error) result" where
  "commit_workspace x ser org build w transfer out = (case bw_namespace w of
     None \<Rightarrow> if transfer \<noteq> None then store_invalid ''workspace transfer supplied for legacy build'' else Ok w
   | Some namespace \<Rightarrow>
       and_then (workspace_grant_for x ser org build w) (\<lambda>grant.
       and_then (ok_or (SequentialIntegrity ''missing workspace ownership'') grant) (\<lambda>current.
       case transfer of
         None \<Rightarrow>
           if out = Out_Succeeded then store_invalid ''successful workspace attempt omitted transfer'' else Ok w
       | Some t \<Rightarrow>
           if wt_organization_id t \<noteq> uuid_to_string x org \<or> wt_build_id t \<noteq> uuid_to_string x build \<or>
              wt_namespace_id t \<noteq> uuid_to_string x namespace \<or>
              wt_generation t \<noteq> wg_generation current \<or> wt_input_digest t \<noteq> wg_digest current then
             store_invalid ''workspace ownership or checkpoint generation mismatch''
           else (case wt_snapshot t of
             Some snapshot \<Rightarrow>
               and_then (checked (snapshot_receipt x snapshot)) (\<lambda>receipt.
               and_then (decoded (snapshot_to_value ser snapshot)) (\<lambda>sv.
               and_then (decoded (receipt_to_value ser receipt)) (\<lambda>rv.
               Ok (w\<lparr>bw_generation := bw_generation w + 1, bw_snapshot := Some sv, bw_receipt := Some rv\<rparr>))))
           | None \<Rightarrow>
               if out = Out_Succeeded then store_invalid ''successful workspace attempt reported capture failure''
               else Ok w))))"

section \<open>The audit\<close>

record workspace_history =
  wh_build_id :: uuid
  wh_columns :: workspace_columns
  wh_attempts :: "(string \<times> json option) list"

text \<open>The transfer an attempt's summary names, itself or in the summary it substituted.\<close>

definition summary_transfer :: "json option \<Rightarrow> json option" where
  "summary_transfer summary = Option.bind summary (\<lambda>s.
     case json_get s ''workspace_transfer'' of
       Some v \<Rightarrow> Some v
     | None \<Rightarrow> Option.bind (json_get s ''requested_summary'') (\<lambda>v. json_get v ''workspace_transfer''))"

type_synonym chain = "nat \<times> byte list \<times> workspace_snapshot_receipt option"

definition chain_step ::
  "workspace_externals \<Rightarrow> workspace_serde \<Rightarrow> uuid \<Rightarrow> uuid \<Rightarrow> uuid \<Rightarrow> chain \<Rightarrow> string \<times> json option \<Rightarrow>
   (chain, store_error) result" where
  "chain_step x ser org build namespace c a = (case (c, a) of ((generation, digest, latest), (status, summary)) \<Rightarrow>
     (case summary_transfer summary of
        None \<Rightarrow>
          if status = ''succeeded'' then store_invalid ''successful workspace result missing checkpoint receipt''
          else Ok (generation, digest, latest)
      | Some v \<Rightarrow>
          and_then (decoded (terminal_from_value ser v)) (\<lambda>t.
          if tr_version t \<noteq> 1 \<or> tr_organization_id t \<noteq> uuid_to_string x org \<or>
             tr_build_id t \<noteq> uuid_to_string x build \<or> tr_namespace_id t \<noteq> uuid_to_string x namespace \<or>
             tr_generation t \<noteq> generation \<or> tr_input_digest t \<noteq> digest \<or>
             status \<notin> {''succeeded'', ''failed'', ''aborted''} then
            store_invalid ''workspace terminal receipt ownership or checkpoint chain differs''
          else (case (tr_receipt t, tr_error t) of
            (Some receipt, None) \<Rightarrow>
              and_then (checked (validate_receipt receipt)) (\<lambda>_. Ok (generation + 1, sr_digest receipt, Some receipt))
          | (None, Some error) \<Rightarrow>
              if error \<noteq> [] \<and> length error \<le> 1024 \<and> status \<noteq> ''succeeded'' then Ok (generation, digest, latest)
              else store_invalid ''workspace terminal receipt has contradictory capture outcome''
          | _ \<Rightarrow> store_invalid ''workspace terminal receipt has contradictory capture outcome''))))"

definition validate_history ::
  "workspace_externals \<Rightarrow> workspace_serde \<Rightarrow> uuid \<Rightarrow> workspace_history \<Rightarrow> (unit, store_error) result" where
  "validate_history x ser org h = (case bw_namespace (wh_columns h) of
     None \<Rightarrow> Ok ()
   | Some namespace \<Rightarrow>
       and_then (checked (snapshot_digest x empty_snapshot)) (\<lambda>digest.
       and_then (try_fold (chain_step x ser org (wh_build_id h) namespace) (0, digest, None) (wh_attempts h))
         (\<lambda>(generation, digest, latest).
       and_then (decode_option (receipt_from_value ser) (bw_receipt (wh_columns h))) (\<lambda>stored.
       if generation \<ge> 2 ^ 63 then store_invalid ''out of range integral type conversion attempted''
       else if int generation \<noteq> bw_generation (wh_columns h) \<or> latest \<noteq> stored then
         store_invalid ''workspace build receipt differs from terminal checkpoint history''
       else Ok ()))))"

text \<open>
  What a terminal publication stores: the normalized summary, or, for a cancelled attempt, the
  abort that keeps the requested outcome and summary as evidence.
\<close>

definition cancellation_summary :: "terminal_outcome \<Rightarrow> json \<Rightarrow> json" where
  "cancellation_summary out summary = J_object
     [(''reason'', J_string ''cancelled_before_terminal_publication''),
      (''requested_outcome'', J_string (outcome_str out)),
      (''requested_summary'', summary)]"

definition published :: "bool \<Rightarrow> terminal_outcome \<Rightarrow> json \<Rightarrow> terminal_outcome \<times> json" where
  "published aborts out summary = (if aborts then (Out_Aborted, cancellation_summary out summary) else (out, summary))"

end
