(* ===== verification/Controller_Tables.thy ===== *)
theory Controller_Tables
  imports Workspace_Chain
begin

text \<open>
  The tables of one organization in the controller's database, \<open>controller-store/migrations\<close>, and
  the statements its transactions are made of. Every query names the organization, so its column is
  left out. A transaction holds the organization's scheduler lock and runs alone; it reads the clock
  once, an argument of the operations, as are the identifiers it draws. Rows are the elements of a
  list, an \<open>UPDATE\<close> changes the rows its condition selects.
\<close>

section \<open>Rows\<close>

type_synonym instant = int

datatype status =
    St_Blocked | St_Queued | St_Offered | St_Accepted | St_Running | St_Finalizing | St_Cancelling
  | St_Succeeded | St_Failed | St_Aborted | St_Skipped | St_ReconciliationRequired

definition outcome_status :: "terminal_outcome \<Rightarrow> status" where
  "outcome_status out = (case out of Out_Succeeded \<Rightarrow> St_Succeeded | Out_Failed \<Rightarrow> St_Failed | Out_Aborted \<Rightarrow> St_Aborted)"

definition node_done :: "status \<Rightarrow> bool" where
  "node_done st \<longleftrightarrow> st \<in> {St_Succeeded, St_Failed, St_Aborted, St_Skipped}"

definition published_status :: "status \<Rightarrow> bool" where
  "published_status st \<longleftrightarrow> st \<in> {St_Succeeded, St_Failed, St_Aborted}"

definition leased_status :: "status \<Rightarrow> bool" where
  "leased_status st \<longleftrightarrow> st \<in> {St_Offered, St_Accepted, St_Running, St_Finalizing, St_Cancelling}"

record build_row =
  b_id :: uuid
  b_project_id :: uuid
  b_pipeline_id :: "uuid option"
  b_pipeline_revision :: "int option"
  b_generation :: "int option"
  b_revision_digest :: "byte list option"
  b_idempotency_key :: string
  b_pipeline_digest :: "byte list"
  b_status :: status
  b_priority :: int
  b_dag_mode :: bool
  b_dag_contract :: "json option"
  b_notify_targets :: json
  b_cancellation :: "instant option"
  b_created_at :: instant
  b_completed_at :: "instant option"
  b_workspace :: workspace_columns
  b_affinity_agent :: "string option"

record node_row =
  n_id :: uuid
  n_build_id :: uuid
  n_node_key :: string
  n_status :: status
  n_required_capabilities :: "string list"
  n_required_trust_pool :: string
  n_priority :: int
  n_execution_spec :: json
  n_kind :: dag_node_kind
  n_fail_fast :: bool
  n_max_attempts :: int
  n_logical_outcome :: "status option"
  n_cancellation :: "instant option"
  n_queued_at :: instant

record dependency_row =
  d_build_id :: uuid
  d_parent :: uuid
  d_child :: uuid
  d_condition :: dependency_condition

record attempt_row =
  a_id :: uuid
  a_node_id :: uuid
  a_ordinal :: int
  a_status :: status
  a_fence :: int
  a_lease_owner :: "string option"
  a_lease_expires_at :: "instant option"
  a_restore_epoch :: int
  a_retry_of :: "uuid option"
  a_terminal_summary :: "json option"
  a_created_at :: instant
  a_ready_at :: "instant option"
  a_completed_at :: "instant option"

datatype effect_class = Idempotent | Externally_Idempotent | Non_Idempotent

datatype effect_status = Eff_Prepared | Eff_Applied | Eff_Confirmed | Eff_Uncertain | Eff_Release_Pending | Eff_Abandoned

record effect_row =
  e_attempt_id :: uuid
  e_fence :: int
  e_effect_key :: string
  e_class :: effect_class
  e_status :: effect_status
  e_payload :: json
  e_outcome_receipt :: "json option"
  e_observation_receipt :: "json option"
  e_shadow_replay_receipt :: "json option"
  e_reconciliation_receipt :: "json option"
  e_updated_at :: instant

text \<open>
  A pipeline with its operational state: the current generation, and the states of the history.
\<close>

record pipeline_row =
  p_project_id :: uuid
  p_pipeline_id :: uuid
  p_current_revision :: int
  p_revision_digest :: "byte list"
  p_generation :: int
  p_states :: "(int \<times> string) list"

datatype delivery_state = Pending | Delivered | Abandoned

record delivery_row =
  dl_build_id :: uuid
  dl_target_index :: nat
  dl_kind :: string
  dl_mapping_id :: string
  dl_target :: json
  dl_build_status :: status
  dl_terminal_generation :: int
  dl_state :: delivery_state
  dl_attempts :: int
  dl_next_attempt_at :: instant
  dl_in_flight :: bool
  dl_reconciliation_attempts :: int
  dl_reconciliation_due_at :: "instant option"
  dl_reconciliation_claim :: "uuid option"
  dl_reconciliation_lease_until :: "instant option"
  dl_reconciliation_error :: "string option"
  dl_repost_required :: bool
  dl_last_error :: "string option"
  dl_delivered_at :: "instant option"

record session_row =
  s_agent_id :: string
  s_session_epoch :: int
  s_capabilities :: "string list"
  s_features :: "string list"
  s_trust_pool :: string
  s_updated_at :: instant

text \<open>An event of a build: the members of its JSON payload keep their types.\<close>

datatype event_field = F_uuid uuid | F_int int | F_text string | F_bool bool

record event_row =
  ev_build_id :: uuid
  ev_actor :: string
  ev_kind :: string
  ev_payload :: "(string \<times> event_field) list"

record store =
  st_builds :: "build_row list"
  st_nodes :: "node_row list"
  st_dependencies :: "dependency_row list"
  st_attempts :: "attempt_row list"
  st_effects :: "effect_row list"
  st_dead_letters :: "(uuid \<times> string) list"
  st_pipelines :: "pipeline_row list"
  st_deliveries :: "delivery_row list"
  st_sessions :: "session_row list"
  st_events :: "event_row list"
  st_restore_epoch :: int

text \<open>A transaction returns the tables it commits with its answer, or fails and changes nothing.\<close>

type_synonym 'r transaction = "store \<Rightarrow> (store \<times> 'r, store_error) result"

section \<open>Statements\<close>

definition update_rows :: "('r \<Rightarrow> bool) \<Rightarrow> ('r \<Rightarrow> 'r) \<Rightarrow> 'r list \<Rightarrow> 'r list" where
  "update_rows P f rows = map (\<lambda>r. if P r then f r else r) rows"

definition update_builds :: "(build_row \<Rightarrow> bool) \<Rightarrow> (build_row \<Rightarrow> build_row) \<Rightarrow> store \<Rightarrow> store" where
  "update_builds P f s = s\<lparr>st_builds := update_rows P f (st_builds s)\<rparr>"

definition update_attempts :: "(attempt_row \<Rightarrow> bool) \<Rightarrow> (attempt_row \<Rightarrow> attempt_row) \<Rightarrow> store \<Rightarrow> store" where
  "update_attempts P f s = s\<lparr>st_attempts := update_rows P f (st_attempts s)\<rparr>"

definition build_of :: "store \<Rightarrow> uuid \<Rightarrow> build_row option" where
  "build_of s b = find (\<lambda>r. b_id r = b) (st_builds s)"

definition node_of :: "store \<Rightarrow> uuid \<Rightarrow> node_row option" where
  "node_of s n = find (\<lambda>r. n_id r = n) (st_nodes s)"

definition attempt_of :: "store \<Rightarrow> uuid \<Rightarrow> attempt_row option" where
  "attempt_of s a = find (\<lambda>r. a_id r = a) (st_attempts s)"

text \<open>A join of attempts with their nodes: \<open>a.node_id = n.id AND \<dots>\<close>.\<close>

definition its_node :: "store \<Rightarrow> (node_row \<Rightarrow> bool) \<Rightarrow> attempt_row \<Rightarrow> bool" where
  "its_node s P a \<longleftrightarrow> list_ex (\<lambda>n. n_id n = a_node_id a \<and> P n) (st_nodes s)"

section \<open>Readiness of a node\<close>

text \<open>
  A dependency that still holds its child back. The sub-query on the dependencies and their parents
  occurs in the claim, in the retry, in the advance of a graph and in a trigger.
\<close>

definition dependency_open :: "dependency_row \<Rightarrow> node_row \<Rightarrow> bool" where
  "dependency_open d parent \<longleftrightarrow>
     (d_condition d = Dep_Succeeded \<and> n_status parent \<noteq> St_Succeeded) \<or>
     (d_condition d = Dep_Completed \<and> \<not> node_done (n_status parent))"

definition dependencies_ready :: "dependency_row list \<Rightarrow> node_row list \<Rightarrow> uuid \<Rightarrow> bool" where
  "dependencies_ready deps nodes child \<longleftrightarrow>
     \<not> list_ex (\<lambda>d. d_child d = child \<and> list_ex (\<lambda>p. n_id p = d_parent d \<and> dependency_open d p) nodes) deps"

text \<open>
  The trigger on \<open>UPDATE OF status\<close>: a node that turns queued or blocked is blocked while its
  dependencies are open, and the readiness of its latest queued attempt follows.
\<close>

definition latest_queued :: "attempt_row list \<Rightarrow> uuid \<Rightarrow> attempt_row \<Rightarrow> bool" where
  "latest_queued attempts node a \<longleftrightarrow> a_node_id a = node \<and> a_status a = St_Queued \<and>
     list_all (\<lambda>c. a_node_id c = node \<and> a_status c = St_Queued \<longrightarrow> a_ordinal c \<le> a_ordinal a) attempts"

definition set_readiness :: "uuid \<Rightarrow> (attempt_row \<Rightarrow> instant option) \<Rightarrow> attempt_row list \<Rightarrow> attempt_row list" where
  "set_readiness node f attempts =
     update_rows (latest_queued attempts node) (\<lambda>a. a\<lparr>a_ready_at := f a\<rparr>) attempts"

definition status_trigger ::
  "instant \<Rightarrow> dependency_row list \<Rightarrow> node_row list \<Rightarrow> node_row \<Rightarrow> node_row \<Rightarrow> attempt_row list \<Rightarrow>
   node_row \<times> attempt_row list" where
  "status_trigger now deps nodes old new attempts =
     (if n_status old = n_status new \<or> n_status new \<notin> {St_Queued, St_Blocked} then (new, attempts)
      else if n_status new = St_Blocked \<or> \<not> dependencies_ready deps nodes (n_id new) then
        (new\<lparr>n_status := St_Blocked, n_queued_at := n_queued_at old\<rparr>,
         set_readiness (n_id new) (\<lambda>_. None) attempts)
      else (new\<lparr>n_queued_at := now\<rparr>,
            set_readiness (n_id new) (\<lambda>a. Some (max (a_created_at a) now)) attempts))"

text \<open>
  An update of the node table, row by row: the condition is that of the statement's start, the
  trigger sees the rows already changed.
\<close>

fun node_loop ::
  "instant \<Rightarrow> dependency_row list \<Rightarrow> (node_row \<Rightarrow> bool) \<Rightarrow> (node_row \<Rightarrow> node_row) \<Rightarrow> node_row list \<Rightarrow>
   node_row list \<Rightarrow> attempt_row list \<Rightarrow> node_row list \<times> attempt_row list" where
  "node_loop now deps P f changed [] attempts = (changed, attempts)"
| "node_loop now deps P f changed (n # nodes) attempts =
     (let (n', attempts') =
        (if P n then status_trigger now deps (changed @ n # nodes) n (f n) attempts else (n, attempts))
      in node_loop now deps P f (changed @ [n']) nodes attempts')"

definition update_nodes :: "instant \<Rightarrow> (node_row \<Rightarrow> bool) \<Rightarrow> (node_row \<Rightarrow> node_row) \<Rightarrow> store \<Rightarrow> store" where
  "update_nodes now P f s =
     (let (nodes, attempts) = node_loop now (st_dependencies s) P f [] (st_nodes s) (st_attempts s)
      in s\<lparr>st_nodes := nodes, st_attempts := attempts\<rparr>)"

text \<open>The trigger on an inserted attempt: it is not ready while its node is blocked.\<close>

definition insert_attempt :: "attempt_row \<Rightarrow> store \<Rightarrow> store" where
  "insert_attempt a s =
     (let a' = (if a_status a = St_Queued \<and> its_node s (\<lambda>n. n_status n = St_Blocked) a
                then a\<lparr>a_ready_at := None\<rparr> else a)
      in s\<lparr>st_attempts := st_attempts s @ [a']\<rparr>)"

section \<open>Events\<close>

definition validate_audit_actor :: "string \<Rightarrow> (unit, store_error) result" where
  "validate_audit_actor actor =
     (if actor = [] \<or> length actor > 512 \<or> trim actor \<noteq> actor \<or> list_ex is_control (chars actor)
      then Err (InvalidAuditOperation ''audit actor subject must be non-empty, canonical, and bounded'')
      else Ok ())"

definition append_event_as ::
  "uuid \<Rightarrow> string \<Rightarrow> string \<Rightarrow> (string \<times> event_field) list \<Rightarrow> store \<Rightarrow> (store, store_error) result" where
  "append_event_as b actor kind payload s =
     and_then (validate_audit_actor actor) (\<lambda>_.
     Ok (s\<lparr>st_events := st_events s @
       [\<lparr>ev_build_id = b, ev_actor = actor, ev_kind = kind, ev_payload = payload\<rparr>]\<rparr>))"

definition append_event :: "uuid \<Rightarrow> string \<Rightarrow> (string \<times> event_field) list \<Rightarrow> store \<Rightarrow> (store, store_error) result" where
  "append_event b = append_event_as b ''system:controller''"

section \<open>Pipelines and sessions\<close>

definition lock_build_pipeline_truth ::
  "store \<Rightarrow> uuid \<Rightarrow> (uuid \<times> int \<times> int \<times> string, store_error) result" where
  "lock_build_pipeline_truth s b = (case build_of s b of
     None \<Rightarrow> Err (PipelineStateConflict ''build is missing its pipeline operational-state binding'')
   | Some r \<Rightarrow> (case (b_pipeline_id r, b_generation r) of
       (Some pipeline, Some admitted) \<Rightarrow>
         (case find (\<lambda>p. p_pipeline_id p = pipeline \<and> map_of (p_states p) (p_generation p) \<noteq> None) (st_pipelines s) of
            None \<Rightarrow> Err (PipelineStateConflict ''build pipeline operational-state truth is missing'')
          | Some p \<Rightarrow> Ok (pipeline, admitted, p_generation p, the (map_of (p_states p) (p_generation p))))
     | _ \<Rightarrow> Err (PipelineStateConflict ''build is missing its pipeline operational-state binding'')))"

definition show_int :: "int \<Rightarrow> string" where
  "show_int i = (if i < 0 then ''-'' @ show_nat (nat (- i)) else show_nat (nat i))"

definition lock_enabled_build_pipeline :: "store \<Rightarrow> uuid \<Rightarrow> (uuid \<times> int, store_error) result" where
  "lock_enabled_build_pipeline s b =
     and_then (lock_build_pipeline_truth s b) (\<lambda>(pipeline, admitted, current, state).
     if state = ''disabled'' then Err (PipelineDisabled pipeline current)
     else if state \<noteq> ''enabled'' then
       Err (InvalidPipelineState (''stored pipeline operational state '' @ [CHR 0x27] @ state @ [CHR 0x27] @ '' is invalid''))
     else if current \<noteq> admitted then
       Err (PipelineStateConflict (''build pipeline generation '' @ show_int admitted @
         '' is stale; current generation is '' @ show_int current))
     else Ok (pipeline, current))"

text \<open>
  The matches on its answer: whether the pipeline is enabled, a disabled or stale one being an
  answer and anything else an error.
\<close>

definition pipeline_enabled :: "store \<Rightarrow> uuid \<Rightarrow> (bool, store_error) result" where
  "pipeline_enabled s b = (case lock_enabled_build_pipeline s b of
     Ok _ \<Rightarrow> Ok True
   | Err (PipelineDisabled _ _) \<Rightarrow> Ok False
   | Err (PipelineStateConflict _) \<Rightarrow> Ok False
   | Err e \<Rightarrow> Err e)"

definition lock_agent_session :: "store \<Rightarrow> string \<Rightarrow> nat \<Rightarrow> (bool, store_error) result" where
  "lock_agent_session s agent epoch =
     (if epoch \<ge> 2 ^ 63 then Err InvalidAgentSession
      else Ok (map_option s_session_epoch (find (\<lambda>r. s_agent_id r = agent) (st_sessions s)) = Some (int epoch)))"

text \<open>\<open>if let Some(epoch) = session_epoch && !lock_agent_session\<close>: whether the session may proceed.\<close>

definition session_current :: "store \<Rightarrow> string \<Rightarrow> nat option \<Rightarrow> (bool, store_error) result" where
  "session_current s agent epoch = (case epoch of None \<Rightarrow> Ok True | Some e \<Rightarrow> lock_agent_session s agent e)"

end
