(* ===== verification/Dag_Advance.thy ===== *)
theory Dag_Advance
  imports Controller_Tables
begin

text \<open>
  The life of a dependency graph in the database, \<open>controller-store/src/dag.rs\<close>: its admission, the
  advance after an attempt has ended, fencing, cancellation, and the status of the build that
  follows from its nodes.
\<close>

section \<open>Admission\<close>

record dag_node_admission =
  na_node_id :: uuid
  na_attempt_id :: uuid

record dag_admission =
  da_build_id :: uuid
  da_nodes :: "dag_node_admission btree_map"
  da_created :: bool

definition display_dag_error :: "dag_error \<Rightarrow> store_error" where
  "display_dag_error e = (case e of
     DagContractError _ path message \<Rightarrow> InvalidDag (path @ '': '' @ message)
   | Contract_panic \<Rightarrow> Panicked)"

definition condition_str :: "dependency_condition \<Rightarrow> string" where
  "condition_str c = (case c of Dep_Succeeded \<Rightarrow> ''succeeded'' | Dep_Completed \<Rightarrow> ''completed'')"

definition kind_str :: "dag_node_kind \<Rightarrow> string" where
  "kind_str k = (case k of Work \<Rightarrow> ''work'' | Join \<Rightarrow> ''join'' | Post \<Rightarrow> ''post'')"

text \<open>The capabilities a node asks for, with that of its platform, sorted and without repetition.\<close>

definition node_capabilities :: "new_dag_node \<Rightarrow> string list" where
  "node_capabilities n =
     remdups_adj (sort (nn_required_capabilities n @ [platform_capability (nn_required_platform n)]))"

definition dependency_json :: "dag_dependency \<Rightarrow> json" where
  "dependency_json d = J_object
     [(''node_key'', J_string (dd_node_key d)), (''condition'', J_string (condition_str (dd_condition d)))]"

definition node_json :: "new_dag_node \<Rightarrow> json" where
  "node_json n = J_object
     [(''node_key'', J_string (nn_node_key n)),
      (''kind'', J_string (kind_str (nn_kind n))),
      (''dependencies'', J_array (map dependency_json
         (sort_key dd_node_key (sort_key (\<lambda>d. condition_str (dd_condition d)) (nn_dependencies n))))),
      (''required_capabilities'', J_array (map J_string (node_capabilities n))),
      (''required_platform'', J_string (nn_required_platform n)),
      (''required_trust_pool'', J_string (nn_required_trust_pool n)),
      (''priority'', J_number (nn_priority n)),
      (''execution_spec'', nn_execution_spec n),
      (''fail_fast'', J_bool (nn_fail_fast n)),
      (''max_attempts'', J_number (nn_max_attempts n))]"

definition normalized_dag_contract :: "new_dag_build \<Rightarrow> json" where
  "normalized_dag_contract b = J_object
     ([(''version'', J_number 1), (''priority'', J_number (nb_priority b)),
       (''nodes'', J_array (map node_json (sort_key nn_node_key (nb_nodes b))))] @
      (if some_and (\<lambda>vs. vs \<noteq> []) (json_as_array (nb_notify_targets b))
       then [(''notify_targets'', nb_notify_targets b)] else []))"

definition lock_enabled_pipeline_binding ::
  "store \<Rightarrow> uuid \<Rightarrow> uuid \<Rightarrow> int \<Rightarrow> int \<Rightarrow> (byte list, store_error) result" where
  "lock_enabled_pipeline_binding s project pipeline revision generation =
     (if revision \<le> 0 \<or> generation \<le> 0 then
        Err (InvalidPipelineState ''pipeline admission binding must use positive revision and generation'')
      else case find (\<lambda>p. p_project_id p = project \<and> p_pipeline_id p = pipeline \<and>
             map_of (p_states p) (p_generation p) \<noteq> None) (st_pipelines s) of
        None \<Rightarrow> Err (PipelineStateConflict ''pipeline admission binding does not identify a saved pipeline'')
      | Some p \<Rightarrow>
          let state = the (map_of (p_states p) (p_generation p)) in
          if state = ''disabled'' then Err (PipelineDisabled pipeline (p_generation p))
          else if state \<noteq> ''enabled'' then
            Err (InvalidPipelineState (''stored pipeline operational state '' @ [CHR 0x27] @ state @ [CHR 0x27] @ '' is invalid''))
          else if p_current_revision p \<noteq> revision \<or> p_generation p \<noteq> generation then
            Err (PipelineStateConflict (''pipeline admission binding is stale: current revision/generation is '' @
              show_int (p_current_revision p) @ ''/'' @ show_int (p_generation p)))
          else if length (p_revision_digest p) \<noteq> 32 then
            Err (PipelineStateConflict ''saved pipeline revision digest is not SHA-256 sized'')
          else Ok (p_revision_digest p))"

definition admissions_of :: "store \<Rightarrow> uuid \<Rightarrow> dag_node_admission btree_map" where
  "admissions_of s b = btree_insert_all []
     (concat (map (\<lambda>n. if n_build_id n = b
        then map (\<lambda>a. (n_node_key n, \<lparr>na_node_id = n_id n, na_attempt_id = a_id a\<rparr>))
          (filter (\<lambda>a. a_node_id a = n_id n \<and> a_ordinal a = 1) (st_attempts s))
        else []) (st_nodes s)))"

definition existing_dag_admission ::
  "store \<Rightarrow> new_dag_build \<Rightarrow> json \<Rightarrow> (dag_admission, store_error) result" where
  "existing_dag_admission s input contract =
     (case find (\<lambda>b. b_project_id b = nb_project_id input \<and> b_idempotency_key b = nb_idempotency_key input) (st_builds s) of
        None \<Rightarrow> Err RowNotFound
      | Some b \<Rightarrow>
          if b_pipeline_id b \<noteq> Some (nb_pipeline_id input) \<or> b_pipeline_revision b \<noteq> Some (nb_pipeline_revision input) \<or>
             b_generation b \<noteq> Some (nb_pipeline_operational_generation input) \<or> \<not> b_dag_mode b \<or>
             b_pipeline_digest b \<noteq> nb_pipeline_digest input \<or> b_dag_contract b \<noteq> Some contract \<or>
             (json_get contract ''sequential_layout'' \<noteq> None \<and> b_revision_digest b \<noteq> Some (nb_pipeline_digest input))
          then Err (IdempotencyConflict ''idempotency key already belongs to a different build contract'')
          else
            let nodes = admissions_of s (b_id b) in
            if length nodes \<noteq> length (nb_nodes input) \<or>
               list_ex (\<lambda>n. \<not> btree_contains nodes (nn_node_key n)) (nb_nodes input)
            then Err (IdempotencyConflict ''idempotent DAG exists with a different node contract'')
            else Ok \<lparr>da_build_id = b_id b, da_nodes = nodes, da_created = False\<rparr>)"

text \<open>The rows of a new build: its own, and a node with its first attempt for every node admitted.\<close>

definition no_workspace :: workspace_columns where
  "no_workspace = \<lparr>bw_namespace = None, bw_generation = 0, bw_snapshot = None, bw_closed = False,
     bw_receipt = None, bw_step_count = 0\<rparr>"

definition admitted_build :: "instant \<Rightarrow> uuid \<Rightarrow> new_dag_build \<Rightarrow> json \<Rightarrow> byte list \<Rightarrow> int \<Rightarrow> build_row" where
  "admitted_build now b input contract digest steps =
     \<lparr>b_id = b, b_project_id = nb_project_id input, b_pipeline_id = Some (nb_pipeline_id input),
      b_pipeline_revision = Some (nb_pipeline_revision input),
      b_generation = Some (nb_pipeline_operational_generation input),
      b_revision_digest = Some digest, b_idempotency_key = nb_idempotency_key input,
      b_pipeline_digest = nb_pipeline_digest input, b_status = St_Queued, b_priority = nb_priority input,
      b_dag_mode = True, b_dag_contract = Some contract, b_notify_targets = nb_notify_targets input,
      b_cancellation = None, b_created_at = now, b_completed_at = None,
      b_workspace = no_workspace\<lparr>bw_step_count := steps\<rparr>, b_affinity_agent = None\<rparr>"

definition admitted_node :: "instant \<Rightarrow> uuid \<Rightarrow> uuid \<Rightarrow> new_dag_node \<Rightarrow> node_row" where
  "admitted_node now b i n =
     \<lparr>n_id = i, n_build_id = b, n_node_key = nn_node_key n,
      n_status = (if nn_dependencies n = [] then St_Queued else St_Blocked),
      n_required_capabilities = node_capabilities n, n_required_trust_pool = nn_required_trust_pool n,
      n_priority = nn_priority n, n_execution_spec = nn_execution_spec n, n_kind = nn_kind n,
      n_fail_fast = nn_fail_fast n, n_max_attempts = nn_max_attempts n, n_logical_outcome = None,
      n_cancellation = None, n_queued_at = now\<rparr>"

definition queued_attempt :: "instant \<Rightarrow> uuid \<Rightarrow> uuid \<Rightarrow> int \<Rightarrow> uuid option \<Rightarrow> int \<Rightarrow> bool \<Rightarrow> attempt_row" where
  "queued_attempt now a n ordinal retry_of epoch ready =
     \<lparr>a_id = a, a_node_id = n, a_ordinal = ordinal, a_status = St_Queued, a_fence = 0, a_lease_owner = None,
      a_lease_expires_at = None, a_restore_epoch = epoch, a_retry_of = retry_of, a_terminal_summary = None,
      a_created_at = now, a_ready_at = (if ready then Some now else None), a_completed_at = None\<rparr>"

definition admit_node ::
  "instant \<Rightarrow> uuid \<Rightarrow> store \<times> dag_node_admission btree_map \<Rightarrow> (uuid \<times> uuid) \<times> new_dag_node \<Rightarrow>
   store \<times> dag_node_admission btree_map" where
  "admit_node now b sm idn = (case (sm, idn) of ((s, m), ((i, a), n)) \<Rightarrow>
     (insert_attempt (queued_attempt now a i 1 None 1 (nn_dependencies n = []))
        (s\<lparr>st_nodes := st_nodes s @ [admitted_node now b i n]\<rparr>),
      btree_insert m (nn_node_key n) \<lparr>na_node_id = i, na_attempt_id = a\<rparr>))"

definition admitted_id :: "dag_node_admission btree_map \<Rightarrow> string \<Rightarrow> (uuid, store_error) result" where
  "admitted_id m k = (case btree_get m k of Some v \<Rightarrow> Ok (na_node_id v) | None \<Rightarrow> Err Panicked)"

definition admit_dependencies ::
  "uuid \<Rightarrow> dag_node_admission btree_map \<Rightarrow> store \<Rightarrow> new_dag_node \<Rightarrow> (store, store_error) result" where
  "admit_dependencies b m s n =
     and_then (admitted_id m (nn_node_key n)) (\<lambda>child.
     try_fold (\<lambda>s d.
       and_then (admitted_id m (dd_node_key d)) (\<lambda>parent.
       Ok (s\<lparr>st_dependencies := st_dependencies s @
         [\<lparr>d_build_id = b, d_parent = parent, d_child = child, d_condition = dd_condition d\<rparr>]\<rparr>)))
       s (nn_dependencies n))"

text \<open>
  The identifiers drawn for the build and for its nodes and their attempts are arguments, as is the
  number of steps of the sequential layout of the contract.
\<close>

definition admit_dag_contract_transaction ::
  "contract_externals \<Rightarrow> instant \<Rightarrow> uuid \<Rightarrow> (uuid \<times> uuid) list \<Rightarrow> new_dag_build \<Rightarrow> json \<Rightarrow> bool \<Rightarrow> int \<Rightarrow>
   dag_admission transaction" where
  "admit_dag_contract_transaction x now b ids input contract sequential steps s =
     and_then (map_err display_dag_error (validate_dag_contract x input)) (\<lambda>_.
     if list_ex (\<lambda>r. b_project_id r = nb_project_id input \<and> b_idempotency_key r = nb_idempotency_key input) (st_builds s)
     then and_then (existing_dag_admission s input contract) (\<lambda>da. Ok (s, da))
     else
     and_then (lock_enabled_pipeline_binding s (nb_project_id input) (nb_pipeline_id input)
       (nb_pipeline_revision input) (nb_pipeline_operational_generation input)) (\<lambda>digest.
     if sequential \<and> digest \<noteq> nb_pipeline_digest input then
       Err (InvalidDag ''sequential semantic digest differs from the saved revision'')
     else
       let s = s\<lparr>st_builds := st_builds s @ [admitted_build now b input contract digest steps]\<rparr>;
           (s, nodes) = foldl (admit_node now b) (s, []) (zip ids (nb_nodes input)) in
       and_then (try_fold (admit_dependencies b nodes) s (nb_nodes input)) (\<lambda>s.
       and_then (append_event b ''dag.admitted''
         [(''build_id'', F_uuid b), (''nodes'', F_int (int (length nodes))),
          (''edges'', F_int (int (sum_list (map (\<lambda>n. length (nn_dependencies n)) (nb_nodes input)))))] s) (\<lambda>s.
       Ok (s, \<lparr>da_build_id = b, da_nodes = nodes, da_created = True\<rparr>)))))"

definition TRIGGER_DAG_IDEMPOTENCY_PREFIX :: string where
  "TRIGGER_DAG_IDEMPOTENCY_PREFIX = ''mcloving-trigger-v1-''"

definition admit_dag ::
  "contract_externals \<Rightarrow> instant \<Rightarrow> uuid \<Rightarrow> (uuid \<times> uuid) list \<Rightarrow> new_dag_build \<Rightarrow> dag_admission transaction" where
  "admit_dag x now b ids input s =
     (if starts_with TRIGGER_DAG_IDEMPOTENCY_PREFIX (nb_idempotency_key input) then
        Err (InvalidDag ''trigger DAG idempotency namespace is reserved'')
      else and_then (map_err display_dag_error (validate_dag_contract x input)) (\<lambda>_.
        admit_dag_contract_transaction x now b ids input (normalized_dag_contract input) False 0 s))"

section \<open>Terminal notifications\<close>

definition STALE_WRITE_QUIET_SECONDS :: int where "STALE_WRITE_QUIET_SECONDS = 30 + 5"

definition seconds :: "int \<Rightarrow> instant" where
  "seconds n = n * 1000000"

definition same_text :: "json \<Rightarrow> json \<Rightarrow> string \<Rightarrow> bool" where
  "same_text v w k \<longleftrightarrow> some_and (\<lambda>t. json_str w k = Some t) (json_str v k)"

text \<open>\<open>INSERT \<dots> ON CONFLICT (build_id, target_index) DO UPDATE\<close>.\<close>

definition record_delivery :: "instant \<Rightarrow> uuid \<Rightarrow> status \<Rightarrow> delivery_row list \<Rightarrow> nat \<times> json \<Rightarrow> delivery_row list" where
  "record_delivery now b st rows it = (case it of (i, target) \<Rightarrow>
     if list_ex (\<lambda>r. dl_build_id r = b \<and> dl_target_index r = i) rows then
       update_rows (\<lambda>r. dl_build_id r = b \<and> dl_target_index r = i)
         (\<lambda>r. r\<lparr>dl_build_status := st, dl_terminal_generation := dl_terminal_generation r + 1, dl_state := Pending,
            dl_attempts := 0,
            dl_next_attempt_at := (if dl_in_flight r then now + seconds STALE_WRITE_QUIET_SECONDS else now),
            dl_in_flight := False, dl_reconciliation_attempts := 0, dl_reconciliation_due_at := None,
            dl_reconciliation_claim := None, dl_reconciliation_lease_until := None, dl_reconciliation_error := None,
            dl_repost_required := False, dl_last_error := None, dl_delivered_at := None\<rparr>) rows
     else rows @
       [\<lparr>dl_build_id = b, dl_target_index = i,
         dl_kind = (case json_str target ''kind'' of Some t \<Rightarrow> t | None \<Rightarrow> []),
         dl_mapping_id = (case json_str target ''mapping_id'' of Some t \<Rightarrow> t | None \<Rightarrow> []),
         dl_target = target, dl_build_status = st, dl_terminal_generation = 1, dl_state = Pending, dl_attempts = 0,
         dl_next_attempt_at = now, dl_in_flight = False, dl_reconciliation_attempts = 0,
         dl_reconciliation_due_at = None, dl_reconciliation_claim = None, dl_reconciliation_lease_until = None,
         dl_reconciliation_error = None, dl_repost_required = False, dl_last_error = None, dl_delivered_at = None\<rparr>])"

text \<open>A commit status that an attempt of an older build holds in flight is posted later.\<close>

definition older_build :: "store \<Rightarrow> uuid \<Rightarrow> uuid \<Rightarrow> bool" where
  "older_build s other b = (case (build_of s other, build_of s b) of
     (Some r, Some t) \<Rightarrow> b_created_at r < b_created_at t \<or> (b_created_at r = b_created_at t \<and> b_id r < b_id t)
   | _ \<Rightarrow> False)"

definition held_in_flight :: "store \<Rightarrow> delivery_row \<Rightarrow> bool" where
  "held_in_flight s d = list_ex (\<lambda>r. dl_build_id r \<noteq> dl_build_id d \<and> dl_kind r = ''github_status'' \<and> dl_in_flight r \<and>
     list_all (same_text (dl_target r) (dl_target d)) [''repository'', ''commit'', ''context''] \<and>
     older_build s (dl_build_id r) (dl_build_id d)) (st_deliveries s)"

definition delay_held :: "instant \<Rightarrow> uuid \<Rightarrow> store \<Rightarrow> store" where
  "delay_held now b s = s\<lparr>st_deliveries :=
     update_rows (\<lambda>d. dl_build_id d = b \<and> dl_kind d = ''github_status'' \<and> held_in_flight s d)
       (\<lambda>d. d\<lparr>dl_next_attempt_at := now + seconds STALE_WRITE_QUIET_SECONDS\<rparr>) (st_deliveries s)\<rparr>"

definition status_text :: "status \<Rightarrow> string" where
  "status_text st = (case st of
     St_Blocked \<Rightarrow> ''blocked'' | St_Queued \<Rightarrow> ''queued'' | St_Offered \<Rightarrow> ''offered'' | St_Accepted \<Rightarrow> ''accepted''
   | St_Running \<Rightarrow> ''running'' | St_Finalizing \<Rightarrow> ''finalizing'' | St_Cancelling \<Rightarrow> ''cancelling''
   | St_Succeeded \<Rightarrow> ''succeeded'' | St_Failed \<Rightarrow> ''failed'' | St_Aborted \<Rightarrow> ''aborted'' | St_Skipped \<Rightarrow> ''skipped''
   | St_ReconciliationRequired \<Rightarrow> ''reconciliation_required'')"

definition targets_of :: "store \<Rightarrow> uuid \<Rightarrow> json list" where
  "targets_of s b = (case Option.bind (build_of s b) (\<lambda>r. json_as_array (b_notify_targets r)) of
     Some vs \<Rightarrow> vs | None \<Rightarrow> [])"

definition record_terminal_notifications :: "instant \<Rightarrow> uuid \<Rightarrow> status \<Rightarrow> store \<Rightarrow> (store, store_error) result" where
  "record_terminal_notifications now b st s =
     (let targets = targets_of s b;
          s = s\<lparr>st_deliveries := foldl (record_delivery now b st) (st_deliveries s) (enumerate 0 targets)\<rparr> in
      append_event b ''dag.build_terminal''
        [(''status'', F_text (status_text st)), (''notifications'', F_int (int (length targets)))]
        (delay_held now b s))"

section \<open>The status of a build\<close>

definition nodes_of :: "store \<Rightarrow> uuid \<Rightarrow> node_row list" where
  "nodes_of s b = filter (\<lambda>n. n_build_id n = b) (st_nodes s)"

definition count_nodes :: "store \<Rightarrow> uuid \<Rightarrow> (node_row \<Rightarrow> bool) \<Rightarrow> nat" where
  "count_nodes s b P = length (filter P (nodes_of s b))"

definition close_workspace :: "workspace_columns \<Rightarrow> workspace_columns" where
  "close_workspace w =
     w\<lparr>bw_snapshot := (if bw_namespace w \<noteq> None then None else bw_snapshot w),
       bw_closed := (bw_namespace w \<noteq> None \<or> bw_closed w)\<rparr>"

definition derive_build_outcome :: "instant \<Rightarrow> uuid \<Rightarrow> store \<Rightarrow> (store, store_error) result" where
  "derive_build_outcome now b s =
     (let pending = count_nodes s b (\<lambda>n. \<not> node_done (n_status n));
          failed = count_nodes s b (\<lambda>n. n_logical_outcome n = Some St_Failed);
          aborted = count_nodes s b (\<lambda>n. n_logical_outcome n = Some St_Aborted);
          active = count_nodes s b (\<lambda>n. n_status n \<in> {St_Offered, St_Running});
          reconciliation = count_nodes s b (\<lambda>n. n_status n = St_ReconciliationRequired);
          cancelled = list_ex (\<lambda>n. n_cancellation n \<noteq> None) (nodes_of s b) in
      if pending = 0 then
        (case build_of s b of
           None \<Rightarrow> Err RowNotFound
         | Some r \<Rightarrow>
             let st = (if failed > 0 then St_Failed
                       else if b_cancellation r \<noteq> None \<or> aborted > 0 then St_Aborted else St_Succeeded);
                 s = update_builds (\<lambda>r. b_id r = b) (\<lambda>r. r\<lparr>b_status := st, b_completed_at := Some now,
                   b_workspace := close_workspace (b_workspace r)\<rparr>) s in
             if \<not> published_status (b_status r) then record_terminal_notifications now b st s else Ok s)
      else
        let st = (if reconciliation > 0 then St_ReconciliationRequired
                  else if active > 0 \<or> cancelled then St_Running else St_Queued) in
        Ok (update_builds (\<lambda>r. b_id r = b) (\<lambda>r. r\<lparr>b_status := st, b_completed_at := None\<rparr>) s))"

section \<open>Advancing the graph\<close>

definition reason_json :: "string \<Rightarrow> json" where
  "reason_json reason = J_object [(''reason'', J_string reason)]"

definition abort_attempt :: "instant \<Rightarrow> json \<Rightarrow> attempt_row \<Rightarrow> attempt_row" where
  "abort_attempt now summary a =
     a\<lparr>a_status := St_Aborted, a_terminal_summary := Some summary, a_completed_at := Some now\<rparr>"

text \<open>A blocked node that a dependency will never release.\<close>

definition dependency_lost :: "store \<Rightarrow> uuid \<Rightarrow> bool" where
  "dependency_lost s child = list_ex (\<lambda>d. d_child d = child \<and> d_condition d = Dep_Succeeded \<and>
     list_ex (\<lambda>p. n_id p = d_parent d \<and> n_status p \<in> {St_Failed, St_Aborted, St_Skipped}) (st_nodes s)) (st_dependencies s)"

definition skippable :: "store \<Rightarrow> uuid \<Rightarrow> node_row \<Rightarrow> bool" where
  "skippable s b n \<longleftrightarrow> n_build_id n = b \<and> n_status n = St_Blocked \<and> n_kind n \<noteq> Post \<and> dependency_lost s (n_id n)"

definition skip_nodes :: "instant \<Rightarrow> uuid \<Rightarrow> store \<Rightarrow> store" where
  "skip_nodes now b s =
     (let s' = update_nodes now (skippable s b) (\<lambda>n. n\<lparr>n_status := St_Skipped, n_logical_outcome := Some St_Skipped\<rparr>) s in
      if list_ex (skippable s b) (st_nodes s) then
        update_attempts (\<lambda>a. a_status a = St_Queued \<and> its_node s' (\<lambda>n. n_build_id n = b \<and> n_status n = St_Skipped) a)
          (abort_attempt now (reason_json ''dependency_not_succeeded'')) s'
      else s')"

definition releasable :: "store \<Rightarrow> uuid \<Rightarrow> node_row \<Rightarrow> bool" where
  "releasable s b n \<longleftrightarrow> n_build_id n = b \<and> n_status n = St_Blocked \<and>
     dependencies_ready (st_dependencies s) (st_nodes s) (n_id n)"

definition ready_attempt :: "store \<Rightarrow> attempt_row \<Rightarrow> attempt_row" where
  "ready_attempt s a = a\<lparr>a_ready_at := map_option n_queued_at (node_of s (a_node_id a))\<rparr>"

definition release_nodes :: "instant \<Rightarrow> uuid \<Rightarrow> store \<Rightarrow> store" where
  "release_nodes now b s =
     (let s' = update_nodes now (releasable s b) (\<lambda>n. n\<lparr>n_status := St_Queued, n_queued_at := now\<rparr>) s in
      if list_ex (releasable s b) (st_nodes s) then
        update_attempts (\<lambda>a. a_status a = St_Queued \<and> a_ready_at a = None \<and>
            its_node s' (\<lambda>n. n_build_id n = b \<and> n_status n = St_Queued) a)
          (ready_attempt s') s'
      else s')"

definition blocked_count :: "store \<Rightarrow> uuid \<Rightarrow> nat" where
  "blocked_count s b = count_nodes s b (\<lambda>n. n_status n = St_Blocked)"

lemma update_rows_append [simp]: "update_rows P f (xs @ ys) = update_rows P f xs @ update_rows P f ys"
  by (simp add: update_rows_def)

lemma update_rows_simps [simp]:
  "update_rows P f [] = []"
  "update_rows P f (x # xs) = (if P x then f x else x) # update_rows P f xs"
  by (simp_all add: update_rows_def)

text \<open>An update to any status but queued and blocked leaves the trigger idle.\<close>

lemma node_loop_idle:
  "(\<And>n. n \<in> set nodes \<Longrightarrow> P n \<Longrightarrow> n_status (f n) \<in> {St_Queued, St_Blocked} \<Longrightarrow> n_status (f n) = n_status n) \<Longrightarrow>
   node_loop now deps P f changed nodes as = (changed @ update_rows P f nodes, as)"
proof (induction nodes arbitrary: changed)
  case (Cons n nodes)
  have "(if P n then status_trigger now deps (changed @ n # nodes) n (f n) as else (n, as)) =
      (if P n then f n else n, as)"
    using Cons.prems [of n] by (auto simp: status_trigger_def)
  then show ?case using Cons.IH [of "changed @ [if P n then f n else n]"] Cons.prems by simp
qed simp

lemma update_nodes_idle:
  "(\<And>n. P n \<Longrightarrow> n_status (f n) \<in> {St_Queued, St_Blocked} \<Longrightarrow> n_status (f n) = n_status n) \<Longrightarrow>
   update_nodes now P f s = s\<lparr>st_nodes := update_rows P f (st_nodes s)\<rparr>"
  unfolding update_nodes_def by (subst node_loop_idle) auto

lemma update_nodes_other [simp]:
  "(\<And>n. n_status (f n) \<notin> {St_Queued, St_Blocked}) \<Longrightarrow>
   update_nodes now P f s = s\<lparr>st_nodes := update_rows P f (st_nodes s)\<rparr>"
  by (rule update_nodes_idle) simp

text \<open>A blocked row holds every child back, so the nodes a statement releases do not depend on each other.\<close>

definition forget_ready :: "attempt_row list \<Rightarrow> attempt_row list" where
  "forget_ready as = map (\<lambda>a. a\<lparr>a_ready_at := None\<rparr>) as"

lemma forget_set_readiness [simp]: "forget_ready (set_readiness n f as) = forget_ready as"
  by (simp add: forget_ready_def set_readiness_def update_rows_def)

lemma dependencies_ready_update:
  assumes "dependencies_ready deps (xs @ ys) c"
    and "\<And>n. n \<in> set xs \<Longrightarrow> P n \<Longrightarrow> n_status n = St_Blocked" and "\<And>n. n_id (f n) = n_id n"
  shows "dependencies_ready deps (update_rows P f xs @ ys) c"
proof -
  have "dependency_open d n" if "n_status n = St_Blocked" for d n
    using that by (cases "d_condition d") (simp_all add: dependency_open_def node_done_def)
  with assms show ?thesis
    by (fastforce simp: dependencies_ready_def list_ex_iff update_rows_def)
qed

lemma node_loop_release:
  fixes now :: instant
  defines "f \<equiv> (\<lambda>n. n\<lparr>n_status := St_Queued, n_queued_at := now\<rparr>)"
  assumes "\<And>n. n \<in> set (xs @ nodes) \<Longrightarrow> P n \<Longrightarrow> n_status n = St_Blocked \<and> dependencies_ready deps (xs @ nodes) (n_id n)"
  shows "\<exists>as'. node_loop now deps P f (update_rows P f xs) nodes as = (update_rows P f (xs @ nodes), as') \<and>
    forget_ready as' = forget_ready as"
  using assms(2)
proof (induction nodes arbitrary: xs as)
  case (Cons n nodes)
  define t where "t = (if P n then status_trigger now deps (update_rows P f xs @ n # nodes) n (f n) as else (n, as))"
  have ready: "dependencies_ready deps (update_rows P f xs @ n # nodes) (n_id n)" if "P n"
    by (rule dependencies_ready_update) (use Cons.prems that in \<open>auto simp: f_def\<close>)
  have t: "fst t = (if P n then f n else n)" "forget_ready (snd t) = forget_ready as"
    using Cons.prems [of n] ready by (auto simp: t_def status_trigger_def f_def)
  have "node_loop now deps P f (update_rows P f xs) (n # nodes) as =
      node_loop now deps P f (update_rows P f (xs @ [n])) nodes (snd t)"
    by (simp add: t(1) [symmetric] split_beta flip: t_def)
  with Cons.IH [of "xs @ [n]" "snd t"] Cons.prems t(2) show ?case by auto
qed (auto simp: f_def)

lemma update_nodes_release:
  assumes "\<And>n. n \<in> set (st_nodes s) \<Longrightarrow> P n \<Longrightarrow>
    n_status n = St_Blocked \<and> dependencies_ready (st_dependencies s) (st_nodes s) (n_id n)"
  obtains as where "update_nodes now P (\<lambda>n. n\<lparr>n_status := St_Queued, n_queued_at := now\<rparr>) s =
      s\<lparr>st_nodes := update_rows P (\<lambda>n. n\<lparr>n_status := St_Queued, n_queued_at := now\<rparr>) (st_nodes s), st_attempts := as\<rparr>"
    "forget_ready as = forget_ready (st_attempts s)"
  using node_loop_release [of "[]" "st_nodes s" P "st_dependencies s" now "st_attempts s"] assms
  by (auto simp: update_nodes_def)

lemma nodes_skip: "st_nodes (skip_nodes now b s) =
    update_rows (skippable s b) (\<lambda>n. n\<lparr>n_status := St_Skipped, n_logical_outcome := Some St_Skipped\<rparr>) (st_nodes s)"
  by (simp add: skip_nodes_def Let_def update_attempts_def)

lemma nodes_release: "st_nodes (release_nodes now b s) =
    update_rows (releasable s b) (\<lambda>n. n\<lparr>n_status := St_Queued, n_queued_at := now\<rparr>) (st_nodes s)"
proof -
  obtain as where "update_nodes now (releasable s b) (\<lambda>n. n\<lparr>n_status := St_Queued, n_queued_at := now\<rparr>) s =
      s\<lparr>st_nodes := update_rows (releasable s b) (\<lambda>n. n\<lparr>n_status := St_Queued, n_queued_at := now\<rparr>) (st_nodes s), st_attempts := as\<rparr>"
    by (rule update_nodes_release [of s "releasable s b"]) (auto simp: releasable_def)
  then show ?thesis by (simp add: release_nodes_def Let_def update_attempts_def)
qed

lemma blocked_update:
  assumes "\<And>n. P n \<Longrightarrow> n_build_id n = b \<and> n_status n = St_Blocked"
    and "\<And>n. n_status (f n) \<noteq> St_Blocked" and "\<And>n. n_build_id (f n) = n_build_id n"
  shows "length (filter (\<lambda>n. n_build_id n = b \<and> n_status n = St_Blocked) (update_rows P f ns)) + length (filter P ns) =
    length (filter (\<lambda>n. n_build_id n = b \<and> n_status n = St_Blocked) ns)"
  using assms by (induction ns) auto

lemma blocked_count_alt: "blocked_count s b =
    length (filter (\<lambda>n. n_build_id n = b \<and> n_status n = St_Blocked) (st_nodes s))"
  by (simp add: blocked_count_def count_nodes_def nodes_of_def)

lemma blocked_skip: "blocked_count (skip_nodes now b s) b + length (filter (skippable s b) (st_nodes s)) = blocked_count s b"
  unfolding blocked_count_alt nodes_skip by (rule blocked_update) (auto simp: skippable_def)

lemma blocked_release:
  "blocked_count (release_nodes now b s) b + length (filter (releasable s b) (st_nodes s)) = blocked_count s b"
  unfolding blocked_count_alt nodes_release by (rule blocked_update) (auto simp: releasable_def)

function advance_blocked_nodes :: "instant \<Rightarrow> uuid \<Rightarrow> store \<Rightarrow> store" where
  "advance_blocked_nodes now b s =
     (let s1 = skip_nodes now b s; s2 = release_nodes now b s1 in
      if \<not> list_ex (skippable s b) (st_nodes s) \<and> \<not> list_ex (releasable s1 b) (st_nodes s1) then s2
      else advance_blocked_nodes now b s2)"
  by pat_completeness auto
termination
proof (relation "measure (\<lambda>(_, b, s). blocked_count s b)", goal_cases)
  case (2 now b s s1 s2)
  have "filter (skippable s b) (st_nodes s) \<noteq> [] \<or> filter (releasable s1 b) (st_nodes s1) \<noteq> []"
    using 2(3) by (auto simp: list_ex_iff filter_empty_conv)
  with blocked_skip [of now b s] blocked_release [of now b s1] show ?case
    by (auto simp: 2(1, 2) simp flip: length_greater_0_conv)
qed simp

declare advance_blocked_nodes.simps [simp del]

lemma update_rows_none: "list_all (\<lambda>r. \<not> P r) rows \<Longrightarrow> update_rows P f rows = rows"
  by (induction rows) (auto simp: update_rows_def)

lemma update_nodes_none:
  assumes "list_all (\<lambda>n. \<not> P n) (st_nodes s)"
  shows "update_nodes now P f s = s"
proof -
  have "node_loop now (st_dependencies s) P f [] (st_nodes s) (st_attempts s) = ([] @ update_rows P f (st_nodes s), st_attempts s)"
    by (rule node_loop_idle) (use assms in \<open>auto simp: list_all_iff\<close>)
  then show ?thesis using assms by (simp add: update_nodes_def update_rows_none)
qed

lemma advance_none_blocked:
  assumes "list_all (\<lambda>n. n_status n \<noteq> St_Blocked) (st_nodes s)"
  shows "advance_blocked_nodes now b s = s"
proof -
  have none: "list_all (\<lambda>n. \<not> skippable t b n) (st_nodes s)" "list_all (\<lambda>n. \<not> releasable t b n) (st_nodes s)" for t
    using assms by (auto simp: list_all_iff skippable_def releasable_def)
  have "skip_nodes now b s = s"
    using none(1) [of s] by (auto simp: skip_nodes_def Let_def update_rows_none list_all_iff list_ex_iff)
  moreover have "release_nodes now b s = s"
    using none(2) [of s] by (auto simp: release_nodes_def Let_def update_nodes_none list_all_iff list_ex_iff)
  ultimately show ?thesis using none by (subst advance_blocked_nodes.simps) (auto simp: Let_def list_all_iff list_ex_iff)
qed

section \<open>After an attempt\<close>

text \<open>\<open>mark_unstarted_skipped\<close>, with \<open>exclude_post\<close>.\<close>

definition unstarted :: "uuid \<Rightarrow> bool \<Rightarrow> node_row \<Rightarrow> bool" where
  "unstarted b exclude_post n \<longleftrightarrow> n_build_id n = b \<and> n_status n \<in> {St_Blocked, St_Queued} \<and>
     (\<not> exclude_post \<or> n_kind n \<noteq> Post)"

definition mark_unstarted_skipped :: "instant \<Rightarrow> uuid \<Rightarrow> bool \<Rightarrow> store \<Rightarrow> store" where
  "mark_unstarted_skipped now b exclude_post s =
     update_nodes now (\<lambda>n. unstarted b exclude_post n \<and> n_logical_outcome n = None)
       (\<lambda>n. n\<lparr>n_status := St_Skipped, n_logical_outcome := Some St_Skipped\<rparr>)
       (update_attempts (\<lambda>a. a_status a = St_Queued \<and> its_node s (unstarted b exclude_post) a)
         (abort_attempt now (reason_json ''fail_fast_skipped'')) s)"

text \<open>The other nodes of the build that an agent works on are asked to stop.\<close>

definition request_stop :: "instant \<Rightarrow> (node_row \<Rightarrow> bool) \<Rightarrow> status set \<Rightarrow> store \<Rightarrow> store" where
  "request_stop now P attempt_statuses s =
     (let s = s\<lparr>st_nodes := update_rows P (\<lambda>n. n\<lparr>n_cancellation := Some now\<rparr>) (st_nodes s)\<rparr> in
      update_attempts (\<lambda>a. a_status a \<in> attempt_statuses \<and> its_node s P a) (\<lambda>a. a\<lparr>a_status := St_Cancelling\<rparr>) s)"

definition fence_unstarted_dag_work :: "instant \<Rightarrow> uuid \<Rightarrow> uuid \<Rightarrow> store \<Rightarrow> store" where
  "fence_unstarted_dag_work now b completed s =
     (let other = (\<lambda>n. n_build_id n = b \<and> n_id n \<noteq> completed);
          s = update_attempts (\<lambda>a. a_status a \<in> {St_Queued, St_Offered} \<and> its_node s other a)
            (\<lambda>a. (abort_attempt now (reason_json ''pipeline_operational_generation_fenced'') a)\<lparr>a_lease_expires_at := None\<rparr>) s;
          s = update_nodes now (\<lambda>n. other n \<and> n_status n \<in> {St_Blocked, St_Queued, St_Offered} \<and> n_logical_outcome n = None)
            (\<lambda>n. n\<lparr>n_status := St_Aborted, n_logical_outcome := Some St_Aborted\<rparr>) s in
      request_stop now (\<lambda>n. other n \<and> n_status n = St_Running) {St_Accepted, St_Running, St_Finalizing} s)"

definition cancel_dag_build :: "instant \<Rightarrow> uuid \<Rightarrow> bool transaction" where
  "cancel_dag_build now b s =
     (let open_build = (\<lambda>r. b_id r = b \<and> b_dag_mode r \<and> b_status r \<in> {St_Queued, St_Running} \<and> b_cancellation r = None) in
      if \<not> list_ex open_build (st_builds s) then Ok (s, False)
      else
        let s = update_builds open_build (\<lambda>r. r\<lparr>b_cancellation := Some now\<rparr>) s;
            waiting = unstarted b False;
            s = update_attempts (\<lambda>a. a_status a = St_Queued \<and> its_node s waiting a)
              (abort_attempt now (reason_json ''dag_cancelled_before_execution'')) s;
            s = update_nodes now (\<lambda>n. waiting n \<and> n_logical_outcome n = None)
              (\<lambda>n. n\<lparr>n_status := St_Aborted, n_logical_outcome := Some St_Aborted\<rparr>) s;
            s = request_stop now (\<lambda>n. n_build_id n = b \<and> n_status n \<in> {St_Offered, St_Running})
              {St_Offered, St_Accepted, St_Running, St_Finalizing} s in
        and_then (derive_build_outcome now b s) (\<lambda>s. Ok (s, True)))"

text \<open>The retry of a failed attempt: a new attempt, and its node queued or blocked again.\<close>

definition retry_node ::
  "instant \<Rightarrow> uuid \<Rightarrow> uuid \<Rightarrow> uuid \<Rightarrow> int \<Rightarrow> store \<Rightarrow> store" where
  "retry_node now retry node attempt ordinal s =
     (let s = insert_attempt (queued_attempt now retry node ordinal (Some attempt) 1
            (dependencies_ready (st_dependencies s) (st_nodes s) node)) s;
          ready = (a_ready_at (last (st_attempts s)) \<noteq> None) in
      update_nodes now (\<lambda>n. n_id n = node \<and> n_logical_outcome n = None)
        (\<lambda>n. n\<lparr>n_status := (if ready then St_Queued else St_Blocked), n_cancellation := None,
               n_queued_at := (if ready then now else n_queued_at n)\<rparr>) s)"

definition non_idempotent_effect :: "store \<Rightarrow> uuid \<Rightarrow> bool" where
  "non_idempotent_effect s a = list_ex (\<lambda>e. e_attempt_id e = a \<and> e_class e = Non_Idempotent \<and> e_status e \<noteq> Eff_Abandoned) (st_effects s)"

definition stop_siblings :: "instant \<Rightarrow> uuid \<Rightarrow> uuid \<Rightarrow> store \<Rightarrow> store" where
  "stop_siblings now b node s =
     mark_unstarted_skipped now b True
       (request_stop now (\<lambda>n. n_build_id n = b \<and> n_id n \<noteq> node \<and> n_status n \<in> {St_Offered, St_Running})
         {St_Offered, St_Accepted, St_Running, St_Finalizing} s)"

definition advance_dag_after_attempt ::
  "instant \<Rightarrow> uuid \<Rightarrow> uuid \<Rightarrow> uuid \<Rightarrow> uuid \<Rightarrow> terminal_outcome \<Rightarrow> bool transaction" where
  "advance_dag_after_attempt now retry b node attempt out s =
     (case (build_of s b, node_of s node, attempt_of s attempt) of
        (Some r, Some n, Some a) \<Rightarrow>
          if n_build_id n \<noteq> b \<or> a_node_id a \<noteq> node then Err RowNotFound
          else if \<not> b_dag_mode r then Ok (s, False)
          else and_then (pipeline_enabled s b) (\<lambda>enabled.
            let cancelled = (b_cancellation r \<noteq> None \<or> n_cancellation n \<noteq> None);
                key = (''node_key'', F_text (n_node_key n)) in
            if enabled \<and> out = Out_Failed \<and> a_ordinal a < n_max_attempts n \<and> \<not> cancelled \<and>
               \<not> non_idempotent_effect s attempt then
              and_then (append_event b ''dag.node_retry_scheduled''
                [(''node_id'', F_uuid node), key, (''attempt_id'', F_uuid retry), (''ordinal'', F_int (a_ordinal a + 1)),
                 (''max_attempts'', F_int (n_max_attempts n))]
                (retry_node now retry node attempt (a_ordinal a + 1) s)) (\<lambda>s.
              and_then (derive_build_outcome now b s) (\<lambda>s. Ok (s, True)))
            else if n_logical_outcome n \<noteq> None then Ok (s, True)
            else
              let s = update_nodes now (\<lambda>n. n_id n = node \<and> n_logical_outcome n = None)
                (\<lambda>n. n\<lparr>n_status := outcome_status out, n_logical_outcome := Some (outcome_status out), n_cancellation := None\<rparr>) s;
                  fields = [(''node_id'', F_uuid node), key, (''attempt_id'', F_uuid attempt), (''outcome'', F_text (outcome_str out))] in
              if \<not> enabled then
                and_then (derive_build_outcome now b (fence_unstarted_dag_work now b node s)) (\<lambda>s.
                and_then (append_event b ''dag.pipeline_generation_fenced'' fields s) (\<lambda>s. Ok (s, True)))
              else
                let s = (if out = Out_Failed \<and> n_fail_fast n then stop_siblings now b node s else s) in
                and_then (derive_build_outcome now b (advance_blocked_nodes now b s)) (\<lambda>s.
                and_then (append_event b ''dag.node_terminal'' (fields @ [(''fail_fast'', F_bool (n_fail_fast n))]) s) (\<lambda>s.
                Ok (s, True))))
      | _ \<Rightarrow> Err RowNotFound)"

end
