(* ===== verification/Scheduler.thy ===== *)
theory Scheduler
  imports Dag_Advance
begin

text \<open>
  The leases of attempts, \<open>controller-store/src/scheduler.rs\<close> and the publication of results in
  \<open>lib.rs\<close>: an agent claims an attempt under a new fence, accepts it, renews its lease and publishes
  an outcome; an expired lease is taken back. Every request names the fence, the restore epoch and
  the agent, and answers without effect unless they are the attempt's.
\<close>

section \<open>Claims\<close>

record claim_request =
  cr_scheduler_id :: string
  cr_agent_id :: string
  cr_capabilities :: "string list"
  cr_trust_pool :: string
  cr_lease_seconds :: int
  cr_fairness_seed :: int

record claimed_attempt =
  ca_build_id :: uuid
  ca_node_id :: uuid
  ca_attempt_id :: uuid
  ca_fence :: int
  ca_restore_epoch :: int
  ca_agent_id :: string

definition WORKSPACE_AFFINITY_CAPABILITY :: string where
  "WORKSPACE_AFFINITY_CAPABILITY = ''workspace-affinity-v1''"

definition WORKSPACE_AFFINITY_FEATURE :: string where
  "WORKSPACE_AFFINITY_FEATURE = ''build-workspace-affinity-v1''"

definition work_nodes :: "store \<Rightarrow> uuid \<Rightarrow> node_row list" where
  "work_nodes s b = filter (\<lambda>n. n_kind n = Work) (nodes_of s b)"

definition wants_affinity :: "node_row \<Rightarrow> bool" where
  "wants_affinity n \<longleftrightarrow> WORKSPACE_AFFINITY_CAPABILITY \<in> set (n_required_capabilities n)"

text \<open>A build whose stages share a workspace on one agent: several work nodes, all asking for it.\<close>

definition affinity_build :: "store \<Rightarrow> build_row \<Rightarrow> bool" where
  "affinity_build s r \<longleftrightarrow> b_dag_mode r \<and> length (work_nodes s (b_id r)) > 1 \<and> list_all wants_affinity (work_nodes s (b_id r))"

definition covers :: "string list \<Rightarrow> node_row \<Rightarrow> bool" where
  "covers capabilities n \<longleftrightarrow> list_all (\<lambda>c. c \<in> set capabilities) (n_required_capabilities n)"

definition pipeline_open :: "store \<Rightarrow> build_row \<Rightarrow> bool" where
  "pipeline_open s r = list_ex (\<lambda>p. p_project_id p = b_project_id r \<and> Some (p_pipeline_id p) = b_pipeline_id r \<and>
     Some (p_generation p) = b_generation r \<and> map_of (p_states p) (p_generation p) = Some ''enabled'') (st_pipelines s)"

definition pin_allows :: "claim_request \<Rightarrow> build_row \<Rightarrow> node_row \<Rightarrow> bool" where
  "pin_allows req r n \<longleftrightarrow> b_affinity_agent r = None \<or> b_affinity_agent r = Some (cr_agent_id req) \<or> n_kind n \<noteq> Work"

definition may_start_affinity :: "store \<Rightarrow> claim_request \<Rightarrow> build_row \<Rightarrow> node_row \<Rightarrow> bool" where
  "may_start_affinity s req r n \<longleftrightarrow>
     b_affinity_agent r \<noteq> None \<or> bw_namespace (b_workspace r) \<noteq> None \<or> n_kind n \<noteq> Work \<or> \<not> wants_affinity n \<or>
     \<not> affinity_build s r \<or>
     (list_all (covers (cr_capabilities req)) (work_nodes s (b_id r)) \<and>
      \<not> list_ex (\<lambda>w. wants_affinity w \<and> n_required_trust_pool w \<noteq> cr_trust_pool req) (work_nodes s (b_id r)))"

definition single_flight :: "store \<Rightarrow> build_row \<Rightarrow> node_row \<Rightarrow> bool" where
  "single_flight s r n \<longleftrightarrow> bw_namespace (b_workspace r) \<noteq> None \<or> \<not> affinity_build s r \<or>
     \<not> list_ex (\<lambda>w. n_id w \<noteq> n_id n \<and> n_status w \<in> {St_Offered, St_Running}) (work_nodes s (b_id r))"

definition claimable :: "store \<Rightarrow> claim_request \<Rightarrow> build_row \<Rightarrow> node_row \<Rightarrow> attempt_row \<Rightarrow> bool" where
  "claimable s req r n a \<longleftrightarrow>
     b_id r = n_build_id n \<and> a_node_id a = n_id n \<and> a_status a = St_Queued \<and> pipeline_open s r \<and>
     n_status n = St_Queued \<and> (b_status r = St_Queued \<or> (b_dag_mode r \<and> b_status r = St_Running)) \<and>
     b_cancellation r = None \<and> n_cancellation n = None \<and>
     covers (cr_capabilities req) n \<and> n_required_trust_pool n = cr_trust_pool req \<and>
     pin_allows req r n \<and> may_start_affinity s req r n \<and> single_flight s r n \<and>
     dependencies_ready (filter (\<lambda>d. d_build_id d = n_build_id n) (st_dependencies s))
       (nodes_of s (n_build_id n)) (n_id n)"

definition candidates :: "store \<Rightarrow> claim_request \<Rightarrow> (build_row \<times> node_row \<times> attempt_row) list" where
  "candidates s req =
     filter (\<lambda>(r, n, a). claimable s req r n a)
       (List.product (st_builds s) (List.product (st_nodes s) (st_attempts s)))"

text \<open>\<open>ORDER BY priority DESC, queued_at, hashtextextended(id, seed), id LIMIT 1\<close>, last key first.\<close>

definition first_candidate ::
  "(uuid \<Rightarrow> int \<Rightarrow> int) \<Rightarrow> store \<Rightarrow> claim_request \<Rightarrow> (build_row \<times> node_row \<times> attempt_row) option" where
  "first_candidate hash s req =
     (case sort_key (\<lambda>(r, n, a). - n_priority n)
        (sort_key (\<lambda>(r, n, a). n_queued_at n)
          (sort_key (\<lambda>(r, n, a). hash (n_id n) (cr_fairness_seed req))
            (sort_key (\<lambda>(r, n, a). n_id n) (candidates s req)))) of
      [] \<Rightarrow> None | c # _ \<Rightarrow> Some c)"

text \<open>
  The builds pinned to an agent that has no live session able to run their queued stages fail.
\<close>

definition session_serves :: "instant \<Rightarrow> store \<Rightarrow> string \<Rightarrow> node_row \<Rightarrow> bool" where
  "session_serves now s agent n = list_ex (\<lambda>r. s_agent_id r = agent \<and>
     WORKSPACE_AFFINITY_CAPABILITY \<in> set (s_capabilities r) \<and> WORKSPACE_AFFINITY_FEATURE \<in> set (s_features r) \<and>
     n_required_trust_pool n = s_trust_pool r \<and> covers (s_capabilities r) n \<and>
     s_updated_at r > now - seconds 300) (st_sessions s)"

definition queued_work :: "node_row \<Rightarrow> bool" where
  "queued_work n \<longleftrightarrow> n_status n = St_Queued \<and> n_kind n = Work \<and> wants_affinity n"

definition orphaned :: "instant \<Rightarrow> store \<Rightarrow> build_row \<Rightarrow> bool" where
  "orphaned now s r = (case b_affinity_agent r of
     None \<Rightarrow> False
   | Some agent \<Rightarrow> b_dag_mode r \<and> b_status r \<in> {St_Queued, St_Running} \<and> bw_namespace (b_workspace r) = None \<and>
       b_cancellation r = None \<and>
       list_ex (\<lambda>n. queued_work n \<and> n_cancellation n = None \<and>
         list_ex (\<lambda>a. a_node_id a = n_id n \<and> a_status a = St_Queued) (st_attempts s)) (nodes_of s (b_id r)) \<and>
       list_ex (\<lambda>n. queued_work n \<and> \<not> session_serves now s agent n) (nodes_of s (b_id r)))"

definition fail_orphaned :: "instant \<Rightarrow> store \<Rightarrow> build_row \<Rightarrow> (store, store_error) result" where
  "fail_orphaned now s r =
     (let b = b_id r; agent = the (b_affinity_agent r); reason = ''workspace_affinity_agent_gone'';
          waiting = (\<lambda>n. n_build_id n = b \<and> n_status n \<in> {St_Blocked, St_Queued, St_Offered});
          s = update_attempts (\<lambda>a. a_status a \<in> {St_Queued, St_Offered} \<and> its_node s waiting a)
            (\<lambda>a. (abort_attempt now (J_object [(''reason'', J_string reason), (''agent_id'', J_string agent)]) a)
               \<lparr>a_lease_expires_at := None\<rparr>) s;
          s = update_nodes now (\<lambda>n. waiting n \<and> n_logical_outcome n = None)
            (\<lambda>n. n\<lparr>n_status := St_Aborted, n_logical_outcome := Some St_Aborted\<rparr>) s;
          s = update_builds (\<lambda>r. b_id r = b \<and> b_status r \<in> {St_Queued, St_Running})
            (\<lambda>r. r\<lparr>b_status := St_Failed, b_completed_at := Some now\<rparr>) s in
      and_then (append_event b ''build.workspace_affinity_agent_gone''
        [(''reason'', F_text reason), (''agent_id'', F_text agent)] s)
        (record_terminal_notifications now b St_Failed))"

definition fail_orphaned_affinity_builds :: "instant \<Rightarrow> store \<Rightarrow> (store, store_error) result" where
  "fail_orphaned_affinity_builds now s = try_fold (fail_orphaned now) s (filter (orphaned now s) (st_builds s))"

definition offer :: "instant \<Rightarrow> claim_request \<Rightarrow> build_row \<Rightarrow> node_row \<Rightarrow> attempt_row \<Rightarrow> claimed_attempt option transaction" where
  "offer now req r n a s =
     (let fence = a_fence a + 1; epoch = st_restore_epoch s;
          s = update_attempts (\<lambda>t. a_id t = a_id a)
            (\<lambda>t. t\<lparr>a_status := St_Offered, a_fence := a_fence t + 1, a_lease_owner := Some (cr_agent_id req),
                   a_lease_expires_at := Some (now + seconds (cr_lease_seconds req)), a_restore_epoch := epoch\<rparr>) s;
          s = update_nodes now (\<lambda>t. n_id t = n_id n) (\<lambda>t. t\<lparr>n_status := St_Offered\<rparr>) s;
          s = update_builds (\<lambda>t. b_id t = b_id r \<and> b_status t = St_Queued) (\<lambda>t. t\<lparr>b_status := St_Running\<rparr>) s in
      and_then (append_event (b_id r) ''attempt.offered''
        [(''attempt_id'', F_uuid (a_id a)), (''node_id'', F_uuid (n_id n)), (''agent_id'', F_text (cr_agent_id req)),
         (''trust_pool'', F_text (cr_trust_pool req)), (''scheduler_id'', F_text (cr_scheduler_id req)),
         (''fence'', F_int fence), (''restore_epoch'', F_int epoch)] s) (\<lambda>s.
      Ok (s, Some \<lparr>ca_build_id = b_id r, ca_node_id = n_id n, ca_attempt_id = a_id a, ca_fence = fence,
        ca_restore_epoch = epoch, ca_agent_id = cr_agent_id req\<rparr>)))"

definition claim_next ::
  "(uuid \<Rightarrow> int \<Rightarrow> int) \<Rightarrow> instant \<Rightarrow> claim_request \<Rightarrow> nat option \<Rightarrow> claimed_attempt option transaction" where
  "claim_next hash now req session s =
     (if cr_lease_seconds req \<le> 0 \<or> trim (cr_trust_pool req) = [] then Ok (s, None)
      else and_then (session_current s (cr_agent_id req) session) (\<lambda>current.
        if \<not> current then Ok (s, None)
        else and_then (if session = None then Ok s else fail_orphaned_affinity_builds now s) (\<lambda>t.
          case first_candidate hash t req of
            None \<Rightarrow> Ok (s, None)
          | Some (r, n, a) \<Rightarrow>
              and_then (pipeline_enabled t (b_id r)) (\<lambda>enabled.
              if \<not> enabled then Ok (s, None) else offer now req r n a t))))"

section \<open>Requests under a lease\<close>

text \<open>The fence, the restore epoch and the agent a request names.\<close>

record lease_claim =
  lc_attempt_id :: uuid
  lc_fence :: int
  lc_restore_epoch :: int
  lc_agent_id :: string

definition holds_lease :: "store \<Rightarrow> lease_claim \<Rightarrow> attempt_row \<Rightarrow> bool" where
  "holds_lease s c a \<longleftrightarrow> a_id a = lc_attempt_id c \<and> a_fence a = lc_fence c \<and> a_restore_epoch a = lc_restore_epoch c \<and>
     a_restore_epoch a = st_restore_epoch s \<and> a_lease_owner a = Some (lc_agent_id c)"

definition lease_live :: "instant \<Rightarrow> attempt_row \<Rightarrow> bool" where
  "lease_live now a = some_and (\<lambda>t. t > now) (a_lease_expires_at a)"

text \<open>An attempt with its node and its build.\<close>

definition joined :: "store \<Rightarrow> (attempt_row \<Rightarrow> bool) \<Rightarrow> (attempt_row \<times> node_row \<times> build_row) option" where
  "joined s P = Option.bind (find P (st_attempts s)) (\<lambda>a.
     Option.bind (node_of s (a_node_id a)) (\<lambda>n.
     map_option (\<lambda>r. (a, n, r)) (build_of s (n_build_id n))))"

definition set_attempt :: "uuid \<Rightarrow> (attempt_row \<Rightarrow> attempt_row) \<Rightarrow> store \<Rightarrow> store" where
  "set_attempt i f = update_attempts (\<lambda>a. a_id a = i) f"

definition set_node :: "instant \<Rightarrow> uuid \<Rightarrow> status \<Rightarrow> store \<Rightarrow> store" where
  "set_node now i st = update_nodes now (\<lambda>n. n_id n = i) (\<lambda>n. n\<lparr>n_status := st\<rparr>)"

definition accept_offer :: "instant \<Rightarrow> lease_claim \<Rightarrow> nat option \<Rightarrow> bool option transaction" where
  "accept_offer now c session s =
     and_then (session_current s (lc_agent_id c) session) (\<lambda>current.
     if \<not> current then Ok (s, None)
     else case joined s (\<lambda>a. holds_lease s c a \<and> lease_live now a \<and>
         a_status a \<in> {St_Offered, St_Accepted, St_Running, St_Cancelling}) of
       None \<Rightarrow> Ok (s, None)
     | Some (a, n, r) \<Rightarrow>
         let cancellation = (b_cancellation r \<noteq> None \<or> n_cancellation n \<noteq> None \<or> a_status a = St_Cancelling) in
         and_then (pipeline_enabled s (b_id r)) (\<lambda>enabled.
         if \<not> enabled then Ok (s, None)
         else if a_status a \<noteq> St_Offered then Ok (s, Some cancellation)
         else and_then (append_event (b_id r) ''attempt.accepted''
           [(''attempt_id'', F_uuid (a_id a)), (''node_id'', F_uuid (n_id n)), (''agent_id'', F_text (lc_agent_id c)),
            (''fence'', F_int (lc_fence c)), (''restore_epoch'', F_int (lc_restore_epoch c))]
           (set_node now (n_id n) St_Running (set_attempt (a_id a) (\<lambda>a. a\<lparr>a_status := St_Accepted\<rparr>) s))) (\<lambda>s.
           Ok (s, Some cancellation))))"

definition mark_attempt_running :: "instant \<Rightarrow> lease_claim \<Rightarrow> nat option \<Rightarrow> bool transaction" where
  "mark_attempt_running now c session s =
     and_then (session_current s (lc_agent_id c) session) (\<lambda>current.
     if \<not> current then Ok (s, False)
     else case joined s (\<lambda>a. holds_lease s c a \<and> lease_live now a \<and> a_status a \<in> {St_Accepted, St_Running}) of
       None \<Rightarrow> Ok (s, False)
     | Some (a, n, r) \<Rightarrow>
         and_then (pipeline_enabled s (b_id r)) (\<lambda>enabled.
         if \<not> enabled then Ok (s, False)
         else if a_status a = St_Running then Ok (s, True)
         else and_then (append_event (b_id r) ''attempt.running''
           [(''attempt_id'', F_uuid (a_id a)), (''node_id'', F_uuid (n_id n)), (''fence'', F_int (lc_fence c)),
            (''restore_epoch'', F_int (lc_restore_epoch c))]
           (update_nodes now (\<lambda>t. n_id t = n_id n \<and> n_status t \<in> {St_Offered, St_Running}) (\<lambda>t. t\<lparr>n_status := St_Running\<rparr>)
             (set_attempt (a_id a) (\<lambda>a. a\<lparr>a_status := St_Running\<rparr>) s))) (\<lambda>s.
           Ok (s, True))))"

datatype lease_renewal_disposition = Renewed bool | TerminalNoOp | Rejected string

definition record_lease_renewal_rejection :: "lease_claim \<Rightarrow> string \<Rightarrow> store \<Rightarrow> (store, store_error) result" where
  "record_lease_renewal_rejection c cause s =
     (case Option.bind (find (\<lambda>a. a_id a = lc_attempt_id c \<and> a_fence a = lc_fence c \<and> a_lease_owner a = Some (lc_agent_id c) \<and>
         a_status a \<in> {St_Accepted, St_Running, St_Finalizing, St_Cancelling} \<and> a_restore_epoch a = st_restore_epoch s)
         (st_attempts s)) (\<lambda>a. node_of s (a_node_id a)) of
        None \<Rightarrow> Ok s
      | Some n \<Rightarrow> append_event (n_build_id n) ''attempt.lease_renewal_rejected''
          [(''attempt_id'', F_uuid (lc_attempt_id c)), (''fence'', F_int (lc_fence c)), (''agent_id'', F_text (lc_agent_id c)),
           (''cause'', F_text cause)] s)"

definition renewable :: "lease_claim \<Rightarrow> attempt_row \<Rightarrow> bool" where
  "renewable c a \<longleftrightarrow> a_id a = lc_attempt_id c \<and> a_fence a = lc_fence c \<and> a_restore_epoch a = lc_restore_epoch c \<and>
     a_lease_owner a = Some (lc_agent_id c) \<and> a_status a \<in> {St_Accepted, St_Running, St_Finalizing, St_Cancelling}"

definition renew_attempt_lease ::
  "instant \<Rightarrow> lease_claim \<Rightarrow> nat option \<Rightarrow> int \<Rightarrow> lease_renewal_disposition transaction" where
  "renew_attempt_lease now c session lease_seconds s =
     (if lease_seconds \<le> 0 then Ok (s, Rejected ''invalid_lease_window'')
      else and_then (session_current s (lc_agent_id c) session) (\<lambda>current.
        if \<not> current then
          and_then (record_lease_renewal_rejection c ''agent_session_stale'' s) (\<lambda>s.
          Ok (s, Rejected ''agent_session_stale''))
        else and_then (case Option.bind (find (renewable c) (st_attempts s)) (\<lambda>a. node_of s (a_node_id a)) of
            None \<Rightarrow> Ok True | Some n \<Rightarrow> pipeline_enabled s (n_build_id n)) (\<lambda>enabled.
        if \<not> enabled then Ok (s, Renewed True)
        else case joined s (\<lambda>a. renewable c a \<and> a_restore_epoch a = st_restore_epoch s \<and> lease_live now a) of
          Some (a, n, r) \<Rightarrow>
            Ok (set_attempt (a_id a) (\<lambda>a. a\<lparr>a_lease_expires_at := Some (now + seconds lease_seconds)\<rparr>) s,
                Renewed (b_cancellation r \<noteq> None \<or> n_cancellation n \<noteq> None))
        | None \<Rightarrow>
            if list_ex (\<lambda>a. holds_lease s c a \<and> published_status (a_status a)) (st_attempts s) then Ok (s, TerminalNoOp)
            else and_then (record_lease_renewal_rejection c ''lease_not_current'' s) (\<lambda>s.
              Ok (s, Rejected ''lease_not_current'')))))"

text \<open>An agent that comes back with a result takes its lease up again.\<close>

definition recover_agent_finalization ::
  "instant \<Rightarrow> lease_claim \<Rightarrow> nat option \<Rightarrow> string \<Rightarrow> int \<Rightarrow> bool transaction" where
  "recover_agent_finalization now c session local_phase lease_seconds s =
     (if local_phase \<notin> {''finalizing'', ''cancelling''} \<or> lease_seconds \<le> 0 then Ok (s, False)
      else and_then (session_current s (lc_agent_id c) session) (\<lambda>current.
        if \<not> current then Ok (s, False)
        else case find (holds_lease s c) (st_attempts s) of
          None \<Rightarrow> Ok (s, False)
        | Some a \<Rightarrow>
            if a_status a \<in> {St_Running, St_Finalizing, St_Cancelling} then
              Ok (set_attempt (a_id a) (\<lambda>a. a\<lparr>a_status := (if local_phase = ''finalizing'' then St_Finalizing else St_Cancelling),
                a_lease_expires_at := Some (now + seconds lease_seconds)\<rparr>) s, True)
            else Ok (s, published_status (a_status a))))"

section \<open>Expired leases\<close>

definition CONTROLLER_EFFECT_SCHEMA :: string where
  "CONTROLLER_EFFECT_SCHEMA = ''mcloving.controller-effect-prepared/v1''"

definition runtime_effect :: "effect_row \<Rightarrow> bool" where
  "runtime_effect e \<longleftrightarrow> json_str (e_payload e) ''schema_version'' = Some CONTROLLER_EFFECT_SCHEMA"

definition effects_of :: "store \<Rightarrow> uuid \<Rightarrow> int \<Rightarrow> effect_row list" where
  "effects_of s a fence = filter (\<lambda>e. e_attempt_id e = a \<and> e_fence e = fence) (st_effects s)"

definition uncertain_effects :: "store \<Rightarrow> uuid \<Rightarrow> int \<Rightarrow> nat" where
  "uncertain_effects s a fence =
     length (filter (\<lambda>e. e_status e \<in> {Eff_Uncertain, Eff_Release_Pending}) (effects_of s a fence))"

definition protected_effect :: "effect_row \<Rightarrow> bool" where
  "protected_effect e \<longleftrightarrow> (e_class e = Non_Idempotent \<or> runtime_effect e) \<and> e_status e \<noteq> Eff_Abandoned"

definition make_uncertain :: "instant \<Rightarrow> uuid \<Rightarrow> int \<Rightarrow> store \<Rightarrow> store" where
  "make_uncertain now a fence s = s\<lparr>st_effects :=
     update_rows (\<lambda>e. e_attempt_id e = a \<and> e_fence e = fence \<and> (e_class e = Non_Idempotent \<or> runtime_effect e) \<and>
         e_status e \<in> {Eff_Prepared, Eff_Applied})
       (\<lambda>e. e\<lparr>e_status := Eff_Uncertain, e_updated_at := now\<rparr>) (st_effects s)\<rparr>"

text \<open>A shell of a contained sequential build may have run once \<open>attempt.running\<close> was recorded.\<close>

definition sequential_process_uncertain :: "store \<Rightarrow> build_row \<Rightarrow> attempt_row \<Rightarrow> bool" where
  "sequential_process_uncertain s r a \<longleftrightarrow> b_dag_mode r \<and>
     some_and (\<lambda>v. json_get v ''sequential_layout'' \<noteq> None) (b_dag_contract r) \<and>
     list_ex (\<lambda>e. ev_build_id e = b_id r \<and> ev_kind e = ''attempt.running'' \<and>
       map_of (ev_payload e) ''attempt_id'' = Some (F_uuid (a_id a)) \<and>
       map_of (ev_payload e) ''fence'' = Some (F_int (a_fence a))) (st_events s)"

definition expired :: "instant \<Rightarrow> attempt_row \<Rightarrow> bool" where
  "expired now a \<longleftrightarrow> leased_status (a_status a) \<and> some_and (\<lambda>t. t \<le> now) (a_lease_expires_at a)"

definition first_expired :: "instant \<Rightarrow> store \<Rightarrow> (attempt_row \<times> node_row \<times> build_row) option" where
  "first_expired now s =
     (case sort_key (\<lambda>(a, _). the (a_lease_expires_at a)) (sort_key (\<lambda>(a, _). a_id a)
        (concat (map (\<lambda>a. case joined s (\<lambda>t. t = a) of Some j \<Rightarrow> [j] | None \<Rightarrow> [])
          (filter (expired now) (st_attempts s))))) of
      [] \<Rightarrow> None | j # _ \<Rightarrow> Some j)"

text \<open>The end of an attempt outside a graph: its node and its build share the outcome.\<close>

definition close_single :: "instant \<Rightarrow> uuid \<Rightarrow> uuid \<Rightarrow> terminal_outcome \<Rightarrow> store \<Rightarrow> store" where
  "close_single now b node out s =
     update_builds (\<lambda>r. b_id r = b) (\<lambda>r. r\<lparr>b_status := outcome_status out, b_completed_at := Some now\<rparr>)
       (set_node now node (outcome_status out) s)"

definition settle ::
  "instant \<Rightarrow> uuid \<Rightarrow> uuid \<Rightarrow> uuid \<Rightarrow> uuid \<Rightarrow> terminal_outcome \<Rightarrow> store \<Rightarrow> (store, store_error) result" where
  "settle now retry b node attempt out s =
     and_then (advance_dag_after_attempt now retry b node attempt out s) (\<lambda>(s, dag).
     Ok (if dag then s else close_single now b node out s))"

definition require_reconciliation :: "instant \<Rightarrow> uuid \<Rightarrow> uuid \<Rightarrow> store \<Rightarrow> store" where
  "require_reconciliation now b node s =
     update_builds (\<lambda>r. b_id r = b) (\<lambda>r. r\<lparr>b_status := St_ReconciliationRequired, b_completed_at := None\<rparr>)
       (set_node now node St_ReconciliationRequired s)"

definition requeue_one_expired :: "instant \<Rightarrow> uuid \<Rightarrow> bool transaction" where
  "requeue_one_expired now retry s = (case first_expired now s of
     None \<Rightarrow> Ok (s, False)
   | Some (a, n, r) \<Rightarrow>
       and_then (pipeline_enabled s (b_id r)) (\<lambda>enabled.
       let cancellation = (n_cancellation n \<noteq> None \<or> b_cancellation r \<noteq> None);
           protected = filter protected_effect (effects_of s (a_id a) (a_fence a));
           uncertain = length (filter (\<lambda>e. e_status e \<noteq> Eff_Confirmed) protected);
           reconcile = (protected \<noteq> [] \<or> sequential_process_uncertain s r a);
           s = make_uncertain now (a_id a) (a_fence a) s;
           fields = [(''attempt_id'', F_uuid (a_id a)), (''node_id'', F_uuid (n_id n)), (''fence'', F_int (a_fence a))] in
       if (cancellation \<or> \<not> enabled) \<and> \<not> reconcile then
         and_then (settle now retry (b_id r) (n_id n) (a_id a) Out_Aborted
           (set_attempt (a_id a) (\<lambda>a. (abort_attempt now (reason_json (if enabled then ''cancellation_lease_expired''
              else ''pipeline_operational_generation_fenced'')) a)\<lparr>a_lease_expires_at := None\<rparr>) s)) (\<lambda>s.
         and_then (append_event (b_id r)
           (if enabled then ''attempt.cancellation_lease_expired'' else ''attempt.pipeline_generation_fenced'') fields s) (\<lambda>s.
         Ok (s, True)))
       else
         let st = (if reconcile then St_ReconciliationRequired else St_Queued);
             s = set_attempt (a_id a) (\<lambda>a. a\<lparr>a_status := st, a_lease_owner := None, a_lease_expires_at := None\<rparr>) s;
             s = (if reconcile then require_reconciliation now (b_id r) (n_id n) s
                  else update_builds (\<lambda>t. b_id t = b_id r \<and> b_status t = St_Running \<and> b_cancellation t = None)
                    (\<lambda>t. t\<lparr>b_status := St_Queued\<rparr>) (set_node now (n_id n) St_Queued s)) in
         and_then (append_event (b_id r)
           (if reconcile then ''attempt.lease_expired_reconciliation_required'' else ''attempt.lease_expired'')
           (fields @ [(''uncertain_effects'', F_int (int uncertain)),
              (''confirmed_effects'', F_int (int (length protected - uncertain)))]) s) (\<lambda>s.
         Ok (s, True))))"

section \<open>Publication\<close>

text \<open>A successful affinity stage pins its build to the agent, or must agree with the pin.\<close>

definition record_successful_agent :: "uuid \<Rightarrow> string \<Rightarrow> uuid \<Rightarrow> store \<Rightarrow> (store, store_error) result" where
  "record_successful_agent b agent node s =
     (if \<not> list_ex (\<lambda>n. n_id n = node \<and> n_kind n = Work \<and> wants_affinity n) (nodes_of s b) then Ok s
      else
        let pins = (\<lambda>r. b_id r = b \<and> bw_namespace (b_workspace r) = None \<and>
              (b_affinity_agent r = None \<or> b_affinity_agent r = Some agent) \<and> affinity_build s r) in
        if list_ex pins (st_builds s) then
          Ok (update_builds pins (\<lambda>r. r\<lparr>b_affinity_agent := (case b_affinity_agent r of None \<Rightarrow> Some agent | v \<Rightarrow> v)\<rparr>) s)
        else (case Option.bind (build_of s b) b_affinity_agent of
          Some pinned \<Rightarrow> if pinned \<noteq> agent then
            store_invalid (''workspace affinity agent mismatch: pinned '' @ pinned @ '', got '' @ agent) else Ok s
        | None \<Rightarrow> Ok s))"

text \<open>A summary that a cancellation replaced: the stored abort names what was asked for.\<close>

definition substituted :: "terminal_outcome \<Rightarrow> json \<Rightarrow> attempt_row \<Rightarrow> bool" where
  "substituted out summary a \<longleftrightarrow> a_status a = St_Aborted \<and>
     some_and (\<lambda>v. json_str v ''reason'' = Some ''cancelled_before_terminal_publication'' \<and>
       json_str v ''requested_outcome'' = Some (outcome_str out) \<and>
       json_get v ''requested_summary'' = Some summary) (a_terminal_summary a)"

definition incomplete_effect :: "terminal_outcome \<Rightarrow> effect_row \<Rightarrow> bool" where
  "incomplete_effect out e \<longleftrightarrow> runtime_effect e \<and>
     ((e_status e = Eff_Abandoned \<and> out = Out_Succeeded) \<or>
      (e_status e \<noteq> Eff_Abandoned \<and>
        (e_status e \<noteq> Eff_Confirmed \<or> e_outcome_receipt e = None \<or> e_observation_receipt e = None \<or>
         e_shadow_replay_receipt e = None \<or>
         (some_and (\<lambda>v. json_str v ''status'' = Some ''ambiguous'') (e_outcome_receipt e) \<and> e_reconciliation_receipt e = None))))"

definition publish_terminal ::
  "workspace_externals \<Rightarrow> workspace_serde \<Rightarrow> uuid \<Rightarrow> instant \<Rightarrow> uuid \<Rightarrow> lease_claim \<Rightarrow> attempt_row \<Rightarrow> node_row \<Rightarrow> build_row \<Rightarrow>
   workspace_transfer_result option \<Rightarrow> terminal_outcome \<Rightarrow> json \<Rightarrow> terminal_outcome option transaction" where
  "publish_terminal x ser org now retry c a n r transfer out summary s =
     and_then (commit_workspace x ser org (b_id r) (b_workspace r) transfer out) (\<lambda>w.
     let s = update_builds (\<lambda>t. b_id t = b_id r) (\<lambda>t. t\<lparr>b_workspace := w\<rparr>) s;
         s = set_attempt (a_id a) (\<lambda>a. a\<lparr>a_status := outcome_status out, a_terminal_summary := Some summary,
           a_completed_at := Some now, a_lease_expires_at := None\<rparr>) s in
     and_then (if out = Out_Succeeded then record_successful_agent (b_id r) (lc_agent_id c) (n_id n) s else Ok s) (\<lambda>s.
     and_then (settle now retry (b_id r) (n_id n) (a_id a) out s) (\<lambda>s.
     and_then (append_event (b_id r) ''attempt.terminal''
       [(''attempt_id'', F_uuid (a_id a)), (''fence'', F_int (lc_fence c)), (''restore_epoch'', F_int (lc_restore_epoch c)),
        (''outcome'', F_text (outcome_str out))] s) (\<lambda>s.
     Ok (s, Some out)))))"

definition park_uncertain ::
  "instant \<Rightarrow> lease_claim \<Rightarrow> attempt_row \<Rightarrow> node_row \<Rightarrow> build_row \<Rightarrow> terminal_outcome \<Rightarrow> nat \<Rightarrow> terminal_outcome option transaction" where
  "park_uncertain now c a n r out uncertain s =
     and_then (append_event (b_id r) ''attempt.terminal_reconciliation_required''
       [(''attempt_id'', F_uuid (a_id a)), (''node_id'', F_uuid (n_id n)), (''fence'', F_int (lc_fence c)),
        (''restore_epoch'', F_int (lc_restore_epoch c)), (''agent_id'', F_text (lc_agent_id c)),
        (''attempted_outcome'', F_text (outcome_str out)), (''uncertain_effects'', F_int (int uncertain))]
       (require_reconciliation now (b_id r) (n_id n) (set_attempt (a_id a)
         (\<lambda>a. a\<lparr>a_status := St_ReconciliationRequired, a_lease_owner := None, a_lease_expires_at := None\<rparr>) s))) (\<lambda>s.
     Ok (s, None))"

definition may_publish :: "instant \<Rightarrow> lease_claim \<Rightarrow> store \<Rightarrow> attempt_row \<Rightarrow> bool" where
  "may_publish now c s a \<longleftrightarrow> holds_lease s c a \<and> lease_live now a \<and>
     a_status a \<in> {St_Accepted, St_Running, St_Finalizing, St_Cancelling}"

definition finalize_attempt ::
  "workspace_externals \<Rightarrow> workspace_serde \<Rightarrow> uuid \<Rightarrow> instant \<Rightarrow> uuid \<Rightarrow> lease_claim \<Rightarrow> nat option \<Rightarrow> terminal_outcome \<Rightarrow>
   json \<Rightarrow> bool \<Rightarrow> terminal_outcome option transaction" where
  "finalize_attempt x ser org now retry c session out summary cancellation_aborts s =
     and_then (normalize x ser summary) (\<lambda>(summary, transfer).
     and_then (session_current s (lc_agent_id c) session) (\<lambda>current.
     if \<not> current then Ok (s, None)
     else case find (\<lambda>a. holds_lease s c a \<and> published_status (a_status a)) (st_attempts s) of
       Some a \<Rightarrow>
         (if cancellation_aborts \<and> substituted out summary a then Ok (s, Some Out_Aborted)
          else if a_status a = outcome_status out \<and> a_terminal_summary a = Some summary then Ok (s, Some out)
          else Ok (s, None))
     | None \<Rightarrow> (case joined s (may_publish now c s) of
         None \<Rightarrow> Ok (s, None)
       | Some (a, n, r) \<Rightarrow>
           let (out, summary) = published (cancellation_aborts \<and> (a_status a = St_Cancelling \<or> n_cancellation n \<noteq> None)) out summary;
               uncertain = uncertain_effects s (a_id a) (a_fence a) in
           if uncertain > 0 then park_uncertain now c a n r out uncertain s
           else if list_ex (incomplete_effect out) (effects_of s (a_id a) (a_fence a)) then Ok (s, None)
           else publish_terminal x ser org now retry c a n r transfer out summary s)))"

end
