(* ===== verification/Cancel_Retry.thy ===== *)
theory Cancel_Retry
  imports Scheduler
begin

text \<open>
  Cancellation and operator retry, \<open>controller-store/src/lib.rs\<close>: the request to cancel a build,
  an agent's report that it stopped, the retry of a failed attempt with the nodes its failure
  skipped, and the dead letter of an exhausted one.
\<close>

section \<open>Requests to cancel\<close>

datatype cancellation_decision = Accepted_cancellation | AlreadyRequested | NotCancellable "status option"

definition latest_attempt :: "store \<Rightarrow> uuid \<Rightarrow> (attempt_row \<times> node_row) option" where
  "latest_attempt s b =
     (case sort_key (\<lambda>(a, _). - a_ordinal a)
        (filter (\<lambda>(a, n). a_node_id a = n_id n) (List.product (st_attempts s) (nodes_of s b))) of
      [] \<Rightarrow> None | j # _ \<Rightarrow> Some j)"

definition cancel_single :: "instant \<Rightarrow> string \<Rightarrow> build_row \<Rightarrow> cancellation_decision transaction" where
  "cancel_single now actor r s = (case latest_attempt s (b_id r) of
     None \<Rightarrow> Ok (s, NotCancellable (Some (b_status r)))
   | Some (a, n) \<Rightarrow>
       if b_cancellation r \<noteq> None then Ok (s, AlreadyRequested)
       else
         let s = (if b_status r = St_Queued then
                update_builds (\<lambda>t. b_id t = b_id r \<and> b_status t = St_Queued)
                  (\<lambda>t. t\<lparr>b_status := St_Aborted, b_cancellation := Some now, b_completed_at := Some now\<rparr>)
                (update_nodes now (\<lambda>t. n_id t = n_id n \<and> n_status t = St_Queued) (\<lambda>t. t\<lparr>n_status := St_Aborted\<rparr>)
                (update_attempts (\<lambda>t. a_id t = a_id a \<and> a_status t = St_Queued)
                  (abort_attempt now (reason_json ''cancelled_before_execution'')) s))
              else
                update_attempts (\<lambda>t. a_id t = a_id a \<and> a_status t \<in> {St_Offered, St_Accepted, St_Running, St_Finalizing})
                  (\<lambda>t. t\<lparr>a_status := St_Cancelling\<rparr>)
                (update_builds (\<lambda>t. b_id t = b_id r) (\<lambda>t. t\<lparr>b_cancellation := Some now\<rparr>) s)) in
         and_then (append_event_as (b_id r) actor ''build.cancellation_requested''
           [(''attempt_id'', F_uuid (a_id a)), (''node_id'', F_uuid (n_id n)), (''terminal'', F_bool (b_status r = St_Queued))] s) (\<lambda>s.
         Ok (s, Accepted_cancellation)))"

definition request_cancellation_decision ::
  "instant \<Rightarrow> uuid \<Rightarrow> uuid \<Rightarrow> string \<Rightarrow> cancellation_decision transaction" where
  "request_cancellation_decision now project b actor s =
     and_then (validate_audit_actor actor) (\<lambda>_.
     case find (\<lambda>r. b_project_id r = project \<and> b_id r = b) (st_builds s) of
       None \<Rightarrow> Ok (s, NotCancellable None)
     | Some r \<Rightarrow>
         if b_pipeline_id r = None \<or> b_generation r = None then Ok (s, NotCancellable (Some (b_status r)))
         else and_then (lock_build_pipeline_truth s b) (\<lambda>_.
           if b_status r \<notin> {St_Queued, St_Running} then
             Ok (s, if b_cancellation r \<noteq> None \<and> b_status r \<noteq> St_ReconciliationRequired then AlreadyRequested
                    else NotCancellable (Some (b_status r)))
           else if b_dag_mode r then
             and_then (cancel_dag_build now b s) (\<lambda>(t, requested).
             if \<not> requested then
               Ok (s, if b_cancellation r \<noteq> None then AlreadyRequested else NotCancellable (Some (b_status r)))
             else and_then (append_event_as b actor ''build.cancellation_requested'' [(''dag'', F_bool True)] t) (\<lambda>t.
               Ok (t, Accepted_cancellation)))
           else cancel_single now actor r s))"

section \<open>An agent that stopped\<close>

datatype agent_cancellation_outcome = Terminated | AlreadyExited | IdentityMismatch | Unverifiable

datatype agent_cancellation_disposition = Completed | RetireStale | Reconciliation_Required | DischargeRecovered

definition termination_text :: "agent_cancellation_outcome \<Rightarrow> string" where
  "termination_text out = (case out of
     Terminated \<Rightarrow> ''terminated'' | AlreadyExited \<Rightarrow> ''already_exited'' | IdentityMismatch \<Rightarrow> ''identity_mismatch''
   | Unverifiable \<Rightarrow> ''unverifiable'')"

definition record_recovered_discharge :: "lease_claim \<Rightarrow> string \<Rightarrow> store \<Rightarrow> (store, store_error) result" where
  "record_recovered_discharge c reason s =
     (case Option.bind (attempt_of s (lc_attempt_id c)) (\<lambda>a. node_of s (a_node_id a)) of
        None \<Rightarrow> Ok s
      | Some n \<Rightarrow>
          let kind = ''attempt.recovered_discharge_authorized'';
              named = [(''attempt_id'', F_uuid (lc_attempt_id c)), (''fence'', F_int (lc_fence c)), (''agent_id'', F_text (lc_agent_id c))] in
          if list_ex (\<lambda>e. ev_build_id e = n_build_id n \<and> ev_kind e = kind \<and>
               list_all (\<lambda>(k, v). map_of (ev_payload e) k = Some v) named) (st_events s) then Ok s
          else append_event (n_build_id n) kind (named @ [(''reason'', F_text reason)]) s)"

text \<open>The reason, the event and the answer of a confirmed stop.\<close>

definition stop_report :: "bool \<Rightarrow> agent_cancellation_outcome \<Rightarrow> string \<times> string \<times> agent_cancellation_disposition" where
  "stop_report recovery out = (case out of
     Terminated \<Rightarrow>
       (if recovery then ''agent_recovery_terminated'' else ''agent_confirmed_cancellation'',
        if recovery then ''attempt.recovery_terminated'' else ''attempt.cancellation_completed'', Completed)
   | AlreadyExited \<Rightarrow>
       (if recovery then ''agent_recovery_process_already_exited'' else ''agent_process_already_exited'',
        if recovery then ''attempt.recovery_process_already_exited'' else ''attempt.cancellation_completed'', Completed)
   | _ \<Rightarrow>
       (if recovery then ''agent_recovery_stale_process'' else ''agent_process_identity_mismatch'',
        if recovery then ''attempt.recovery_stale_process'' else ''attempt.cancellation_stale_process'', RetireStale))"

definition discharge ::
  "lease_claim \<Rightarrow> string \<Rightarrow> agent_cancellation_disposition transaction" where
  "discharge c reason s = and_then (record_recovered_discharge c reason s) (\<lambda>s. Ok (s, DischargeRecovered))"

definition stop_attempt ::
  "instant \<Rightarrow> uuid \<Rightarrow> lease_claim \<Rightarrow> agent_cancellation_outcome \<Rightarrow> attempt_row \<Rightarrow> node_row \<Rightarrow> build_row \<Rightarrow>
   agent_cancellation_disposition transaction" where
  "stop_attempt now retry c out a n r s =
     (let uncertain = uncertain_effects s (a_id a) (lc_fence c);
          fields = [(''attempt_id'', F_uuid (a_id a)), (''fence'', F_int (lc_fence c)), (''agent_id'', F_text (lc_agent_id c)),
            (''process_termination'', F_text (termination_text out))] in
      if out = Unverifiable \<or> uncertain > 0 then
        and_then (append_event (b_id r) ''attempt.cancellation_reconciliation_required''
          (fields @ [(''uncertain_effects'', F_int (int uncertain))])
          (require_reconciliation now (b_id r) (n_id n) (set_attempt (a_id a)
            (\<lambda>a. a\<lparr>a_status := St_ReconciliationRequired, a_lease_expires_at := None\<rparr>) s))) (\<lambda>s.
        Ok (s, Reconciliation_Required))
      else case stop_report (b_cancellation r = None) out of (reason, kind, answer) \<Rightarrow>
        and_then (settle now retry (b_id r) (n_id n) (a_id a) Out_Aborted
          (set_attempt (a_id a) (\<lambda>a. (abort_attempt now (reason_json reason) a)\<lparr>a_lease_expires_at := None\<rparr>) s)) (\<lambda>s.
        and_then (append_event (b_id r) kind fields s) (\<lambda>s.
        Ok (s, answer))))"

definition complete_agent_cancellation ::
  "instant \<Rightarrow> uuid \<Rightarrow> lease_claim \<Rightarrow> nat \<Rightarrow> agent_cancellation_outcome \<Rightarrow> agent_cancellation_disposition transaction" where
  "complete_agent_cancellation now retry c epoch out s =
     and_then (lock_agent_session s (lc_agent_id c) epoch) (\<lambda>current.
     if \<not> current then Ok (s, RetireStale)
     else case joined s (\<lambda>a. holds_lease s c a \<and>
         a_status a \<in> {St_Accepted, St_Running, St_Cancelling, St_Aborted, St_ReconciliationRequired} \<and>
         list_ex (\<lambda>t. s_agent_id t = lc_agent_id c \<and> s_session_epoch t = int epoch \<and>
           its_node s (\<lambda>n. s_trust_pool t = n_required_trust_pool n) a) (st_sessions s)) of
       None \<Rightarrow> if out = Unverifiable then discharge c ''fenced_authority_disowned'' s else Ok (s, RetireStale)
     | Some (a, n, r) \<Rightarrow>
         if a_status a = St_Aborted then
           (if out = Unverifiable then discharge c ''attempt_already_terminal'' s
            else Ok (s, if some_and (\<lambda>v. json_str v ''reason'' \<in> {Some ''agent_process_identity_mismatch'', Some ''agent_recovery_stale_process''})
                (a_terminal_summary a) then RetireStale else Completed))
         else if a_status a = St_ReconciliationRequired then
           (if out = Unverifiable \<and> list_ex (\<lambda>t. a_retry_of t = Some (a_id a)) (st_attempts s)
            then discharge c ''operator_retry_superseded'' s else Ok (s, Reconciliation_Required))
         else stop_attempt now retry c out a n r s)"

section \<open>Dead letters\<close>

definition terminalize_dead_lettered ::
  "instant \<Rightarrow> uuid \<Rightarrow> uuid \<Rightarrow> uuid \<Rightarrow> string \<Rightarrow> store \<Rightarrow> (store, store_error) result" where
  "terminalize_dead_lettered now attempt node b reason s =
     (let parked = (\<lambda>a. a_id a = attempt \<and> a_status a = St_ReconciliationRequired) in
      if \<not> list_ex parked (st_attempts s) then Ok s
      else
        let s = update_attempts parked (\<lambda>a. a\<lparr>a_status := St_Failed,
              a_terminal_summary := Some (J_object [(''dead_lettered'', J_bool True), (''reason'', J_string reason)]),
              a_completed_at := Some now\<rparr>) s;
            s = set_node now node St_Failed s;
            open_build = (\<lambda>r. b_id r = b \<and> \<not> published_status (b_status r)) in
        if list_ex open_build (st_builds s) then
          record_terminal_notifications now b St_Failed
            (update_builds open_build (\<lambda>r. r\<lparr>b_status := St_Failed, b_completed_at := Some now\<rparr>) s)
        else Ok s)"

section \<open>Operator retry\<close>

datatype retry_decision = Scheduled uuid int bool | DeadLettered | Ineligible

text \<open>The nodes below one, by the recursive query on the dependencies.\<close>

definition children_of :: "store \<Rightarrow> uuid list \<Rightarrow> uuid list" where
  "children_of s ps = map d_child (filter (\<lambda>d. d_parent d \<in> set ps) (st_dependencies s))"

fun descendants :: "store \<Rightarrow> nat \<Rightarrow> uuid list \<Rightarrow> uuid list" where
  "descendants s 0 found = found"
| "descendants s (Suc k) found = descendants s k (remdups (found @ children_of s found))"

definition descendants_of :: "store \<Rightarrow> uuid \<Rightarrow> uuid list" where
  "descendants_of s node = descendants s (length (st_dependencies s)) (remdups (children_of s [node]))"

definition latest_of :: "store \<Rightarrow> uuid \<Rightarrow> attempt_row option" where
  "latest_of s node = (case sort_key (\<lambda>a. - a_ordinal a) (filter (\<lambda>a. a_node_id a = node) (st_attempts s)) of
     [] \<Rightarrow> None | a # _ \<Rightarrow> Some a)"

definition reopened :: "store \<Rightarrow> uuid \<Rightarrow> uuid \<Rightarrow> node_row \<Rightarrow> bool" where
  "reopened s b node n \<longleftrightarrow> n_build_id n = b \<and> n_status n = St_Skipped \<and> n_logical_outcome n = Some St_Skipped \<and>
     some_and (\<lambda>a. n_id n \<in> set (descendants_of s node) \<or>
       (a_status a = St_Aborted \<and> some_and (\<lambda>v. json_str v ''reason'' = Some ''fail_fast_skipped'') (a_terminal_summary a)))
       (latest_of s (n_id n))"

definition has_dependency :: "store \<Rightarrow> uuid \<Rightarrow> bool" where
  "has_dependency s n = list_ex (\<lambda>d. d_child d = n) (st_dependencies s)"

definition reopen_node :: "instant \<Rightarrow> store \<Rightarrow> uuid \<times> node_row \<times> attempt_row \<Rightarrow> store" where
  "reopen_node now s ina = (case ina of (i, n, a) \<Rightarrow>
     let free = \<not> has_dependency s (n_id n) in
     update_nodes now (\<lambda>t. n_id t = n_id n \<and> n_status t = St_Skipped \<and> n_logical_outcome t = Some St_Skipped)
       (\<lambda>t. t\<lparr>n_status := (if free then St_Queued else St_Blocked), n_logical_outcome := None, n_cancellation := None,
              n_queued_at := now\<rparr>)
       (insert_attempt (queued_attempt now i (n_id n) (a_ordinal a + 1) (Some (a_id a)) (st_restore_epoch s) free) s))"

definition retry_dag :: "instant \<Rightarrow> uuid \<Rightarrow> uuid list \<Rightarrow> int \<Rightarrow> uuid \<Rightarrow> node_row \<Rightarrow> attempt_row \<Rightarrow> store \<Rightarrow> store" where
  "retry_dag now child fresh max_attempts b n a s =
     (let s = insert_attempt (queued_attempt now child (n_id n) (a_ordinal a + 1) (Some (a_id a)) (st_restore_epoch s)
            (dependencies_ready (st_dependencies s) (st_nodes s) (n_id n))) s;
          ready = (a_ready_at (last (st_attempts s)) \<noteq> None);
          s = update_nodes now (\<lambda>t. n_id t = n_id n)
            (\<lambda>t. t\<lparr>n_status := (if ready then St_Queued else St_Blocked), n_logical_outcome := None, n_cancellation := None,
                   n_max_attempts := max (n_max_attempts t) max_attempts, n_queued_at := (if ready then now else n_queued_at t)\<rparr>) s;
          again = sort_key n_id (filter (reopened s b (n_id n)) (st_nodes s)) in
      foldl (reopen_node now) s (zip fresh (map (\<lambda>t. (t, the (latest_of s (n_id t)))) again)))"

definition retry_single :: "instant \<Rightarrow> uuid \<Rightarrow> node_row \<Rightarrow> attempt_row \<Rightarrow> store \<Rightarrow> store" where
  "retry_single now child n a s =
     update_nodes now (\<lambda>t. n_id t = n_id n) (\<lambda>t. t\<lparr>n_status := St_Queued, n_queued_at := now\<rparr>)
       (insert_attempt (queued_attempt now child (n_id n) (a_ordinal a + 1) (Some (a_id a)) (st_restore_epoch s) True) s)"

definition dead_letter ::
  "instant \<Rightarrow> int \<Rightarrow> string \<Rightarrow> string \<Rightarrow> attempt_row \<Rightarrow> node_row \<Rightarrow> build_row \<Rightarrow> retry_decision transaction" where
  "dead_letter now max_attempts reason actor a n r s =
     and_then (if a_id a \<in> fst ` set (st_dead_letters s) then Ok s
       else append_event_as (b_id r) actor ''attempt.dead_lettered''
         [(''attempt_id'', F_uuid (a_id a)), (''ordinal'', F_int (a_ordinal a)), (''max_attempts'', F_int max_attempts),
          (''reason'', F_text reason)]
         (s\<lparr>st_dead_letters := st_dead_letters s @ [(a_id a, reason)]\<rparr>)) (\<lambda>s.
     and_then (terminalize_dead_lettered now (a_id a) (n_id n) (b_id r) reason s) (\<lambda>s.
     Ok (s, DeadLettered)))"

definition reconciliation_terminalized :: "store \<Rightarrow> uuid \<Rightarrow> uuid \<Rightarrow> bool" where
  "reconciliation_terminalized s b a = list_ex (\<lambda>e. ev_build_id e = b \<and> ev_kind e = ''attempt.reconciliation_terminal'' \<and>
     map_of (ev_payload e) ''attempt_id'' = Some (F_uuid a)) (st_events s)"

definition schedule_retry ::
  "instant \<Rightarrow> uuid \<Rightarrow> uuid list \<Rightarrow> uuid \<Rightarrow> int \<Rightarrow> string \<Rightarrow> string \<Rightarrow> retry_decision transaction" where
  "schedule_retry now child fresh attempt max_attempts reason actor s =
     (if \<not> (1 \<le> max_attempts \<and> max_attempts \<le> 16) \<or> reason = [] \<or> length reason > 1024 then Ok (s, Ineligible)
      else and_then (validate_audit_actor actor) (\<lambda>_.
      case joined s (\<lambda>a. a_id a = attempt) of
        None \<Rightarrow> Ok (s, Ineligible)
      | Some (a, n, r) \<Rightarrow>
          if bw_namespace (b_workspace r) \<noteq> None \<or> b_cancellation r \<noteq> None \<or> reconciliation_terminalized s (b_id r) attempt \<or>
             a_status a \<notin> {St_Failed, St_ReconciliationRequired} then Ok (s, Ineligible)
          else case find (\<lambda>t. a_retry_of t = Some attempt) (st_attempts s) of
            Some t \<Rightarrow> Ok (s, Scheduled (a_id t) (a_ordinal t) False)
          | None \<Rightarrow>
              and_then (pipeline_enabled s (b_id r)) (\<lambda>enabled.
              if \<not> enabled \<or> list_ex (\<lambda>e. e_attempt_id e = attempt \<and> e_class e = Non_Idempotent) (st_effects s) then Ok (s, Ineligible)
              else if attempt \<in> fst ` set (st_dead_letters s) then
                and_then (terminalize_dead_lettered now attempt (n_id n) (b_id r) reason s) (\<lambda>s. Ok (s, DeadLettered))
              else if a_ordinal a \<ge> max_attempts then dead_letter now max_attempts reason actor a n r s
              else
                let s = (if b_dag_mode r then retry_dag now child fresh max_attempts (b_id r) n a s else retry_single now child n a s);
                    s = update_builds (\<lambda>t. b_id t = b_id r)
                      (\<lambda>t. t\<lparr>b_status := St_Queued, b_completed_at := None, b_cancellation := None\<rparr>) s in
                and_then (append_event_as (b_id r) actor ''attempt.retry_scheduled''
                  [(''attempt_id'', F_uuid child), (''retry_of'', F_uuid attempt), (''ordinal'', F_int (a_ordinal a + 1)),
                   (''reason'', F_text reason), (''dag'', F_bool (b_dag_mode r))] s) (\<lambda>s.
                Ok (s, Scheduled child (a_ordinal a + 1) True)))))"

end
