(* ===== verification/Controller_Runs.thy ===== *)
theory Controller_Runs
  imports Cancel_Retry
begin

text \<open>
  The commands of the controller on one organization, and the life of an attempt they implement: it
  waits, an agent holds it under a fence of its own, and it ends once.
\<close>

section \<open>Commands\<close>

text \<open>What the commands take from outside: encoders, parsers, hashes and the organization.\<close>

record controller_env =
  ce_contract :: contract_externals
  ce_workspace :: workspace_externals
  ce_serde :: workspace_serde
  ce_hash :: "uuid \<Rightarrow> int \<Rightarrow> int"
  ce_org :: uuid

datatype command =
    Admit uuid "(uuid \<times> uuid) list" new_dag_build
  | Claim claim_request "nat option"
  | Accept lease_claim "nat option"
  | Mark_running lease_claim "nat option"
  | Renew lease_claim "nat option" int
  | Recover lease_claim "nat option" string int
  | Requeue uuid
  | Finalize uuid lease_claim "nat option" terminal_outcome json bool
  | Cancel uuid uuid string
  | Complete_cancellation uuid lease_claim nat agent_cancellation_outcome
  | Retry uuid "uuid list" uuid int string string

definition tables :: "(store \<times> 'r, store_error) result \<Rightarrow> (store \<times> claimed_attempt option, store_error) result" where
  "tables t = and_then t (\<lambda>(s, _). Ok (s, None))"

definition execute ::
  "controller_env \<Rightarrow> instant \<Rightarrow> command \<Rightarrow> claimed_attempt option transaction" where
  "execute env now cmd s = (case cmd of
     Admit b ids input \<Rightarrow> tables (admit_dag (ce_contract env) now b ids input s)
   | Claim req session \<Rightarrow> claim_next (ce_hash env) now req session s
   | Accept c session \<Rightarrow> tables (accept_offer now c session s)
   | Mark_running c session \<Rightarrow> tables (mark_attempt_running now c session s)
   | Renew c session n \<Rightarrow> tables (renew_attempt_lease now c session n s)
   | Recover c session phase n \<Rightarrow> tables (recover_agent_finalization now c session phase n s)
   | Requeue retry \<Rightarrow> tables (requeue_one_expired now retry s)
   | Finalize retry c session out summary aborts \<Rightarrow>
       tables (finalize_attempt (ce_workspace env) (ce_serde env) (ce_org env) now retry c session out summary aborts s)
   | Cancel project b actor \<Rightarrow> tables (request_cancellation_decision now project b actor s)
   | Complete_cancellation retry c epoch out \<Rightarrow> tables (complete_agent_cancellation now retry c epoch out s)
   | Retry child fresh a n reason actor \<Rightarrow> tables (schedule_retry now child fresh a n reason actor s))"

section \<open>The life of an attempt\<close>

datatype phase = Waiting | Leased "string option" | Parked | Closed status

definition phase_of :: "attempt_row \<Rightarrow> phase" where
  "phase_of a = (if a_status a = St_Queued then Waiting
     else if leased_status (a_status a) then Leased (a_lease_owner a)
     else if a_status a = St_ReconciliationRequired then Parked else Closed (a_status a))"

definition life :: "attempt_row \<Rightarrow> int \<times> phase" where
  "life a = (a_fence a, phase_of a)"

text \<open>
  The contract: only an offer raises the fence, only a lease is published, requeued or parked, and
  what is closed stays closed.
\<close>

inductive life_step :: "int \<times> phase \<Rightarrow> int \<times> phase \<Rightarrow> bool" where
  offered: "life_step (f, Waiting) (f + 1, Leased (Some agent))"
| requeued: "life_step (f, Leased h) (f, Waiting)"
| parked: "life_step (f, Leased h) (f, Parked)"
| published: "published_status st \<Longrightarrow> life_step (f, Leased h) (f, Closed st)"
| withdrawn: "life_step (f, Waiting) (f, Closed St_Aborted)"
| dead_lettered: "life_step (f, Parked) (f, Closed St_Failed)"

inductive_simps life_step_Waiting: "life_step (f, Waiting) p"
inductive_simps life_step_Leased: "life_step (f, Leased h) p"
inductive_simps life_step_Parked: "life_step (f, Parked) p"
inductive_simps life_step_Closed: "life_step (f, Closed st) p"

text \<open>A row moves along its life; what an attempt has published is not written again.\<close>

definition moves :: "attempt_row \<Rightarrow> attempt_row \<Rightarrow> bool" where
  "moves a a' \<longleftrightarrow> a_id a' = a_id a \<and> a_node_id a' = a_node_id a \<and> a_ordinal a' = a_ordinal a \<and>
     a_retry_of a' = a_retry_of a \<and> life_step\<^sup>*\<^sup>* (life a) (life a') \<and> (published_status (a_status a) \<longrightarrow> a' = a)"

text \<open>A new attempt has started to wait under fence zero.\<close>

definition born :: "attempt_row \<Rightarrow> bool" where
  "born a \<longleftrightarrow> life_step\<^sup>*\<^sup>* (0, Waiting) (life a)"

definition evolves :: "attempt_row list \<Rightarrow> attempt_row list \<Rightarrow> bool" where
  "evolves as as' \<longleftrightarrow> (\<exists>ms ns. as' = ms @ ns \<and> list_all2 moves as ms \<and> list_all born ns)"

lemma moves_refl [simp]: "moves a a"
  by (simp add: moves_def)

text \<open>A row that is not published takes a step of its life, or none.\<close>

lemma moves_step:
  "\<not> published_status (a_status a) \<Longrightarrow> a_id a' = a_id a \<Longrightarrow> a_node_id a' = a_node_id a \<Longrightarrow> a_ordinal a' = a_ordinal a \<Longrightarrow>
   a_retry_of a' = a_retry_of a \<Longrightarrow> life a' = life a \<or> life_step (life a) (life a') \<Longrightarrow> moves a a'"
  by (auto simp: moves_def)

lemmas moves_simps = life_def phase_of_def leased_status_def published_status_def life_step_Waiting life_step_Leased life_step_Parked

lemma moves_trans: "moves a b \<Longrightarrow> moves b c \<Longrightarrow> moves a c"
  by (auto simp: moves_def)

lemma born_moves: "born a \<Longrightarrow> moves a b \<Longrightarrow> born b"
  by (auto simp: born_def moves_def)

lemma evolves_refl [simp, intro]: "evolves as as"
  unfolding evolves_def by (intro exI [of _ as] exI [of _ "[]"]) (simp add: list.rel_refl)

lemma evolves_trans [trans]:
  assumes "evolves as bs" "evolves bs cs"
  shows "evolves as cs"
proof -
  from assms(1) obtain ms ns where b: "bs = ms @ ns" "list_all2 moves as ms" "list_all born ns" by (auto simp: evolves_def)
  from assms(2) obtain ks ls where c: "cs = ks @ ls" "list_all2 moves bs ks" "list_all born ls" by (auto simp: evolves_def)
  from c(2) b(1) obtain k1 k2 where k: "ks = k1 @ k2" "list_all2 moves ms k1" "list_all2 moves ns k2"
    by (auto simp: list_all2_append1)
  have "list_all2 moves as k1" by (rule list_all2_trans [OF _ b(2) k(2)]) (rule moves_trans)
  moreover have "list_all born k2"
    using k(3) b(3) by (induction rule: list_all2_induct) (auto intro: born_moves)
  ultimately show ?thesis using c(1, 3) k(1) unfolding evolves_def
    by (intro exI [of _ k1] exI [of _ "k2 @ ls"]) simp
qed

lemma evolves_update:
  assumes "\<And>a. a \<in> set as \<Longrightarrow> P a \<Longrightarrow> moves a (f a)"
  shows "evolves as (update_rows P f as)"
  unfolding evolves_def
  by (intro exI [of _ "update_rows P f as"] exI [of _ "[]"])
    (use assms in \<open>simp add: update_rows_def list_all2_map2 list_all2_same\<close>)

lemma evolves_append: "list_all born ns \<Longrightarrow> evolves as (as @ ns)"
  unfolding evolves_def by (intro exI [of _ as] exI [of _ ns]) (simp add: list.rel_refl)

lemma evolves_readiness: "evolves as (set_readiness n f as)"
  unfolding set_readiness_def
  by (rule evolves_update, rule moves_step) (auto simp: latest_queued_def moves_simps)

section \<open>Every statement moves attempts along their lives\<close>

abbreviation steps :: "store \<Rightarrow> store \<Rightarrow> bool" where
  "steps s t \<equiv> evolves (st_attempts s) (st_attempts t)"

lemma attempts_update_builds [simp]: "st_attempts (update_builds P f s) = st_attempts s"
  by (simp add: update_builds_def)

lemma evolves_node_loop: "evolves as (snd (node_loop now deps P f changed nodes as))"
proof (induction nodes arbitrary: changed as)
  case (Cons n nodes)
  have "evolves as (snd (if P n then status_trigger now deps (changed @ n # nodes) n (f n) as else (n, as)))"
    by (simp add: status_trigger_def evolves_readiness)
  from evolves_trans [OF this Cons.IH] show ?case by (simp add: split_beta)
qed simp

lemma steps_update_nodes: "steps s (update_nodes now P f s)"
  using evolves_node_loop [of "st_attempts s" now "st_dependencies s" P f "[]" "st_nodes s"]
  by (simp add: update_nodes_def split_beta)

lemma steps_update_attempts:
  "(\<And>a. a \<in> set (st_attempts s) \<Longrightarrow> P a \<Longrightarrow> moves a (f a)) \<Longrightarrow> steps s (update_attempts P f s)"
  by (simp add: update_attempts_def evolves_update)

lemma born_queued: "born (queued_attempt now a n k r e ready)"
  by (simp add: born_def life_def phase_of_def queued_attempt_def)

lemma steps_insert: "steps s (insert_attempt (queued_attempt now a n k r e ready) s)"
proof -
  have "born (queued_attempt now a n k r e ready\<lparr>a_ready_at := None\<rparr>)"
    by (simp add: born_def life_def phase_of_def queued_attempt_def)
  with born_queued show ?thesis by (simp add: insert_attempt_def Let_def evolves_append)
qed

lemma append_event_eq: "append_event b kind payload s = Ok (s\<lparr>st_events := st_events s @
    [\<lparr>ev_build_id = b, ev_actor = ''system:controller'', ev_kind = kind, ev_payload = payload\<rparr>]\<rparr>)"
proof -
  have "validate_audit_actor ''system:controller'' = Ok ()" by code_simp
  then show ?thesis by (simp add: append_event_def append_event_as_def)
qed

lemma append_event_as_Ok: "append_event_as b actor kind payload s = Ok t \<Longrightarrow>
    t = s\<lparr>st_events := st_events s @ [\<lparr>ev_build_id = b, ev_actor = actor, ev_kind = kind, ev_payload = payload\<rparr>]\<rparr>"
  by (auto simp: append_event_as_def ok_simps)

lemma notifications_eq: "record_terminal_notifications now b st s = Ok t \<Longrightarrow> \<exists>ds es. t = s\<lparr>st_deliveries := ds, st_events := es\<rparr>"
  by (auto simp: record_terminal_notifications_def append_event_eq delay_held_def Let_def)

lemma derive_attempts: "derive_build_outcome now b s = Ok t \<Longrightarrow> st_attempts t = st_attempts s"
  by (auto simp: derive_build_outcome_def Let_def update_builds_def split: option.splits if_splits dest!: notifications_eq)

text \<open>The closing statements of the graph only close what waits or is held.\<close>

lemma moves_abort:
  "a_status a \<in> {St_Queued, St_Offered, St_Accepted, St_Running, St_Finalizing, St_Cancelling} \<Longrightarrow>
   moves a (abort_attempt now summary a)"
  "a_status a \<in> {St_Queued, St_Offered, St_Accepted, St_Running, St_Finalizing, St_Cancelling} \<Longrightarrow>
   moves a (abort_attempt now summary a\<lparr>a_lease_expires_at := None\<rparr>)"
  by (rule moves_step; auto simp: abort_attempt_def moves_simps)+

lemma moves_cancelling: "a_status a \<in> {St_Offered, St_Accepted, St_Running, St_Finalizing} \<Longrightarrow> moves a (a\<lparr>a_status := St_Cancelling\<rparr>)"
  by (rule moves_step) (auto simp: moves_simps)

lemma steps_skip: "steps s (skip_nodes now b s)"
  by (auto simp: skip_nodes_def Let_def update_attempts_def intro!: evolves_update moves_abort)

lemma steps_release: "steps s (release_nodes now b s)"
proof -
  let ?t = "update_nodes now (releasable s b) (\<lambda>n. n\<lparr>n_status := St_Queued, n_queued_at := now\<rparr>) s"
  have "steps ?t (update_attempts (\<lambda>a. a_status a = St_Queued \<and> P a) (ready_attempt ?t) ?t)" for P
    by (rule steps_update_attempts, rule moves_step) (auto simp: ready_attempt_def moves_simps)
  from evolves_trans [OF steps_update_nodes this] steps_update_nodes show ?thesis
    by (simp add: release_nodes_def Let_def)
qed

lemma steps_advance: "steps s (advance_blocked_nodes now b s)"
proof (induction now b s rule: advance_blocked_nodes.induct)
  case (1 now b s)
  have "steps s (release_nodes now b (skip_nodes now b s))" by (rule evolves_trans [OF steps_skip steps_release])
  with 1 [OF refl refl] show ?case
    by (simp add: advance_blocked_nodes.simps [of now b s] Let_def) (metis evolves_trans)
qed

lemma steps_request_stop:
  "S \<subseteq> {St_Offered, St_Accepted, St_Running, St_Finalizing} \<Longrightarrow> steps s (request_stop now P S s)"
  by (auto simp: request_stop_def Let_def update_attempts_def intro!: evolves_update moves_cancelling)

lemma steps_mark_skipped: "steps s (mark_unstarted_skipped now b ex s)"
  unfolding mark_unstarted_skipped_def
  by (rule evolves_trans [OF steps_update_attempts steps_update_nodes]) (auto intro: moves_abort)

lemma steps_fence: "steps s (fence_unstarted_dag_work now b node s)"
  unfolding fence_unstarted_dag_work_def Let_def
  by (rule evolves_trans [OF evolves_trans [OF steps_update_attempts steps_update_nodes] steps_request_stop])
    (auto intro: moves_abort)

lemma steps_stop_siblings: "steps s (stop_siblings now b node s)"
  unfolding stop_siblings_def by (rule evolves_trans [OF steps_request_stop steps_mark_skipped]) simp

lemma steps_retry_node: "steps s (retry_node now retry node a k s)"
  unfolding retry_node_def Let_def by (rule evolves_trans [OF steps_insert steps_update_nodes])

end
