(* ===== verification/Workspace_Audit.thy ===== *)
theory Workspace_Audit
  imports Workspace_Chain
begin

text \<open>
  The commits of a build's attempts and the audit of its history agree: whatever sequence of
  publications the controller admits, rebuilding the chain of checkpoints from the terminal
  summaries succeeds and ends at the stored generation and receipt.
\<close>

text \<open>
  An entry of the history: a publication with the outcome and summary the agent asked for, which
  may be turned into an abort, or an attempt that ended or is pending without a transfer.
\<close>

datatype publication =
    Publication terminal_outcome json bool
  | Unpublished string "json option"

definition publish ::
  "workspace_externals \<Rightarrow> workspace_serde \<Rightarrow> uuid \<Rightarrow> uuid \<Rightarrow> workspace_columns \<times> (string \<times> json option) list \<Rightarrow>
   publication \<Rightarrow> (workspace_columns \<times> (string \<times> json option) list, store_error) result" where
  "publish x ser org build wh p = (case (wh, p) of
     ((w, h), Publication out summary aborts) \<Rightarrow>
       and_then (normalize x ser summary) (\<lambda>(s, transfer).
       and_then (commit_workspace x ser org build w transfer (fst (published aborts out s))) (\<lambda>w'.
       Ok (w', h @ [(outcome_str (fst (published aborts out s)), Some (snd (published aborts out s)))])))
   | ((w, h), Unpublished status summary) \<Rightarrow> Ok (w, h @ [(status, summary)]))"

text \<open>A summary that names a transfer only where \<open>normalize\<close> reads it.\<close>

definition plain :: "publication \<Rightarrow> bool" where
  "plain p = (case p of
     Publication _ summary aborts \<Rightarrow>
       aborts \<or> json_get summary ''workspace_transfer'' \<noteq> None \<or> summary_transfer (Some summary) = None
   | Unpublished status summary \<Rightarrow> status \<noteq> ''succeeded'' \<and> summary_transfer summary = None)"

text \<open>What is relied on of \<open>serde\<close>: decoding undoes encoding.\<close>

definition serde_faithful :: "workspace_serde \<Rightarrow> bool" where
  "serde_faithful ser \<longleftrightarrow>
     (\<forall>s v. snapshot_to_value ser s = Ok v \<longrightarrow> snapshot_from_value ser v = Ok s) \<and>
     (\<forall>r v. receipt_to_value ser r = Ok v \<longrightarrow> receipt_from_value ser v = Ok r) \<and>
     (\<forall>t r. terminal_from_value ser (transfer_json ser t r) =
        Ok \<lparr>tr_version = wt_version t, tr_organization_id = wt_organization_id t, tr_build_id = wt_build_id t,
            tr_namespace_id = wt_namespace_id t, tr_generation = wt_generation t,
            tr_input_digest = wt_input_digest t, tr_receipt = r, tr_error = wt_error t\<rparr>)"

text \<open>The columns and the history stand for the same chain.\<close>

definition chained ::
  "workspace_externals \<Rightarrow> workspace_serde \<Rightarrow> uuid \<Rightarrow> uuid \<Rightarrow> uuid \<Rightarrow> byte list \<Rightarrow>
   workspace_columns \<times> (string \<times> json option) list \<Rightarrow> bool" where
  "chained x ser org build ns d0 wh \<longleftrightarrow> (case wh of (w, h) \<Rightarrow>
     \<exists>g d l v sn. bw_namespace w = Some ns \<and> try_fold (chain_step x ser org build ns) (0, d0, None) h = Ok (g, d, l) \<and>
       bw_generation w = int g \<and> g \<le> 65 \<and> bw_snapshot w = Some v \<and> snapshot_from_value ser v = Ok sn \<and>
       snapshot_digest x sn = Ok d \<and> decode_option (receipt_from_value ser) (bw_receipt w) = Ok l)"

lemma json_get_set: "json_get v k = Some u \<Longrightarrow> json_get (json_set v k w) k = Some w"
proof -
  assume "json_get v k = Some u"
  then obtain fs where v: "v = J_object fs" "map_of fs k = Some u" by (auto simp: json_get_def split: json.splits)
  then have "k \<in> fst ` set fs" by (force dest: map_of_SomeD)
  moreover from this have "map_of (map (\<lambda>(j, u). if j = k then (j, w) else (j, u)) fs) k = Some w"
    by (induction fs) auto
  ultimately show ?thesis by (simp add: v json_set_def)
qed

lemma grant_current:
  assumes "workspace_grant_for x ser org build w = Ok (Some g)" and "bw_snapshot w = Some v"
    and "snapshot_from_value ser v = Ok sn" and "snapshot_digest x sn = Ok d"
  shows "wg_generation g = nat (bw_generation w)" and "wg_digest g = d" and "bw_generation w \<le> 64"
  using assms
  by (auto simp: workspace_grant_for_def store_invalid_def ok_simps Let_def validate_checkpoint_def
      split: option.splits if_splits)

lemma published_cases:
  "published aborts out s = (out', stored) \<Longrightarrow>
     summary_transfer (Some stored) = (if aborts then json_get s ''workspace_transfer'' else summary_transfer (Some s))"
  by (auto simp: published_def cancellation_summary_def summary_transfer_def split: if_splits)

lemma outcome_status: "outcome_str out \<in> {''succeeded'', ''failed'', ''aborted''}"
  "outcome_str out = ''succeeded'' \<longleftrightarrow> out = Out_Succeeded"
  by (simp_all add: outcome_str_def split: terminal_outcome.splits)

lemma normalize_cases:
  assumes "normalize x ser summary = Ok (s, t)"
  obtains (absent) "t = None" "s = summary" "json_get summary ''workspace_transfer'' = None"
  | (present) tr r where "t = Some tr" "validate_transfer x tr = Ok ()"
      "json_get s ''workspace_transfer'' = Some (transfer_json ser tr r)"
      "case wt_snapshot tr of None \<Rightarrow> r = None | Some sn \<Rightarrow> \<exists>q. snapshot_receipt x sn = Ok q \<and> r = Some q"
proof (cases "json_get summary ''workspace_transfer''")
  case None
  with assms absent show ?thesis by (simp add: normalize_def)
next
  case (Some v)
  with assms obtain tr r where tr: "t = Some tr" "validate_transfer x tr = Ok ()"
    "s = json_set summary ''workspace_transfer'' (transfer_json ser tr r)"
    and r: "(case wt_snapshot tr of None \<Rightarrow> Ok None
      | Some sn \<Rightarrow> and_then (checked (snapshot_receipt x sn)) (\<lambda>r. Ok (Some r))) = Ok r"
    by (auto simp: normalize_def and_then_eq_Ok)
  from r have "case wt_snapshot tr of None \<Rightarrow> r = None | Some sn \<Rightarrow> \<exists>q. snapshot_receipt x sn = Ok q \<and> r = Some q"
    by (cases "wt_snapshot tr") (auto simp: and_then_eq_Ok)
  with tr present json_get_set [OF Some] show ?thesis by simp
qed

lemma validate_transfer_cases:
  assumes "validate_transfer x t = Ok ()"
  obtains (captured) sn where "wt_version t = 1" "wt_snapshot t = Some sn" "wt_error t = None"
  | (failed) e where "wt_version t = 1" "wt_snapshot t = None" "wt_error t = Some e" "e \<noteq> []" "length e \<le> 1024"
  using assms
  by (auto simp: validate_transfer_def validate_identity_def ok_simps ws_invalid_def split: option.splits if_splits)

lemma commit_absent:
  assumes "commit_workspace x ser org build w None out = Ok w'" and "bw_namespace w = Some ns"
  shows "w' = w \<and> out \<noteq> Out_Succeeded"
  using assms by (auto simp: commit_workspace_def ok_simps store_invalid_def split: if_splits)

lemma commit_present:
  assumes "commit_workspace x ser org build w (Some t) out = Ok w'" and "bw_namespace w = Some ns"
    and "bw_snapshot w = Some v" and "snapshot_from_value ser v = Ok sn" and "snapshot_digest x sn = Ok d"
  shows "wt_organization_id t = uuid_to_string x org \<and> wt_build_id t = uuid_to_string x build \<and>
      wt_namespace_id t = uuid_to_string x ns \<and> wt_generation t = nat (bw_generation w) \<and>
      wt_input_digest t = d \<and> bw_generation w \<le> 64"
    and "case wt_snapshot t of
      None \<Rightarrow> w' = w \<and> out \<noteq> Out_Succeeded
    | Some sn \<Rightarrow> \<exists>r sv rv. snapshot_receipt x sn = Ok r \<and> snapshot_to_value ser sn = Ok sv \<and>
        receipt_to_value ser r = Ok rv \<and>
        w' = w\<lparr>bw_generation := bw_generation w + 1, bw_snapshot := Some sv, bw_receipt := Some rv\<rparr>"
proof -
  from assms(1,2) obtain g where g: "workspace_grant_for x ser org build w = Ok (Some g)"
    by (auto simp: commit_workspace_def and_then_eq_Ok)
  note current = grant_current [OF g assms(3,4,5)]
  show "wt_organization_id t = uuid_to_string x org \<and> wt_build_id t = uuid_to_string x build \<and>
      wt_namespace_id t = uuid_to_string x ns \<and> wt_generation t = nat (bw_generation w) \<and>
      wt_input_digest t = d \<and> bw_generation w \<le> 64"
    using assms(1,2) g current by (auto simp: commit_workspace_def store_invalid_def split: if_splits)
  show "case wt_snapshot t of
      None \<Rightarrow> w' = w \<and> out \<noteq> Out_Succeeded
    | Some sn \<Rightarrow> \<exists>r sv rv. snapshot_receipt x sn = Ok r \<and> snapshot_to_value ser sn = Ok sv \<and>
        receipt_to_value ser r = Ok rv \<and>
        w' = w\<lparr>bw_generation := bw_generation w + 1, bw_snapshot := Some sv, bw_receipt := Some rv\<rparr>"
    using assms(1,2) g by (auto simp: commit_workspace_def store_invalid_def ok_simps split: if_splits option.splits)
qed

lemma chain_step_absent:
  "summary_transfer s = None \<Longrightarrow> status \<noteq> ''succeeded'' \<Longrightarrow> chain_step x ser org build ns c (status, s) = Ok c"
  by (cases c) (simp add: chain_step_def)

lemma chained_snoc:
  assumes "chained x ser org build ns d0 (w, h)" and "summary_transfer s = None" and "status \<noteq> ''succeeded''"
  shows "chained x ser org build ns d0 (w, h @ [(status, s)])"
  using assms unfolding chained_def by (auto simp: try_fold_append chain_step_absent)

text \<open>A publication with a transfer moves the columns and the chain alike.\<close>

lemma chained_transfer:
  assumes ser: "serde_faithful ser" and inv: "chained x ser org build ns d0 (w, h)"
    and t: "validate_transfer x t = Ok ()"
    and r: "case wt_snapshot t of None \<Rightarrow> r = None | Some sn \<Rightarrow> \<exists>q. snapshot_receipt x sn = Ok q \<and> r = Some q"
    and stored: "summary_transfer s = Some (transfer_json ser t r)"
    and c: "commit_workspace x ser org build w (Some t) out = Ok w'"
  shows "chained x ser org build ns d0 (w', h @ [(outcome_str out, s)])"
proof -
  from inv obtain g d l v sn where w: "bw_namespace w = Some ns" "bw_generation w = int g" "bw_snapshot w = Some v"
    "snapshot_from_value ser v = Ok sn" "snapshot_digest x sn = Ok d" "g \<le> 65"
    and l: "decode_option (receipt_from_value ser) (bw_receipt w) = Ok l"
    and h: "try_fold (chain_step x ser org build ns) (0, d0, None) h = Ok (g, d, l)"
    unfolding chained_def by auto
  note ids = commit_present(1) [OF c w(1,3,4,5)] and result = commit_present(2) [OF c w(1,3,4,5)]
  note dec = ser [unfolded serde_faithful_def]
  from t show ?thesis
  proof (cases rule: validate_transfer_cases)
    case (captured new)
    with result obtain q sv rv where q: "snapshot_receipt x new = Ok q" and sv: "snapshot_to_value ser new = Ok sv"
      and rv: "receipt_to_value ser q = Ok rv"
      and w': "w' = w\<lparr>bw_generation := bw_generation w + 1, bw_snapshot := Some sv, bw_receipt := Some rv\<rparr>"
      by auto
    from q have ok: "snapshot_ok x new" by (auto simp: snapshot_receipt_def and_then_eq_Ok dest: snapshot_digest_ok)
    from snapshot_receipt_valid [OF this] q have valid: "validate_receipt q = Ok ()"
      and dig: "snapshot_digest x new = Ok (sr_digest q)" by auto
    from captured r q have "r = Some q" by auto
    with stored captured ids w dec valid outcome_status(1) [of out]
    have "chain_step x ser org build ns (g, d, l) (outcome_str out, s) = Ok (g + 1, sr_digest q, Some q)"
      by (simp add: chain_step_def)
    with h w' w dec sv rv dig ids show ?thesis
      unfolding chained_def by (auto simp: try_fold_append decode_option_def)
  next
    case (failed e)
    with result have w': "w' = w" and out: "out \<noteq> Out_Succeeded" by auto
    from failed r have "r = None" by simp
    with stored failed ids w dec outcome_status [of out] out
    have "chain_step x ser org build ns (g, d, l) (outcome_str out, s) = Ok (g, d, l)"
      by (simp add: chain_step_def)
    with h w' w l show ?thesis unfolding chained_def by (auto simp: try_fold_append)
  qed
qed

lemma publish_chained:
  assumes ser: "serde_faithful ser" and inv: "chained x ser org build ns d0 (w, h)" and p: "plain p"
    and ok: "publish x ser org build (w, h) p = Ok wh"
  shows "chained x ser org build ns d0 wh"
proof (cases p)
  case (Unpublished status summary)
  with ok p inv show ?thesis by (auto simp: publish_def plain_def intro: chained_snoc)
next
  case (Publication out summary aborts)
  with ok obtain s t w' where n: "normalize x ser summary = Ok (s, t)"
    and c: "commit_workspace x ser org build w t (fst (published aborts out s)) = Ok w'"
    and wh: "wh = (w', h @ [(outcome_str (fst (published aborts out s)), Some (snd (published aborts out s)))])"
    by (auto simp: publish_def and_then_eq_Ok split: prod.splits)
  obtain out' stored where pub: "published aborts out s = (out', stored)" by (cases "published aborts out s")
  from inv have ns: "bw_namespace w = Some ns" by (auto simp: chained_def)
  from n show ?thesis
  proof (cases rule: normalize_cases)
    case absent
    with c pub ns have "w' = w" "out' \<noteq> Out_Succeeded" by (auto dest: commit_absent)
    moreover have "summary_transfer (Some stored) = None"
      using published_cases [OF pub] absent p Publication by (auto simp: plain_def)
    ultimately show ?thesis
      using inv wh pub by (auto intro: chained_snoc simp: outcome_status(2))
  next
    case (present t' r)
    have "summary_transfer (Some stored) = Some (transfer_json ser t' r)"
      using published_cases [OF pub] present(3) by (simp add: summary_transfer_def)
    from chained_transfer [OF ser inv present(2,4) this, of out' w'] c pub wh present(1) show ?thesis by simp
  qed
qed


section \<open>A concrete instance\<close>

fun dec_bytes :: "json \<Rightarrow> byte list" where
  "dec_bytes (J_array vs) = map (\<lambda>v. case v of J_number n \<Rightarrow> word_of_int n | _ \<Rightarrow> 0) vs"
| "dec_bytes _ = []"

fun enc_entry :: "workspace_entry \<Rightarrow> json" where
  "enc_entry (Directory p) = J_string p"
| "enc_entry (File p e c) = J_array [J_string p, J_bool e, json_digest c]"

fun dec_entry :: "json \<Rightarrow> workspace_entry" where
  "dec_entry (J_array [J_string p, J_bool e, c]) = File p e (dec_bytes c)"
| "dec_entry (J_string p) = Directory p"
| "dec_entry _ = Directory []"

fun enc_entry_receipt :: "workspace_entry_receipt \<Rightarrow> json" where
  "enc_entry_receipt (Directory_receipt p) = J_string p"
| "enc_entry_receipt (File_receipt p e n d) = J_array [J_string p, J_bool e, J_number (int n), json_digest d]"

fun dec_entry_receipt :: "json \<Rightarrow> workspace_entry_receipt" where
  "dec_entry_receipt (J_array [J_string p, J_bool e, J_number n, d]) = File_receipt p e (nat n) (dec_bytes d)"
| "dec_entry_receipt (J_string p) = Directory_receipt p"
| "dec_entry_receipt _ = Directory_receipt []"

definition enc_snapshot :: "workspace_snapshot \<Rightarrow> json" where
  "enc_snapshot s = J_array [J_number (int (sn_version s)), J_array (map enc_entry (sn_entries s))]"

fun dec_snapshot :: "json \<Rightarrow> (workspace_snapshot, string) result" where
  "dec_snapshot (J_array [J_number n, J_array es]) = Ok \<lparr>sn_version = nat n, sn_entries = map dec_entry es\<rparr>"
| "dec_snapshot _ = Err ''snapshot''"

definition enc_receipt :: "workspace_snapshot_receipt \<Rightarrow> json" where
  "enc_receipt r = J_array [J_number (int (sr_version r)), json_digest (sr_digest r),
     J_number (int (sr_total_bytes r)), J_array (map enc_entry_receipt (sr_entries r))]"

fun dec_receipt :: "json \<Rightarrow> (workspace_snapshot_receipt, string) result" where
  "dec_receipt (J_array [J_number n, d, J_number t, J_array es]) =
     Ok \<lparr>sr_version = nat n, sr_digest = dec_bytes d, sr_total_bytes = nat t, sr_entries = map dec_entry_receipt es\<rparr>"
| "dec_receipt _ = Err ''receipt''"

definition json_num :: "json option \<Rightarrow> nat" where
  "json_num v = (case v of Some (J_number n) \<Rightarrow> nat n | _ \<Rightarrow> 0)"

definition json_text :: "json option \<Rightarrow> string" where
  "json_text v = (case v of Some (J_string s) \<Rightarrow> s | _ \<Rightarrow> [])"

definition dec_terminal :: "json \<Rightarrow> (terminal_receipt, string) result" where
  "dec_terminal v = Ok
     \<lparr>tr_version = json_num (json_get v ''version''), tr_organization_id = json_text (json_get v ''organization_id''),
      tr_build_id = json_text (json_get v ''build_id''), tr_namespace_id = json_text (json_get v ''namespace_id''),
      tr_generation = json_num (json_get v ''generation''),
      tr_input_digest = (case json_get v ''input_digest'' of Some d \<Rightarrow> dec_bytes d | None \<Rightarrow> []),
      tr_receipt = (case json_get v ''receipt'' of
         Some r \<Rightarrow> (case dec_receipt r of Ok q \<Rightarrow> Some q | Err _ \<Rightarrow> None) | None \<Rightarrow> None),
      tr_error = (case json_get v ''error'' of Some (J_string e) \<Rightarrow> Some e | _ \<Rightarrow> None)\<rparr>"

definition sample_workspace_externals :: workspace_externals where
  "sample_workspace_externals = \<lparr>wx_sha256 = (\<lambda>m. m), snapshot_vec = (\<lambda>_. Some []), result_vec = (\<lambda>_. Some []),
     uuid_parse_str = (\<lambda>v. Some (length v)), uuid_to_string = (\<lambda>u. replicate u CHR ''a'')\<rparr>"

definition sample_snapshot :: workspace_snapshot where
  "sample_snapshot = \<lparr>sn_version = 1, sn_entries = [Directory ''d'']\<rparr>"

definition sample_transfer :: workspace_transfer_result where
  "sample_transfer = \<lparr>wt_version = 1, wt_organization_id = ''a'', wt_build_id = ''aa'', wt_namespace_id = ''aaa'',
     wt_generation = 0, wt_input_digest = [], wt_snapshot = Some sample_snapshot, wt_error = None\<rparr>"

definition sample_serde :: workspace_serde where
  "sample_serde = \<lparr>transfer_from_value = (\<lambda>_. Ok sample_transfer), terminal_from_value = dec_terminal,
     snapshot_to_value = (\<lambda>s. Ok (enc_snapshot s)), snapshot_from_value = dec_snapshot,
     receipt_to_value = (\<lambda>r. Ok (enc_receipt r)), receipt_from_value = dec_receipt, receipt_json = enc_receipt\<rparr>"

lemma dec_enc_bytes [simp]: "dec_bytes (json_digest bs) = bs"
  by (induction bs) (simp_all add: json_digest_def)

lemma dec_enc_entry [simp]: "dec_entry (enc_entry e) = e" "dec_entry_receipt (enc_entry_receipt r) = r"
  by (cases e, simp_all) (cases r, simp_all)

lemma dec_enc_snapshot [simp]: "dec_snapshot (enc_snapshot s) = Ok s" "dec_receipt (enc_receipt r) = Ok r"
  by (simp_all add: enc_snapshot_def enc_receipt_def comp_def)

lemma sample_serde_faithful: "serde_faithful sample_serde"
proof -
  have "dec_terminal (transfer_json sample_serde t r) =
      Ok \<lparr>tr_version = wt_version t, tr_organization_id = wt_organization_id t, tr_build_id = wt_build_id t,
          tr_namespace_id = wt_namespace_id t, tr_generation = wt_generation t,
          tr_input_digest = wt_input_digest t, tr_receipt = r, tr_error = wt_error t\<rparr>" for t r
    by (cases r; cases "wt_error t")
      (simp_all add: dec_terminal_def transfer_json_def json_num_def json_text_def json_option_def sample_serde_def)
  then show ?thesis by (simp add: serde_faithful_def) (simp add: sample_serde_def)
qed

definition sample_publications :: "publication list" where
  "sample_publications = [Publication Out_Succeeded (J_object [(''workspace_transfer'', J_null)]) False,
     Unpublished ''queued'' None]"

definition sample_columns :: workspace_columns where
  "sample_columns = \<lparr>bw_namespace = None, bw_generation = 0, bw_snapshot = None, bw_closed = False,
     bw_receipt = None, bw_step_count = 2\<rparr>"

lemma sample_snapshots_ok:
  "snapshot_ok sample_workspace_externals empty_snapshot" "snapshot_ok sample_workspace_externals sample_snapshot"
  by (simp_all add: snapshot_ok_def empty_snapshot_def sample_snapshot_def sample_workspace_externals_def
      validate_path_def is_control_def workspace_limits ancestor_def Cons_eq_append_conv entry_bytes_def)

lemma sample_digests:
  "snapshot_digest sample_workspace_externals empty_snapshot = Ok []"
  "snapshot_digest sample_workspace_externals sample_snapshot = Ok []"
  using sample_snapshots_ok
  by (simp_all add: snapshot_digest_def validate_snapshot_iff [THEN iffD2])
    (simp_all add: sample_workspace_externals_def)

lemma sample_run:
  "\<exists>w0 w h. initialize sample_serde 3 sample_columns = Ok w0 \<and>
     try_fold (publish sample_workspace_externals sample_serde 1 2) (w0, []) sample_publications = Ok (w, h) \<and>
     bw_generation w = 1"
proof -
  let ?x = sample_workspace_externals
  let ?s = sample_serde
  have x: "uuid_parse_str ?x = (\<lambda>v. Some (length v))" "uuid_to_string ?x = (\<lambda>u. replicate u CHR ''a'')"
    "result_vec ?x = (\<lambda>_. Some [])"
    by (simp_all add: sample_workspace_externals_def)
  have s: "transfer_from_value ?s = (\<lambda>_. Ok sample_transfer)" "snapshot_to_value ?s = (\<lambda>s. Ok (enc_snapshot s))"
    "snapshot_from_value ?s = dec_snapshot" "receipt_to_value ?s = (\<lambda>r. Ok (enc_receipt r))"
    "receipt_from_value ?s = dec_receipt"
    by (simp_all add: sample_serde_def)
  have ids: "validate_identity ?x (Suc 0) ''a'' ''aa'' ''aaa'' 0 = Ok ()"
    by (simp add: validate_identity_def check_identity_def x numeral_eq_Suc)
  have "validate_transfer ?x sample_transfer = Ok ()"
    using sample_snapshots_ok
    by (simp add: validate_transfer_def sample_transfer_def ids x validate_snapshot_iff [THEN iffD2])
  moreover obtain r where "snapshot_receipt ?x sample_snapshot = Ok r"
    by (simp add: snapshot_receipt_def sample_digests)
  moreover obtain r0 where "snapshot_receipt ?x empty_snapshot = Ok r0"
    by (simp add: snapshot_receipt_def sample_digests)
  moreover have "sn_entries empty_snapshot = []" by (simp add: empty_snapshot_def)
  ultimately show ?thesis
    by (simp add: initialize_def sample_columns_def sample_publications_def publish_def normalize_def published_def
        commit_workspace_def workspace_grant_for_def validate_checkpoint_def validate_grant_def decode_option_def
        s x sample_digests ids sample_transfer_def Let_def numeral_eq_Suc)
qed


end
