(* ===== verification/Controller_Sample.thy ===== *)
theory Controller_Sample
  imports Controller_Runs Workspace_Audit
begin

text \<open>
  Sample tables of the controller on which the theorems about its commands are applied: an enabled
  pipeline, one build with one queued node, and the agent that claims it.
\<close>

definition sample_env :: controller_env where
  "sample_env = \<lparr>ce_contract = \<lparr>to_vec = (\<lambda>_. Ok []), parse_url = (\<lambda>_. None)\<rparr>,
     ce_workspace = sample_workspace_externals, ce_serde = sample_serde, ce_hash = (\<lambda>i seed. int i), ce_org = 1\<rparr>"

definition sample_pipeline_row :: pipeline_row where
  "sample_pipeline_row = \<lparr>p_project_id = 2, p_pipeline_id = 3, p_current_revision = 1, p_revision_digest = replicate 32 0,
     p_generation = 1, p_states = [(1, ''enabled'')]\<rparr>"

definition sample_session_row :: session_row where
  "sample_session_row = \<lparr>s_agent_id = ''agent'', s_session_epoch = 7, s_capabilities = [''platform:linux''],
     s_features = [], s_trust_pool = ''pool'', s_updated_at = 0\<rparr>"

definition sample_build_row :: build_row where
  "sample_build_row = \<lparr>b_id = 4, b_project_id = 2, b_pipeline_id = Some 3, b_pipeline_revision = Some 1,
     b_generation = Some 1, b_revision_digest = Some (replicate 32 0), b_idempotency_key = ''key'', b_pipeline_digest = [],
     b_status = St_Queued, b_priority = 0, b_dag_mode = True, b_dag_contract = Some J_null, b_notify_targets = J_array [],
     b_cancellation = None, b_created_at = 0, b_completed_at = None, b_workspace = no_workspace, b_affinity_agent = None\<rparr>"

definition sample_node_row :: node_row where
  "sample_node_row = \<lparr>n_id = 5, n_build_id = 4, n_node_key = ''test'', n_status = St_Queued,
     n_required_capabilities = [''platform:linux''], n_required_trust_pool = ''pool'', n_priority = 0,
     n_execution_spec = J_null, n_kind = Work, n_fail_fast = False, n_max_attempts = 1, n_logical_outcome = None,
     n_cancellation = None, n_queued_at = 0\<rparr>"

definition sample_store :: store where
  "sample_store = \<lparr>st_builds = [sample_build_row], st_nodes = [sample_node_row], st_dependencies = [],
     st_attempts = [queued_attempt 0 6 5 1 None 1 True], st_effects = [], st_dead_letters = [],
     st_pipelines = [sample_pipeline_row], st_deliveries = [], st_sessions = [sample_session_row],
     st_events = [], st_restore_epoch = 1\<rparr>"

definition sample_request :: claim_request where
  "sample_request = \<lparr>cr_scheduler_id = ''scheduler'', cr_agent_id = ''agent'', cr_capabilities = [''platform:linux''],
     cr_trust_pool = ''pool'', cr_lease_seconds = 30, cr_fairness_seed = 0\<rparr>"

definition sample_lease :: lease_claim where
  "sample_lease = \<lparr>lc_attempt_id = 6, lc_fence = 1, lc_restore_epoch = 1, lc_agent_id = ''agent''\<rparr>"

text \<open>The agent claims the attempt, accepts it, lets the lease expire, and claims it again.\<close>

definition sample_commands :: "(instant \<times> command) list" where
  "sample_commands = [(1, Claim sample_request None), (2, Accept sample_lease None),
     (seconds 40, Requeue 9), (seconds 41, Claim sample_request None)]"

lemmas sample_rows = sample_store_def sample_build_row_def sample_node_row_def sample_pipeline_row_def sample_request_def
  queued_attempt_def sample_lease_def sample_env_def sample_session_row_def no_workspace_def sample_commands_def

lemma trim_pool: "trim ''pool'' = ''pool''"
  by code_simp

lemmas evaluate_claim = claim_next_def first_candidate_def candidates_def claimable_def pipeline_open_def covers_def
  pin_allows_def may_start_affinity_def single_flight_def affinity_build_def work_nodes_def wants_affinity_def
  nodes_of_def dependencies_ready_def offer_def trim_pool

lemmas evaluate_rows = build_of_def node_of_def joined_def set_attempt_def set_node_def update_attempts_def update_builds_def
  update_nodes_def status_trigger_def set_readiness_def latest_queued_def its_node_def Let_def append_event_eq
  session_current_def holds_lease_def lease_live_def some_and_def seconds_def
  pipeline_enabled_def lock_enabled_build_pipeline_def lock_build_pipeline_truth_def

lemmas evaluate_requeue = requeue_one_expired_def first_expired_def expired_def leased_status_def effects_of_def
  sequential_process_uncertain_def make_uncertain_def

text \<open>The build while the agent holds the accepted attempt.\<close>

definition sample_held :: store where
  "sample_held = sample_store\<lparr>st_builds := [sample_build_row\<lparr>b_status := St_Running\<rparr>],
     st_nodes := [sample_node_row\<lparr>n_status := St_Running\<rparr>],
     st_attempts := [(queued_attempt 0 6 5 1 None 1 True)\<lparr>a_status := St_Accepted, a_fence := 1,
       a_lease_owner := Some ''agent'', a_lease_expires_at := Some (seconds 30)\<rparr>]\<rparr>"

lemmas evaluate_advance = advance_dag_after_attempt_def attempt_of_def advance_none_blocked 
  derive_build_outcome_def count_nodes_def nodes_of_def node_done_def close_workspace_def
  record_terminal_notifications_def targets_of_def delay_held_def

lemmas evaluate_finalize = finalize_attempt_def normalize_def json_get_def may_publish_def published_def uncertain_effects_def
  publish_terminal_def commit_workspace_def record_successful_agent_def settle_def outcome_status_def wants_affinity_def
  WORKSPACE_AFFINITY_CAPABILITY_def published_status_def effects_of_def

end
