(* ===== verification/Attempt_Life.thy ===== *)
theory Attempt_Life
  imports Controller_Sample
begin

text \<open>
  Every command of the controller moves every attempt along the life of an attempt, so that the
  tables refine it; leases are exclusive along every run, and a request under a lease that is not
  current changes nothing but the event log.
\<close>

section \<open>The commands, one by one\<close>

lemma steps_advance_dag: "advance_dag_after_attempt now retry b node a out s = Ok (t, d) \<Longrightarrow> steps s t"
  by (auto simp: advance_dag_after_attempt_def ok_simps append_event_eq Let_def split: option.splits if_splits
      dest!: derive_attempts
      intro: steps_update_nodes evolves_trans [OF steps_update_nodes steps_fence] steps_retry_node
        evolves_trans [OF steps_update_nodes steps_advance]
        evolves_trans [OF steps_update_nodes evolves_trans [OF steps_stop_siblings steps_advance]])

lemma steps_settle: "settle now retry b node a out s = Ok t \<Longrightarrow> steps s t"
  by (auto simp: settle_def ok_simps close_single_def set_node_def split: if_splits
      dest!: steps_advance_dag intro: evolves_trans [OF _ steps_update_nodes])

text \<open>An attempt a request selects is the only row with its identifier.\<close>

definition keyed :: "store \<Rightarrow> bool" where
  "keyed s \<longleftrightarrow> distinct (map a_id (st_attempts s))"

lemma keyed_unique: "keyed s \<Longrightarrow> a \<in> set (st_attempts s) \<Longrightarrow> t \<in> set (st_attempts s) \<Longrightarrow> a_id t = a_id a \<Longrightarrow> t = a"
  by (simp add: keyed_def) (metis distinct_map inj_onD)

lemma steps_set_attempt:
  "keyed s \<Longrightarrow> a \<in> set (st_attempts s) \<Longrightarrow> moves a (f a) \<Longrightarrow> steps s (set_attempt (a_id a) f s)"
  unfolding set_attempt_def by (rule steps_update_attempts) (auto dest: keyed_unique)

lemma joined_Some: "joined s P = Some (a, n, r) \<longleftrightarrow>
    find P (st_attempts s) = Some a \<and> node_of s (a_node_id a) = Some n \<and> build_of s (n_build_id n) = Some r"
  by (auto simp: joined_def bind_eq_Some_conv)

lemma joined_attempt: "joined s P = Some (a, n, r) \<Longrightarrow> a \<in> set (st_attempts s) \<and> P a"
  by (auto simp: joined_Some find_Some_iff)

lemma steps_reconcile: "steps s (require_reconciliation now b n s)"
  by (simp add: require_reconciliation_def set_node_def)

lemma moves_status:
  "leased_status (a_status a) \<Longrightarrow> leased_status st \<Longrightarrow> moves a (a\<lparr>a_status := st\<rparr>)"
  "leased_status (a_status a) \<Longrightarrow> leased_status st \<Longrightarrow> moves a (a\<lparr>a_status := st, a_lease_expires_at := e\<rparr>)"
  "leased_status (a_status a) \<Longrightarrow> moves a (a\<lparr>a_lease_expires_at := e\<rparr>)"
  by (rule moves_step; auto simp: moves_simps)+

lemma moves_return:
  "leased_status (a_status a) \<Longrightarrow> st \<in> {St_Queued, St_ReconciliationRequired} \<Longrightarrow>
   moves a (a\<lparr>a_status := st, a_lease_owner := h, a_lease_expires_at := e\<rparr>)"
  "leased_status (a_status a) \<Longrightarrow> moves a (a\<lparr>a_status := St_ReconciliationRequired, a_lease_expires_at := e\<rparr>)"
  by (rule moves_step; auto simp: moves_simps)+

lemma moves_publish:
  "leased_status (a_status a) \<Longrightarrow>
   moves a (a\<lparr>a_status := outcome_status out, a_terminal_summary := v, a_completed_at := c, a_lease_expires_at := e\<rparr>)"
  by (cases out; rule moves_step; auto simp: moves_simps outcome_status_def)

lemma steps_accept:
  assumes "accept_offer now c session s = Ok (t, v)" "keyed s"
  shows "steps s t"
proof -
  have "steps s (set_node now n St_Running (set_attempt (a_id a) (\<lambda>a. a\<lparr>a_status := St_Accepted\<rparr>) s))"
    if "a \<in> set (st_attempts s)" "a_status a = St_Offered" for a n
    using that assms(2) by (auto simp: set_node_def leased_status_def intro!: steps_set_attempt moves_status)
  with assms(1) show ?thesis
    by (auto simp: accept_offer_def ok_simps append_event_eq Let_def split: option.splits if_splits prod.splits dest!: joined_attempt)
qed

lemma steps_running:
  assumes "mark_attempt_running now c session s = Ok (t, v)" "keyed s"
  shows "steps s t"
proof -
  have "steps s (update_nodes now P (\<lambda>t. t\<lparr>n_status := St_Running\<rparr>) (set_attempt (a_id a) (\<lambda>a. a\<lparr>a_status := St_Running\<rparr>) s))"
    if "a \<in> set (st_attempts s)" "a_status a = St_Accepted" for a P
    using that assms(2) by (auto simp: leased_status_def intro!: steps_set_attempt moves_status)
  with assms(1) show ?thesis
    by (auto simp: mark_attempt_running_def ok_simps append_event_eq Let_def split: option.splits if_splits prod.splits dest!: joined_attempt)
qed

lemma rejection_eq: "record_lease_renewal_rejection c cause s = Ok t \<Longrightarrow> \<exists>es. t = s\<lparr>st_events := es\<rparr>"
  by (cases s) (auto simp: record_lease_renewal_rejection_def append_event_eq split: option.splits)

lemma steps_renew:
  assumes "renew_attempt_lease now c session k s = Ok (t, v)" "keyed s"
  shows "steps s t"
  using assms
  by (auto simp: renew_attempt_lease_def ok_simps Let_def split: option.splits if_splits prod.splits
      dest!: joined_attempt rejection_eq intro!: steps_set_attempt moves_status simp: renewable_def leased_status_def)

lemma steps_recover:
  assumes "recover_agent_finalization now c session phase k s = Ok (t, v)" "keyed s"
  shows "steps s t"
  using assms
  by (auto simp: recover_agent_finalization_def ok_simps leased_status_def find_Some_iff split: option.splits if_splits
      intro!: steps_set_attempt moves_status)

lemma steps_park:
  assumes "park_uncertain now c a n r out u s = Ok (t, v)" "keyed s" "a \<in> set (st_attempts s)" "leased_status (a_status a)"
  shows "steps s t"
  using assms
  by (auto simp: park_uncertain_def ok_simps append_event_eq intro!: evolves_trans [OF steps_set_attempt steps_reconcile] moves_return)

lemma pin_attempts: "record_successful_agent b agent n s = Ok t \<Longrightarrow> st_attempts t = st_attempts s"
  by (auto simp: record_successful_agent_def Let_def store_invalid_def split: if_splits option.splits)

lemma publish_terminal_Ok:
  assumes "publish_terminal x ser org now retry c a n r tr out sm s = Ok (t, v)"
  obtains w u z where "commit_workspace x ser org (b_id r) (b_workspace r) tr out = Ok w"
    "(if out = Out_Succeeded then record_successful_agent (b_id r) (lc_agent_id c) (n_id n) else Ok)
      (set_attempt (a_id a) (\<lambda>a. a\<lparr>a_status := outcome_status out, a_terminal_summary := Some sm, a_completed_at := Some now,
        a_lease_expires_at := None\<rparr>) (update_builds (\<lambda>t. b_id t = b_id r) (\<lambda>t. t\<lparr>b_workspace := w\<rparr>) s)) = Ok u"
    "settle now retry (b_id r) (n_id n) (a_id a) out u = Ok z"
    "t = z\<lparr>st_events := st_events t\<rparr>" "v = Some out"
  using assms
  by (cases "out = Out_Succeeded") (auto simp: publish_terminal_def and_then_eq_Ok append_event_eq Let_def)

lemma steps_publish:
  assumes p: "publish_terminal x ser org now retry c a n r tr out sm s = Ok (t, v)"
    and k: "keyed s" and a: "a \<in> set (st_attempts s)" "leased_status (a_status a)"
  shows "steps s t"
proof -
  let ?f = "\<lambda>a. a\<lparr>a_status := outcome_status out, a_terminal_summary := Some sm, a_completed_at := Some now,
      a_lease_expires_at := None\<rparr>"
  from p obtain w u z where
    u: "(if out = Out_Succeeded then record_successful_agent (b_id r) (lc_agent_id c) (n_id n) else Ok)
      (set_attempt (a_id a) ?f (update_builds (\<lambda>t. b_id t = b_id r) (\<lambda>t. t\<lparr>b_workspace := w\<rparr>) s)) = Ok u"
    and z: "settle now retry (b_id r) (n_id n) (a_id a) out u = Ok z" and t: "t = z\<lparr>st_events := st_events t\<rparr>"
    by (rule publish_terminal_Ok)
  have "steps s (set_attempt (a_id a) ?f s)" by (rule steps_set_attempt [OF k a(1)]) (rule moves_publish [OF a(2)])
  moreover have "st_attempts u = st_attempts (set_attempt (a_id a) ?f s)"
    using u pin_attempts by (cases "out = Out_Succeeded") (auto simp: set_attempt_def update_attempts_def)
  moreover have "st_attempts t = st_attempts z" by (subst t) simp
  ultimately show ?thesis using evolves_trans [OF _ steps_settle [OF z]] by simp
qed

text \<open>The answer to a request that repeats a published result.\<close>

definition replayed :: "terminal_outcome \<Rightarrow> json \<Rightarrow> bool \<Rightarrow> attempt_row \<Rightarrow> terminal_outcome option" where
  "replayed out summary ab a =
     (if ab \<and> substituted out summary a then Some Out_Aborted
      else if a_status a = outcome_status out \<and> a_terminal_summary a = Some summary then Some out else None)"

lemma finalize_attempt_Ok:
  assumes f: "finalize_attempt x ser org now retry c session out summary ab s = Ok (t, v)"
  obtains (same) "t = s" "\<And>w. v = Some w \<Longrightarrow> \<exists>a sm tr. normalize x ser summary = Ok (sm, tr) \<and> replayed out sm ab a = v \<and>
      find (\<lambda>a. holds_lease s c a \<and> published_status (a_status a)) (st_attempts s) = Some a"
  | (park) a n r out' u where "joined s (may_publish now c s) = Some (a, n, r)"
      "park_uncertain now c a n r out' u s = Ok (t, v)" "u = uncertain_effects s (a_id a) (a_fence a)" "0 < u"
  | (publish) a n r tr sm' sm out' where "joined s (may_publish now c s) = Some (a, n, r)"
      "normalize x ser summary = Ok (sm', tr)"
      "(out', sm) = published (ab \<and> (a_status a = St_Cancelling \<or> n_cancellation n \<noteq> None)) out sm'"
      "publish_terminal x ser org now retry c a n r tr out' sm s = Ok (t, v)"
proof -
  let ?j = "joined s (may_publish now c s)"
  from f obtain sm' tr current where n: "normalize x ser summary = Ok (sm', tr)"
    and current: "session_current s (lc_agent_id c) session = Ok current"
    by (auto simp: finalize_attempt_def and_then_eq_Ok)
  show thesis
  proof (cases "current \<and> find (\<lambda>a. holds_lease s c a \<and> published_status (a_status a)) (st_attempts s) = None \<and> ?j \<noteq> None")
    case False
    show thesis
    proof (cases "find (\<lambda>a. holds_lease s c a \<and> published_status (a_status a)) (st_attempts s)")
      case None
      with False f have "t = s" "v = None" 
        by (auto simp: finalize_attempt_def n current simp del: not_None_eq split: if_splits)
      then show thesis by (intro same) simp_all
    next
      case (Some a)
      with f have "t = s" "v = None \<or> v = replayed out sm' ab a"
        by (auto simp: finalize_attempt_def n current replayed_def split: if_splits)
      with Some n show thesis by (intro same) auto
    qed
  next
    case True
    then obtain a nd r where j: "?j = Some (a, nd, r)" by (metis not_None_eq prod_cases3)
    obtain out' sm where p: "published (ab \<and> (a_status a = St_Cancelling \<or> n_cancellation nd \<noteq> None)) out sm' = (out', sm)"
      by (cases "published (ab \<and> (a_status a = St_Cancelling \<or> n_cancellation nd \<noteq> None)) out sm'")
    let ?u = "uncertain_effects s (a_id a) (a_fence a)"
    from f True have "(if ?u > 0 then park_uncertain now c a nd r out' ?u s
        else if list_ex (incomplete_effect out') (effects_of s (a_id a) (a_fence a)) then Ok (s, None)
        else publish_terminal x ser org now retry c a nd r tr out' sm s) = Ok (t, v)"
      by (simp add: finalize_attempt_def n current j p Let_def del: not_None_eq split del: if_split)
    then consider "0 < ?u" "park_uncertain now c a nd r out' ?u s = Ok (t, v)" | "t = s" "v = None"
      | "publish_terminal x ser org now retry c a nd r tr out' sm s = Ok (t, v)"
      by (cases "0 < ?u"; cases "list_ex (incomplete_effect out') (effects_of s (a_id a) (a_fence a))") simp_all
    then show thesis
    proof cases
      case 1
      then show thesis by (intro park [OF j]) auto
    next
      case 2
      then show thesis by (intro same) auto
    next
      case 3
      then show thesis by (rule publish [OF j n p [symmetric]])
    qed
  qed
qed

lemma steps_finalize:
  assumes "finalize_attempt x ser org now retry c session out summary ab s = Ok (t, v)" "keyed s"
  shows "steps s t"
  using assms(1)
proof (cases rule: finalize_attempt_Ok)
  case (park a n r out' u)
  from joined_attempt [OF park(1)] show ?thesis
    by (intro steps_park [OF park(2) assms(2)]) (auto simp: leased_status_def may_publish_def)
next
  case (publish a n r tr sm' sm out')
  from joined_attempt [OF publish(1)] show ?thesis
    by (intro steps_publish [OF publish(4) assms(2)]) (auto simp: leased_status_def may_publish_def)
qed simp

lemma first_expired_Some:
  assumes "first_expired now s = Some (a, n, r)"
  shows "a \<in> set (st_attempts s) \<and> expired now a \<and> joined s (\<lambda>t. t = a) = Some (a, n, r)"
proof -
  let ?js = "concat (map (\<lambda>a. case joined s (\<lambda>t. t = a) of Some j \<Rightarrow> [j] | None \<Rightarrow> []) (filter (expired now) (st_attempts s)))"
  from assms have "(a, n, r) \<in> set (sort_key (\<lambda>(a, _). the (a_lease_expires_at a)) (sort_key (\<lambda>(a, _). a_id a) ?js))"
    by (auto simp: first_expired_def simp del: set_sort split: list.splits)
  then show ?thesis by (auto split: option.splits dest: joined_attempt [OF sym])
qed

text \<open>What the reclaiming of an expired lease does: it aborts the attempt, parks it or lets it wait again.\<close>

lemma requeue_Ok:
  assumes q: "requeue_one_expired now retry s = Ok (t, v)"
  obtains (none) "t = s"
  | (abort) a n r reason z where "first_expired now s = Some (a, n, r)"
      "n_cancellation n \<noteq> None \<or> b_cancellation r \<noteq> None \<or> pipeline_enabled s (b_id r) = Ok False"
      "settle now retry (b_id r) (n_id n) (a_id a) Out_Aborted
        (set_attempt (a_id a) (\<lambda>a. (abort_attempt now (reason_json reason) a)\<lparr>a_lease_expires_at := None\<rparr>)
          (make_uncertain now (a_id a) (a_fence a) s)) = Ok z" "t = z\<lparr>st_events := st_events t\<rparr>"
  | (park) a n r where "first_expired now s = Some (a, n, r)"
      "filter protected_effect (effects_of s (a_id a) (a_fence a)) \<noteq> [] \<or> sequential_process_uncertain s r a"
      "t = (require_reconciliation now (b_id r) (n_id n) (set_attempt (a_id a) (\<lambda>a. a\<lparr>a_status := St_ReconciliationRequired,
        a_lease_owner := None, a_lease_expires_at := None\<rparr>) (make_uncertain now (a_id a) (a_fence a) s)))\<lparr>st_events := st_events t\<rparr>"
  | (again) a n r where "first_expired now s = Some (a, n, r)"
      "n_cancellation n = None" "b_cancellation r = None"
      "t = (update_builds (\<lambda>t. b_id t = b_id r \<and> b_status t = St_Running \<and> b_cancellation t = None) (\<lambda>t. t\<lparr>b_status := St_Queued\<rparr>)
        (set_node now (n_id n) St_Queued (set_attempt (a_id a) (\<lambda>a. a\<lparr>a_status := St_Queued, a_lease_owner := None, a_lease_expires_at := None\<rparr>)
          (make_uncertain now (a_id a) (a_fence a) s))))\<lparr>st_events := st_events t\<rparr>"
proof (cases "first_expired now s")
  case None
  with q have "t = s" by (simp add: requeue_one_expired_def)
  then show thesis by (rule none)
next
  case (Some j)
  then obtain a n r where j: "first_expired now s = Some (a, n, r)" by (cases j) auto
  from q obtain en where en: "pipeline_enabled s (b_id r) = Ok en" by (auto simp: requeue_one_expired_def j and_then_eq_Ok)
  let ?p = "filter protected_effect (effects_of s (a_id a) (a_fence a)) \<noteq> [] \<or> sequential_process_uncertain s r a"
  let ?c = "n_cancellation n \<noteq> None \<or> b_cancellation r \<noteq> None \<or> \<not> en"
  note simps = requeue_one_expired_def j en Let_def and_then_eq_Ok append_event_eq
  consider "?c" "\<not> ?p" | "?p" | "\<not> ?c" "\<not> ?p" by blast
  then show thesis
  proof cases
    case 1
    let ?reason = "if en then ''cancellation_lease_expired'' else ''pipeline_operational_generation_fenced''"
    from 1 q obtain z where "settle now retry (b_id r) (n_id n) (a_id a) Out_Aborted
        (set_attempt (a_id a) (\<lambda>a. (abort_attempt now (reason_json ?reason) a)\<lparr>a_lease_expires_at := None\<rparr>)
          (make_uncertain now (a_id a) (a_fence a) s)) = Ok z" "t = z\<lparr>st_events := st_events t\<rparr>"
      by (auto simp: simps split del: if_split)
    with 1(1) show thesis by (intro abort [OF j]) (auto simp: en)
  next
    case 2
    with q show thesis by (intro park [OF j]) (auto simp: simps)
  next
    case 3
    with q show thesis by (intro again [OF j]) (auto simp: simps)
  qed
qed

lemma steps_requeue:
  assumes "requeue_one_expired now retry s = Ok (t, v)" "keyed s"
  shows "steps s t"
proof -
  have held: "steps s (set_attempt (a_id a) f (make_uncertain now i k s))"
    if "first_expired now s = Some (a, n, r)" "leased_status (a_status a) \<Longrightarrow> moves a (f a)" for a n r f i k
    using first_expired_Some [OF that(1)] that(2) steps_set_attempt [of s a f] assms(2)
    by (simp add: expired_def set_attempt_def update_attempts_def make_uncertain_def)
  from assms(1) show ?thesis
  proof (cases rule: requeue_Ok)
    case (abort a n r reason z)
    have "steps s z"
      by (rule evolves_trans [OF held [OF abort(1)] steps_settle [OF abort(3)]])
        (auto simp: leased_status_def intro: moves_abort)
    then show ?thesis by (subst abort(4)) simp
  next
    case (park a n r)
    show ?thesis
      by (subst park(3)) (use evolves_trans [OF held [OF park(1)] steps_reconcile] moves_return in simp)
  next
    case (again a n r)
    show ?thesis
      by (subst again(4)) (use evolves_trans [OF held [OF again(1)] steps_update_nodes] moves_return in \<open>simp add: set_node_def\<close>)
  qed simp
qed

lemma steps_cancel_dag: "cancel_dag_build now b s = Ok (t, v) \<Longrightarrow> steps s t"
  by (auto simp: cancel_dag_build_def Let_def and_then_eq_Ok request_stop_def update_attempts_def split: if_splits dest!: derive_attempts
      intro!: evolves_trans [OF evolves_update evolves_update] moves_abort moves_cancelling)

lemma steps_cancel_single: "cancel_single now actor r s = Ok (t, v) \<Longrightarrow> steps s t"
  by (auto simp: cancel_single_def Let_def and_then_eq_Ok update_attempts_def split: option.splits if_splits
      dest!: append_event_as_Ok intro!: evolves_update moves_abort moves_cancelling)

lemma steps_cancel: "request_cancellation_decision now project b actor s = Ok (t, v) \<Longrightarrow> steps s t"
  by (auto simp: request_cancellation_decision_def and_then_eq_Ok split: option.splits if_splits
      dest!: steps_cancel_dag steps_cancel_single append_event_as_Ok)

lemma discharge_attempts: "discharge c reason s = Ok (t, v) \<Longrightarrow> st_attempts t = st_attempts s"
  by (auto simp: discharge_def record_recovered_discharge_def and_then_eq_Ok append_event_eq Let_def split: option.splits if_splits)

lemma steps_stop:
  assumes "stop_attempt now retry c out a n r s = Ok (t, v)" "keyed s" "a \<in> set (st_attempts s)" "leased_status (a_status a)"
  shows "steps s t"
proof -
  have "steps s (require_reconciliation now b i (set_attempt (a_id a) (\<lambda>a. a\<lparr>a_status := St_ReconciliationRequired, a_lease_expires_at := None\<rparr>) s))" for b i
    using assms by (auto intro!: evolves_trans [OF steps_set_attempt steps_reconcile] moves_return)
  moreover have "steps s z" if "settle now retry b i j Out_Aborted (set_attempt (a_id a)
      (\<lambda>a. (abort_attempt now m a)\<lparr>a_lease_expires_at := None\<rparr>) s) = Ok z" for b i j m z
    using assms by (auto intro!: evolves_trans [OF steps_set_attempt steps_settle [OF that]] moves_abort simp: leased_status_def)
  ultimately show ?thesis using assms(1)
    by (auto simp: stop_attempt_def Let_def and_then_eq_Ok append_event_eq split: if_splits prod.splits)
qed

lemma steps_complete:
  assumes "complete_agent_cancellation now retry c epoch out s = Ok (t, v)" "keyed s"
  shows "steps s t"
  using assms(1)
  by (auto simp: complete_agent_cancellation_def and_then_eq_Ok leased_status_def split: option.splits if_splits
      dest!: joined_attempt discharge_attempts)
    (erule steps_stop [OF _ assms(2)], simp, simp add: leased_status_def)+

lemma steps_dead_lettered: "terminalize_dead_lettered now a n b reason s = Ok t \<Longrightarrow> steps s t"
proof -
  assume t: "terminalize_dead_lettered now a n b reason s = Ok t"
  have "moves r (r\<lparr>a_status := St_Failed, a_terminal_summary := v, a_completed_at := e\<rparr>)" if "a_status r = St_ReconciliationRequired" for r v e
    using that by (intro moves_step) (auto simp: moves_simps)
  with t show ?thesis
    by (auto simp: terminalize_dead_lettered_def Let_def update_attempts_def set_node_def split: if_splits dest!: notifications_eq
        intro!: evolves_update)
qed

lemma steps_reopen: "steps s (foldl (reopen_node now) s xs)"
proof (induction xs arbitrary: s)
  case (Cons x xs)
  have "steps s (reopen_node now s x)"
    by (cases x) (auto simp: reopen_node_def Let_def intro: evolves_trans [OF steps_insert steps_update_nodes])
  from evolves_trans [OF this Cons.IH] show ?case by simp
qed simp

lemma steps_retry_dag: "steps s (retry_dag now child fresh k b n a s)"
  unfolding retry_dag_def Let_def
  by (rule evolves_trans [OF evolves_trans [OF steps_insert steps_update_nodes] steps_reopen])

lemma steps_retry_single: "steps s (retry_single now child n a s)"
  unfolding retry_single_def by (rule evolves_trans [OF steps_insert steps_update_nodes])

lemma steps_retry: "schedule_retry now child fresh a k reason actor s = Ok (t, v) \<Longrightarrow> steps s t"
  by (auto simp: schedule_retry_def dead_letter_def and_then_eq_Ok Let_def steps_retry_dag steps_retry_single
      split: option.splits if_splits dest!: append_event_as_Ok steps_dead_lettered)

lemma steps_admit_nodes: "steps s (fst (foldl (admit_node now b) (s, m) xs))"
proof (induction xs arbitrary: s m)
  case (Cons x xs)
  obtain i a n where x: "x = ((i, a), n)" by (metis prod.exhaust)
  have "steps s (fst (admit_node now b (s, m) x))"
    using steps_insert [of "s\<lparr>st_nodes := st_nodes s @ [admitted_node now b i n]\<rparr>"] by (simp add: admit_node_def x)
  from evolves_trans [OF this Cons.IH] show ?case by (cases "admit_node now b (s, m) x") simp
qed simp

lemma admit_dependencies_eq:
  assumes "admit_dependencies b m s n = Ok t"
  shows "\<exists>ds. t = s\<lparr>st_dependencies := ds\<rparr>"
proof -
  from assms obtain child where "try_fold (\<lambda>s d.
       and_then (admitted_id m (dd_node_key d)) (\<lambda>parent.
       Ok (s\<lparr>st_dependencies := st_dependencies s @
         [\<lparr>d_build_id = b, d_parent = parent, d_child = child, d_condition = dd_condition d\<rparr>]\<rparr>)))
       s (nn_dependencies n) = Ok t" by (auto simp: admit_dependencies_def and_then_eq_Ok)
  then show ?thesis
    by (rule try_fold_invariant) (auto simp: and_then_eq_Ok intro: exI [of _ "st_dependencies s"])
qed

lemma admit_all_dependencies_eq:
  assumes "try_fold (admit_dependencies b m) s ns = Ok t"
  shows "\<exists>ds. t = s\<lparr>st_dependencies := ds\<rparr>"
  by (rule try_fold_invariant [OF assms]) (auto dest!: admit_dependencies_eq intro: exI [of _ "st_dependencies s"])

text \<open>An admission finds its build, or adds the rows of a new one.\<close>

lemma admit_dag_Ok:
  assumes "admit_dag x now b ids input s = Ok (t, v)"
  obtains (replay) "t = s" "\<not> da_created v" "existing_dag_admission s input (normalized_dag_contract input) = Ok v"
  | (created) digest u m w where "validate_dag_contract x input = Ok ()"
      "foldl (admit_node now b) (s\<lparr>st_builds := st_builds s @
        [admitted_build now b input (normalized_dag_contract input) digest 0]\<rparr>, []) (zip ids (nb_nodes input)) = (u, m)"
      "try_fold (admit_dependencies b m) u (nb_nodes input) = Ok w" "t = w\<lparr>st_events := st_events t\<rparr>"
      "v = \<lparr>da_build_id = b, da_nodes = m, da_created = True\<rparr>"
proof -
  let ?c = "normalized_dag_contract input"
  let ?known = "list_ex (\<lambda>r. b_project_id r = nb_project_id input \<and> b_idempotency_key r = nb_idempotency_key input) (st_builds s)"
  from assms have valid: "validate_dag_contract x input = Ok ()"
    and a: "admit_dag_contract_transaction x now b ids input ?c False 0 s = Ok (t, v)"
    by (auto simp: admit_dag_def and_then_eq_Ok split: if_splits)
  show thesis
  proof (cases ?known)
    case True
    with a valid show thesis
      by (intro replay) (auto simp: admit_dag_contract_transaction_def and_then_eq_Ok existing_dag_admission_def Let_def split: option.splits if_splits)
  next
    case False
    with a valid obtain digest where
      "(let s = s\<lparr>st_builds := st_builds s @ [admitted_build now b input ?c digest 0]\<rparr>;
           (s, nodes) = foldl (admit_node now b) (s, []) (zip ids (nb_nodes input)) in
       and_then (try_fold (admit_dependencies b nodes) s (nb_nodes input)) (\<lambda>s.
       and_then (append_event b ''dag.admitted''
         [(''build_id'', F_uuid b), (''nodes'', F_int (int (length nodes))),
          (''edges'', F_int (int (sum_list (map (\<lambda>n. length (nn_dependencies n)) (nb_nodes input)))))] s) (\<lambda>s.
       Ok (s, \<lparr>da_build_id = b, da_nodes = nodes, da_created = True\<rparr>)))) = Ok (t, v)"
      by (auto simp: admit_dag_contract_transaction_def and_then_eq_Ok Let_def)
    then obtain u m w es where "foldl (admit_node now b) (s\<lparr>st_builds := st_builds s @ [admitted_build now b input ?c digest 0]\<rparr>, [])
        (zip ids (nb_nodes input)) = (u, m)" "try_fold (admit_dependencies b m) u (nb_nodes input) = Ok w"
      "t = w\<lparr>st_events := es\<rparr>" "v = \<lparr>da_build_id = b, da_nodes = m, da_created = True\<rparr>"
      by (auto simp: Let_def and_then_eq_Ok append_event_eq split: prod.splits)
    then show thesis by (intro created [OF valid]) auto
  qed
qed

lemma steps_admit:
  assumes "admit_dag x now b ids input s = Ok (t, v)"
  shows "steps s t"
  using assms
proof (cases rule: admit_dag_Ok)
  case (created digest u m w)
  have "steps s u"
    using steps_admit_nodes [of "s\<lparr>st_builds := st_builds s @ [admitted_build now b input (normalized_dag_contract input) digest 0]\<rparr>" now b "[]" "zip ids (nb_nodes input)"]
    by (simp add: created(2))
  moreover from admit_all_dependencies_eq [OF created(3)] have "st_attempts w = st_attempts u" by auto
  moreover have "st_attempts t = st_attempts w" by (subst created(4)) simp
  ultimately show ?thesis by simp
qed simp

lemma evolves_ids: "evolves as bs \<Longrightarrow> length bs = length as \<Longrightarrow> map a_id bs = map a_id as"
proof -
  assume e: "evolves as bs" and l: "length bs = length as"
  from e obtain ms ns where b: "bs = ms @ ns" "list_all2 moves as ms" by (auto simp: evolves_def)
  with l list_all2_lengthD [OF b(2)] have "list_all2 moves as bs" by simp
  then show ?thesis by (induction rule: list_all2_induct) (simp_all add: moves_def)
qed

lemma length_node_loop: "length (snd (node_loop now deps P f changed nodes as)) = length as"
proof (induction nodes arbitrary: changed as)
  case (Cons n nodes)
  have "length (snd (if P n then status_trigger now deps (changed @ n # nodes) n (f n) as else (n, as))) = length as"
    by (simp add: status_trigger_def set_readiness_def update_rows_def)
  with Cons show ?case by (simp add: split_beta)
qed simp

lemma orphaned_steps:
  assumes "fail_orphaned_affinity_builds now s = Ok t"
  shows "steps s t \<and> map a_id (st_attempts t) = map a_id (st_attempts s)"
proof -
  have one: "steps u w \<and> length (st_attempts w) = length (st_attempts u)" if "fail_orphaned now u r = Ok w" for u r w
    using that
    by (auto simp: fail_orphaned_def Let_def and_then_eq_Ok append_event_eq update_attempts_def update_rows_def
        dest!: notifications_eq intro!: evolves_update [unfolded update_rows_def] moves_abort)
  have "steps s t \<and> length (st_attempts t) = length (st_attempts s)"
    using assms unfolding fail_orphaned_affinity_builds_def
    by (rule try_fold_invariant) (auto dest!: one intro: evolves_trans)
  then show ?thesis by (simp add: evolves_ids)
qed

lemma first_candidate_Some:
  assumes "first_candidate hash s req = Some (r, n, a)"
  shows "r \<in> set (st_builds s) \<and> n \<in> set (st_nodes s) \<and> a \<in> set (st_attempts s) \<and> claimable s req r n a"
proof -
  from assms have "(r, n, a) \<in> set (sort_key (\<lambda>(r, n, a). - n_priority n) (sort_key (\<lambda>(r, n, a). n_queued_at n)
      (sort_key (\<lambda>(r, n, a). hash (n_id n) (cr_fairness_seed req)) (sort_key (\<lambda>(r, n, a). n_id n) (candidates s req)))))"
    by (auto simp: first_candidate_def simp del: set_sort split: list.splits)
  then show ?thesis by (auto simp: candidates_def)
qed

lemma claim_next_Ok:
  assumes c: "claim_next hash now req session s = Ok (t, v)"
  obtains (none) "t = s" "v = None"
  | (claimed) u r n a where "u = s \<and> session = None \<or> fail_orphaned_affinity_builds now s = Ok u"
      "first_candidate hash u req = Some (r, n, a)" "pipeline_enabled u (b_id r) = Ok True"
      "offer now req r n a u = Ok (t, v)"
proof (cases "cr_lease_seconds req \<le> 0 \<or> trim (cr_trust_pool req) = [] \<or> session_current s (cr_agent_id req) session = Ok False")
  case True
  with c show thesis by (intro none) (auto simp: claim_next_def and_then_eq_Ok split: if_splits)
next
  case False
  with c obtain u where u: "(if session = None then Ok s else fail_orphaned_affinity_builds now s) = Ok u"
    and rest: "(case first_candidate hash u req of None \<Rightarrow> Ok (s, None)
      | Some (r, n, a) \<Rightarrow> and_then (pipeline_enabled u (b_id r)) (\<lambda>enabled. if \<not> enabled then Ok (s, None) else offer now req r n a u)) = Ok (t, v)"
    by (auto simp: claim_next_def and_then_eq_Ok split: if_splits)
  show thesis
  proof (cases "first_candidate hash u req")
    case None
    with rest show thesis by (intro none) auto
  next
    case (Some j)
    obtain r n a where j: "j = (r, n, a)" by (cases j)
    from rest Some j have "t = s \<and> v = None \<or> pipeline_enabled u (b_id r) = Ok True \<and> offer now req r n a u = Ok (t, v)"
      by (auto simp: and_then_eq_Ok split: if_splits)
    with u Some j none claimed show thesis by (auto split: if_splits)
  qed
qed

lemma steps_offer:
  assumes "offer now req r n a s = Ok (t, v)" "keyed s" "a \<in> set (st_attempts s)" "a_status a = St_Queued"
  shows "steps s t"
proof -
  have "moves a (a\<lparr>a_status := St_Offered, a_fence := a_fence a + 1, a_lease_owner := Some h, a_lease_expires_at := e, a_restore_epoch := p\<rparr>)" for h e p
    using assms(4) by (intro moves_step) (auto simp: moves_simps)
  then have "steps s (set_attempt (a_id a) (\<lambda>t. t\<lparr>a_status := St_Offered, a_fence := a_fence t + 1, a_lease_owner := Some (cr_agent_id req),
      a_lease_expires_at := Some (now + seconds (cr_lease_seconds req)), a_restore_epoch := st_restore_epoch s\<rparr>) s)"
    by (intro steps_set_attempt [OF assms(2, 3)])
  with assms(1) show ?thesis
    by (auto simp: offer_def Let_def and_then_eq_Ok append_event_eq set_attempt_def update_attempts_def)
qed

lemma steps_claim:
  assumes "claim_next hash now req session s = Ok (t, v)" "keyed s"
  shows "steps s t"
  using assms(1)
proof (cases rule: claim_next_Ok)
  case (claimed u r n a)
  then have "steps s u" "keyed u" using orphaned_steps [of now s u] assms(2) by (auto simp: keyed_def)
  with first_candidate_Some [OF claimed(2)] steps_offer [OF claimed(4)] show ?thesis
    by (auto simp: claimable_def intro: evolves_trans)
qed simp

lemma execute_steps:
  assumes "execute env now cmd s = Ok (t, v)" "keyed s"
  shows "steps s t"
  using assms
  by (cases cmd) (auto simp: execute_def tables_def and_then_eq_Ok intro: steps_admit steps_claim steps_accept steps_running
      steps_renew steps_recover steps_requeue steps_finalize steps_cancel steps_complete steps_retry)

section \<open>Runs\<close>

text \<open>
  A sequence of commands with their clock readings. A command that fails is rolled back, as is one
  that would repeat the identifier of an attempt, the primary key of its table.
\<close>

fun run :: "controller_env \<Rightarrow> (instant \<times> command) list \<Rightarrow> store \<Rightarrow> store \<times> claimed_attempt list" where
  "run env [] s = (s, [])"
| "run env ((now, cmd) # cs) s = (case execute env now cmd s of
     Err _ \<Rightarrow> run env cs s
   | Ok (t, v) \<Rightarrow>
       if \<not> keyed t then run env cs s
       else case run env cs t of (u, vs) \<Rightarrow> (u, (case v of Some c \<Rightarrow> c # vs | None \<Rightarrow> vs)))"

lemma life_step_fence: "life_step\<^sup>*\<^sup>* p q \<Longrightarrow> fst p \<le> fst q"
  by (induction rule: rtranclp_induct) (auto elim!: life_step.cases)

lemma steps_attempt:
  assumes "steps s t" "keyed t" "a \<in> set (st_attempts s)"
  obtains a' where "a' \<in> set (st_attempts t)" "moves a a'" "\<And>b. b \<in> set (st_attempts t) \<Longrightarrow> a_id b = a_id a \<Longrightarrow> b = a'"
proof -
  from assms(1) obtain ms ns where m: "st_attempts t = ms @ ns" "list_all2 moves (st_attempts s) ms" by (auto simp: evolves_def)
  from m(2) assms(3) obtain a' where "a' \<in> set ms" "moves a a'" by (metis in_set_conv_nth list_all2_conv_all_nth)
  with m(1) keyed_unique [OF assms(2), of a'] show thesis by (intro that [of a']) (auto simp: moves_def)
qed

lemma claim_fence:
  assumes c: "claim_next hash now req session s = Ok (t, Some c)" and k: "keyed s" "keyed t"
  shows "(\<forall>a\<in>set (st_attempts s). a_id a = ca_attempt_id c \<longrightarrow> a_fence a < ca_fence c) \<and>
    (\<exists>a\<in>set (st_attempts t). a_id a = ca_attempt_id c \<and> a_fence a = ca_fence c \<and>
       a_status a = St_Offered \<and> a_lease_owner a = Some (ca_agent_id c))"
  using c
proof (cases rule: claim_next_Ok)
  case (claimed u r n a)
  let ?f = "\<lambda>t. t\<lparr>a_status := St_Offered, a_fence := a_fence t + 1, a_lease_owner := Some (cr_agent_id req),
     a_lease_expires_at := Some (now + seconds (cr_lease_seconds req)), a_restore_epoch := st_restore_epoch u\<rparr>"
  from claimed have u: "steps s u" "keyed u" using orphaned_steps [of now s u] k(1) by (auto simp: keyed_def)
  from claimed(4) have id: "ca_attempt_id c = a_id a" "ca_fence c = a_fence a + 1" "ca_agent_id c = cr_agent_id req"
    and t: "st_attempts t = update_rows (\<lambda>t. a_id t = a_id a) ?f (st_attempts u)"
    by (auto simp: offer_def Let_def and_then_eq_Ok append_event_eq update_attempts_def)
  have a: "a \<in> set (st_attempts u)" using first_candidate_Some [OF claimed(2)] by simp
  have "a_fence b < ca_fence c" if b: "b \<in> set (st_attempts s)" "a_id b = a_id a" for b
  proof -
    from steps_attempt [OF u b(1)] a b(2) have "moves b a" by metis
    then show ?thesis using life_step_fence [of "life b" "life a"] by (simp add: moves_def life_def id)
  qed
  moreover have "?f a \<in> set (st_attempts t)" unfolding t update_rows_def using a by force
  ultimately show ?thesis using id by (intro conjI bexI [of _ "?f a"]) auto
qed simp

lemma run_fences: "keyed s \<Longrightarrow> c \<in> set (snd (run env cs s)) \<Longrightarrow> a \<in> set (st_attempts s) \<Longrightarrow> a_id a = ca_attempt_id c \<Longrightarrow>
    a_fence a < ca_fence c"
proof (induction cs arbitrary: s a)
  case (Cons x cs)
  obtain now cmd where x: "x = (now, cmd)" by (cases x)
  show ?case
  proof (cases "execute env now cmd s")
    case (Err e)
    with Cons x show ?thesis by simp
  next
    case (Ok tv)
    obtain t v where tv: "tv = (t, v)" by (cases tv)
    show ?thesis
    proof (cases "keyed t")
      case False
      with Cons x Ok tv show ?thesis by simp
    next
      case True
      have later: "a_fence a < ca_fence c" if "c \<in> set (snd (run env cs t))"
      proof -
        obtain a' where a': "a' \<in> set (st_attempts t)" "moves a a'"
          using steps_attempt [OF execute_steps [OF Ok [unfolded tv] Cons.prems(1)] True Cons.prems(3)] by metis
        from Cons.IH [OF True that a'(1)] a'(2) Cons.prems(4) life_step_fence [of "life a" "life a'"] show ?thesis
          by (simp add: moves_def life_def)
      qed
      from Cons.prems(2) x Ok tv True have "v = Some c \<or> c \<in> set (snd (run env cs t))"
        by (auto split: prod.splits option.splits)
      moreover have "a_fence a < ca_fence c" if "v = Some c"
      proof -
        from Ok tv that obtain req session where "claim_next (ce_hash env) now req session s = Ok (t, Some c)"
          by (cases cmd) (auto simp: execute_def tables_def and_then_eq_Ok)
        from claim_fence [OF this Cons.prems(1) True] Cons.prems(3, 4) show ?thesis by blast
      qed
      ultimately show ?thesis using later by blast
    qed
  qed
qed simp

text \<open>A claim shows in the row it names, and a later claim of the same attempt has a larger fence.\<close>

lemma run_claims_distinct: "keyed s \<Longrightarrow> distinct (map (\<lambda>c. (ca_attempt_id c, ca_fence c)) (snd (run env cs s)))"
proof (induction cs arbitrary: s)
  case (Cons x cs)
  obtain now cmd where x: "x = (now, cmd)" by (cases x)
  show ?case
  proof (cases "execute env now cmd s")
    case (Err e)
    with Cons x show ?thesis by simp
  next
    case (Ok tv)
    obtain t v where tv: "tv = (t, v)" by (cases tv)
    have "(ca_attempt_id c, ca_fence c) \<notin> (\<lambda>c. (ca_attempt_id c, ca_fence c)) ` set (snd (run env cs t))"
      if "v = Some c" "keyed t" for c
    proof -
      from Ok tv that obtain req session where "claim_next (ce_hash env) now req session s = Ok (t, Some c)"
        by (cases cmd) (auto simp: execute_def tables_def and_then_eq_Ok)
      from claim_fence [OF this Cons.prems that(2)] obtain a where
        "a \<in> set (st_attempts t)" "a_id a = ca_attempt_id c" "a_fence a = ca_fence c" by blast
      with run_fences [OF that(2), of _ env cs a] show ?thesis by fastforce
    qed
    with Cons.IH [of t] Cons.IH [of s] Cons.prems x Ok tv show ?thesis by (auto simp: split_beta split: option.splits)
  qed
qed simp

lemma keyed_run: "keyed s \<Longrightarrow> keyed (fst (run env cs s))"
  by (induction env cs s rule: run.induct) (auto simp: split_beta split: result.splits)

lemma steps_run: "keyed s \<Longrightarrow> steps s (fst (run env cs s))"
proof (induction env cs s rule: run.induct)
  case (2 env now cmd cs s)
  then show ?case
    by (auto simp: split_beta split: result.splits intro: evolves_trans [OF execute_steps])
qed simp


lemma sample_run_keyed: "keyed sample_store"
  by (simp add: keyed_def sample_rows)

lemma sample_run_claims:
  "snd (run sample_env sample_commands sample_store) =
     map (\<lambda>f. \<lparr>ca_build_id = 4, ca_node_id = 5, ca_attempt_id = 6, ca_fence = f, ca_restore_epoch = 1, ca_agent_id = ''agent''\<rparr>) [1, 2]"
  by (simp add: execute_def tables_def keyed_def accept_offer_def evaluate_claim evaluate_rows evaluate_requeue sample_rows)


text \<open>
  C21. Leases are exclusive: along every run no two claims are granted under the same fence of the
  same attempt, and a claim's fence is larger than the one the attempt started with.
\<close>

theorem claims_exclusive:
  assumes "keyed s"
  shows "distinct (map (\<lambda>c. (ca_attempt_id c, ca_fence c)) (snd (run env cs s))) \<and>
    (\<forall>c\<in>set (snd (run env cs s)). \<forall>a\<in>set (st_attempts s). a_id a = ca_attempt_id c \<longrightarrow> a_fence a < ca_fence c)"
  using run_claims_distinct [OF assms] run_fences [OF assms] by blast

theorem claims_exclusive_witness:
  "keyed sample_store \<and> map ca_fence (snd (run sample_env sample_commands sample_store)) = [1, 2] \<and>
   distinct (map (\<lambda>c. (ca_attempt_id c, ca_fence c)) (snd (run sample_env sample_commands sample_store)))"
  using claims_exclusive [OF sample_run_keyed, of sample_env sample_commands] sample_run_keyed
  by (simp add: sample_run_claims)

section \<open>Requests under a lost lease\<close>

definition lease_of :: "command \<Rightarrow> lease_claim option" where
  "lease_of cmd = (case cmd of
     Accept c _ \<Rightarrow> Some c | Mark_running c _ \<Rightarrow> Some c | Renew c _ _ \<Rightarrow> Some c | Recover c _ _ _ \<Rightarrow> Some c
   | Finalize _ c _ _ _ _ \<Rightarrow> Some c | Complete_cancellation _ c _ _ \<Rightarrow> Some c | _ \<Rightarrow> None)"

text \<open>Two stores that differ in the event log at most.\<close>

definition logged :: "store \<Rightarrow> store \<Rightarrow> bool" where
  "logged s t \<longleftrightarrow> (\<exists>es. t = s\<lparr>st_events := es\<rparr>)"

lemma logged_refl [simp, intro]: "logged s s"
  unfolding logged_def by (rule exI [of _ "st_events s"]) simp

definition no_lease :: "store \<Rightarrow> lease_claim \<Rightarrow> bool" where
  "no_lease s c \<longleftrightarrow> (\<forall>a\<in>set (st_attempts s). \<not> holds_lease s c a)"

lemma joined_None: "\<forall>a\<in>set (st_attempts s). \<not> P a \<Longrightarrow> joined s P = None"
  by (cases "find P (st_attempts s)") (auto simp: joined_def find_Some_iff)

lemma no_lease_joined: "no_lease s c \<Longrightarrow> joined s (\<lambda>a. holds_lease s c a \<and> P a) = None"
  by (rule joined_None) (auto simp: no_lease_def)

lemma renew_stale:
  assumes stale: "no_lease s c" and r: "renew_attempt_lease now c session k s = Ok (t, v)"
  shows "logged s t"
proof -
  have j: "joined s (\<lambda>a. renewable c a \<and> a_restore_epoch a = st_restore_epoch s \<and> lease_live now a) = None"
    by (rule joined_None) (use stale in \<open>auto simp: no_lease_def renewable_def holds_lease_def\<close>)
  have e: "record_lease_renewal_rejection c cause s = Ok u \<Longrightarrow> logged s u" for cause u
    by (auto simp: logged_def dest: rejection_eq)
  from r show ?thesis
    by (auto simp: renew_attempt_lease_def and_then_eq_Ok j split: if_splits dest!: e)
qed

lemma accept_stale: "no_lease s c \<Longrightarrow> accept_offer now c session s = Ok (t, v) \<Longrightarrow> t = s"
  by (auto simp: accept_offer_def and_then_eq_Ok no_lease_joined split: if_splits)

lemma running_stale: "no_lease s c \<Longrightarrow> mark_attempt_running now c session s = Ok (t, v) \<Longrightarrow> t = s"
  by (auto simp: mark_attempt_running_def and_then_eq_Ok no_lease_joined split: if_splits)

lemma recover_stale: "no_lease s c \<Longrightarrow> recover_agent_finalization now c session phase k s = Ok (t, v) \<Longrightarrow> t = s"
  by (auto simp: recover_agent_finalization_def and_then_eq_Ok no_lease_def find_Some_iff split: if_splits option.splits)

lemma finalize_stale:
  assumes "no_lease s c" "finalize_attempt x ser org now retry c session out summary ab s = Ok (t, v)"
  shows "t = s"
  using assms(2)
  by (rule finalize_attempt_Ok) (use assms(1) in \<open>auto simp: no_lease_def may_publish_def dest!: joined_attempt\<close>)

lemma complete_stale:
  assumes "no_lease s c" "complete_agent_cancellation now retry c epoch out s = Ok (t, v)"
  shows "logged s t"
proof -
  have "discharge c reason s = Ok (t, v) \<Longrightarrow> logged s t" for reason
    by (auto simp: discharge_def record_recovered_discharge_def and_then_eq_Ok append_event_eq Let_def split: option.splits if_splits)
      (auto simp: logged_def)
  with assms show ?thesis
    by (auto simp: complete_agent_cancellation_def and_then_eq_Ok no_lease_joined split: if_splits)
qed

text \<open>
  C22. A lost lease has no power: a request whose fence, restore epoch or agent is not the attempt's
  leaves every table as it is; at most the event log grows.
\<close>

theorem stale_lease_refused:
  assumes "lease_of cmd = Some c" "no_lease s c" "execute env now cmd s = Ok (t, v)"
  shows "logged s t"
  using assms
  by (cases cmd) (auto simp: lease_of_def execute_def tables_def and_then_eq_Ok
      dest: accept_stale running_stale renew_stale recover_stale finalize_stale complete_stale)

theorem stale_lease_refused_witness:
  "no_lease sample_store sample_lease \<and>
   (\<exists>t v. execute sample_env 1 (Renew sample_lease None 30) sample_store = Ok (t, v) \<and> logged sample_store t)"
proof -
  have stale: "no_lease sample_store sample_lease" by (simp add: no_lease_def holds_lease_def sample_rows)
  have "execute sample_env 1 (Renew sample_lease None 30) sample_store = Ok (sample_store, None)"
    by (simp add: execute_def tables_def renew_attempt_lease_def renewable_def record_lease_renewal_rejection_def
        evaluate_rows sample_rows)
  with stale stale_lease_refused [of "Renew sample_lease None 30" sample_lease sample_store sample_env 1 sample_store None]
  show ?thesis by (auto simp: lease_of_def)
qed

end
