(* ===== verification/Spec2Isabelle.thy ===== *)
theory Spec2Isabelle
  imports Expression_Roundtrip Artifact_Matching Compile Canonical_Identity Schedule_Grammar
    Dag_Matrix Attempt_Life
begin

text \<open>
  A verification development for the McLoving continuous-integration system.
\<close>

end
